(* ===== verification/Prelude.thy ===== *)
theory Prelude
  imports Main "HOL-Library.Word" "HOL-Library.Multiset"
begin

text \<open>
  Shared vocabulary of the development: the machine integers of the C code, the C
  \<^verbatim>\<open>while\<close> loop with \<^verbatim>\<open>break\<close> and thread cancellation, byte order, bounded
  buffers and C strings, and the collections of facts the component proofs rewrite with.
\<close>

unbundle bit_operations_syntax

named_theorems res_simps \<open>effect of a system call on descriptors, heap blocks and threads\<close>
named_theorems frame_simps \<open>fields a system call does not touch\<close>

type_synonym u8 = "8 word"
type_synonym u16 = "16 word"
type_synonym u32 = "32 word"
type_synonym addr = nat
type_synonym fptr = nat
type_synonym tid = nat

abbreviation (input) NULL :: nat where
  "NULL \<equiv> 0"

text \<open>
  Equalities of descriptor, block and thread sets are proved by rewriting; splitting them into
  two inclusions by default only gets in the way.
\<close>

declare equalityI [rule del]

section \<open>Loops\<close>

text \<open>
  One turn of a loop body ends in \<open>Next\<close> (the end of the body or \<^verbatim>\<open>continue\<close>),
  \<open>Break\<close>, or \<open>Cancel\<close> (a cancellation point acted on a pending request, so the
  thread never gets back to the loop).
\<close>

datatype flow = Next | Break | Cancel

partial_function (option) c_while ::
  "('s \<Rightarrow> bool) \<Rightarrow> ('s \<Rightarrow> flow \<times> 's) \<Rightarrow> 's \<Rightarrow> (bool \<times> 's) option" where
  "c_while g body st =
     (if g st
      then (case body st of (fl, st') \<Rightarrow>
              (case fl of
                 Next \<Rightarrow> c_while g body st'
               | Break \<Rightarrow> Some (False, st')
               | Cancel \<Rightarrow> Some (True, st')))
      else Some (False, st))"

text \<open>The result says whether the thread was cancelled, and the last state.\<close>

lemma c_while_done: "\<not> g st \<Longrightarrow> c_while g body st = Some (False, st)"
  by (simp add: c_while.simps)

lemma c_while_next:
  "g st \<Longrightarrow> body st = (Next, st') \<Longrightarrow> c_while g body st = c_while g body st'"
  by (simp add: c_while.simps [of g body st])

lemma c_while_break:
  "g st \<Longrightarrow> body st = (Break, st') \<Longrightarrow> c_while g body st = Some (False, st')"
  by (simp add: c_while.simps [of g body st])

lemma c_while_cancel:
  "g st \<Longrightarrow> body st = (Cancel, st') \<Longrightarrow> c_while g body st = Some (True, st')"
  by (simp add: c_while.simps [of g body st])

lemmas c_while_steps = c_while_done c_while_next c_while_break c_while_cancel

text \<open>Total correctness: an invariant, and a measure that every further turn decreases.\<close>

lemma c_while_total:
  assumes inv: "I st"
    and turn: "\<And>st fl st'. I st \<Longrightarrow> g st \<Longrightarrow> body st = (fl, st') \<Longrightarrow>
      (case fl of Next \<Rightarrow> I st' \<and> m st' < (m st :: nat) | Break \<Rightarrow> Q False st' | Cancel \<Rightarrow> Q True st')"
    and exit: "\<And>st. I st \<Longrightarrow> \<not> g st \<Longrightarrow> Q False st"
  shows "\<exists>c st'. c_while g body st = Some (c, st') \<and> Q c st'"
  using inv
proof (induction "m st" arbitrary: st rule: less_induct)
  case less
  show ?case
  proof (cases "g st")
    case False
    with less.prems show ?thesis by (auto simp: c_while_done intro: exit)
  next
    case True
    obtain fl st' where b: "body st = (fl, st')" by fastforce
    show ?thesis
    proof (cases fl)
      case Next
      with turn [OF less.prems True b] less.hyps b True show ?thesis
        by (auto simp: c_while_next)
    next
      case Break
      with turn [OF less.prems True b] b True show ?thesis by (auto simp: c_while_break)
    next
      case Cancel
      with turn [OF less.prems True b] b True show ?thesis by (auto simp: c_while_cancel)
    qed
  qed
qed

text \<open>A loop that never leaves its invariant, and never stops there, does not end.\<close>

lemma c_while_forever:
  assumes "I st" and "\<And>st. I st \<Longrightarrow> g st \<and> fst (body st) = Next \<and> I (snd (body st))"
  shows "c_while g body st = None"
proof -
  have "h = g \<longrightarrow> b = body \<longrightarrow> \<not> I st" if r: "c_while h b st = Some r" for h b st r
  proof (rule c_while.raw_induct [OF _ r], intro impI notI)
    fix loop h b st r
    assume IH: "\<And>h b st r. loop h b st = Some r \<Longrightarrow> h = g \<longrightarrow> b = body \<longrightarrow> \<not> I st"
      and l: "(if h st then case b st of (fl, st') \<Rightarrow> (case fl of Next \<Rightarrow> loop h b st'
        | Break \<Rightarrow> Some (False, st') | Cancel \<Rightarrow> Some (True, st')) else Some (False, st)) = Some r"
      and h: "h = g" "b = body" and "I st"
    from assms(2) [OF this(5)] obtain st' where "g st" "body st = (Next, st')" "I st'" by (cases "body st") auto
    with l h IH show False by auto
  qed
  with assms(1) show ?thesis by (cases "c_while g body st") auto
qed

text \<open>Turns in any order: what every turn keeps holds after any sequence of them.\<close>

locale kept_by_turns =
  fixes turn :: "'t \<Rightarrow> 's \<Rightarrow> 's"
    and inv :: "'s \<Rightarrow> bool"
    and obs :: "'s \<Rightarrow> 'o"
  assumes keeps_inv: "inv s \<Longrightarrow> inv (turn t s)"
    and keeps_obs: "inv s \<Longrightarrow> obs (turn t s) = obs s"
begin

lemma run: "inv s \<Longrightarrow> inv (fold turn ts s) \<and> obs (fold turn ts s) = obs s"
  by (induction ts arbitrary: s) (simp_all add: keeps_inv keeps_obs)

end

section \<open>Byte order\<close>

text \<open>
  The code runs on a little-endian host (the target of the build files); there
  \<^verbatim>\<open>htons\<close> and \<^verbatim>\<open>htonl\<close> reverse the bytes, and \<^verbatim>\<open>ntohs\<close> and \<^verbatim>\<open>ntohl\<close> are the same
  functions.
\<close>

definition htons :: "u16 \<Rightarrow> u16" where
  "htons w = word_of_nat ((unat w mod 256) * 256 + unat w div 256)"

definition htonl :: "u32 \<Rightarrow> u32" where
  "htonl w = word_of_nat
     ((unat w mod 256) * 256 ^ 3 + (unat w div 256 mod 256) * 256 ^ 2
      + (unat w div 256 ^ 2 mod 256) * 256 + unat w div 256 ^ 3)"

abbreviation ntohs :: "u16 \<Rightarrow> u16" where
  "ntohs \<equiv> htons"

abbreviation ntohl :: "u32 \<Rightarrow> u32" where
  "ntohl \<equiv> htonl"

lemma unat_u16_less: "unat (w :: u16) < 65536"
  using unsigned_less [of w] by simp

lemma unat_u32_less: "unat (w :: u32) < 4294967296"
  using unsigned_less [of w] by simp

lemma unat_htons: "unat (htons w) = (unat w mod 256) * 256 + unat w div 256"
proof -
  have "unat w div 256 < 256" using unat_u16_less [of w] by (simp add: div_less_iff_less_mult)
  then have "(unat w mod 256) * 256 + unat w div 256 < 65536"
    using mod_less_divisor [of 256 "unat w"] by linarith
  then show ?thesis
    unfolding htons_def by (simp only: unat_of_nat len_of_numeral_defs) simp
qed

lemma ntohs_htons [simp]: "ntohs (htons w) = w"
proof (rule word_unat_eq_iff [THEN iffD2])
  have "unat w div 256 < 256" using unat_u16_less [of w] by (simp add: div_less_iff_less_mult)
  then show "unat (ntohs (htons w)) = unat w"
    using div_mult_mod_eq [of "unat w" 256] by (simp add: unat_htons div_mult_self3 mod_mult_self3)
qed

end
