(* ===== verification/Comm_Log.thy ===== *)
theory Comm_Log
  imports Prelude
begin

text \<open>
  \<^verbatim>\<open>source/comm_log.c\<close>, \<^verbatim>\<open>source/comm_log.h\<close> and \<^verbatim>\<open>eLogMask\<close> of \<^verbatim>\<open>include/comm_if.h\<close>:
  the log mask and dump flag, the hexadecimal dump and the log line. Standard output is a
  string that the functions append to. The text a format and its arguments expand to (the
  work of \<^verbatim>\<open>vsnprintf\<close>) is an argument.
\<close>

section \<open>State\<close>

record log_state =
  g_logMask :: u32
  g_dumpFlag :: u32
  stdout :: string

definition LOG_MASK_NONE :: u32 where "LOG_MASK_NONE = 0x0"
definition LOG_MASK_1 :: u32 where "LOG_MASK_1 = 0x1"
definition LOG_MASK_2 :: u32 where "LOG_MASK_2 = 0x2"
definition LOG_MASK_3 :: u32 where "LOG_MASK_3 = 0x4"
definition LOG_MASK_ALL :: u32 where "LOG_MASK_ALL = 0x7"

definition IPC_LOG_SIZE :: nat where "IPC_LOG_SIZE = 255"

definition log_start :: log_state where
  "log_start = \<lparr>g_logMask = LOG_MASK_1, g_dumpFlag = 0, stdout = ''''\<rparr>"

definition printf :: "string \<Rightarrow> log_state \<Rightarrow> log_state" where
  "printf str l = l\<lparr>stdout := stdout l @ str\<rparr>"

definition newline :: string where
  "newline = [CHR 0x0A]"

section \<open>Mask and flag\<close>

definition comm_setLogMask :: "u32 \<Rightarrow> log_state \<Rightarrow> log_state" where
  "comm_setLogMask msk l = l\<lparr>g_logMask := msk AND LOG_MASK_ALL\<rparr>"

definition comm_getLogMask :: "log_state \<Rightarrow> u32" where
  "comm_getLogMask l = g_logMask l"

definition comm_setDumpFlag :: "u32 \<Rightarrow> log_state \<Rightarrow> log_state" where
  "comm_setDumpFlag flag l =
     (if flag \<noteq> 0
      then (printf (''[DUMP] turn on'' @ newline) l)\<lparr>g_dumpFlag := 1\<rparr>
      else (printf (''[DUMP] turn off'' @ newline) l)\<lparr>g_dumpFlag := 0\<rparr>)"

definition comm_getDumpFlag :: "log_state \<Rightarrow> u32" where
  "comm_getDumpFlag l = g_dumpFlag l"

section \<open>The log line\<close>

text \<open>
  The prefix is written first; \<^verbatim>\<open>vsnprintf\<close> then stores at most the remaining size minus one
  characters of the expanded text. The array holds \<open>IPC_LOG_SIZE + 1\<close> bytes.
\<close>

definition log_prefix :: "string \<Rightarrow> string" where
  "log_prefix pfx = ''['' @ pfx @ ''] ''"

definition comm_print :: "string \<Rightarrow> string \<Rightarrow> log_state \<Rightarrow> log_state" where
  "comm_print pfx text l =
     (let msg = log_prefix pfx;
          msgLen = length msg;
          msg = msg @ take (IPC_LOG_SIZE - msgLen - 1) text
      in printf msg l)"

definition LOG_ERROR :: "string \<Rightarrow> log_state \<Rightarrow> log_state" where
  "LOG_ERROR text = comm_print ''ERRO'' text"

definition LOG_WARN :: "string \<Rightarrow> log_state \<Rightarrow> log_state" where
  "LOG_WARN text = comm_print ''WARN'' text"

definition LOG_1 :: "string \<Rightarrow> log_state \<Rightarrow> log_state" where
  "LOG_1 text l = (if g_logMask l AND LOG_MASK_1 \<noteq> 0 then comm_print ''INFO'' text l else l)"

definition LOG_2 :: "string \<Rightarrow> log_state \<Rightarrow> log_state" where
  "LOG_2 text l = (if g_logMask l AND LOG_MASK_2 \<noteq> 0 then comm_print ''INFO'' text l else l)"

definition LOG_3 :: "string \<Rightarrow> log_state \<Rightarrow> log_state" where
  "LOG_3 text l = (if g_logMask l AND LOG_MASK_3 \<noteq> 0 then comm_print ''INFO'' text l else l)"

section \<open>The dump\<close>

text \<open>\<^verbatim>\<open>%02X\<close> of a byte: two upper-case hexadecimal digits; \<^verbatim>\<open>%u\<close>: decimal digits.\<close>

definition hex_digit :: "nat \<Rightarrow> char" where
  "hex_digit n = (if n < 10 then char_of (48 + n) else char_of (55 + n))"

definition fmt_02X :: "u8 \<Rightarrow> string" where
  "fmt_02X b = [hex_digit (unat b div 16), hex_digit (unat b mod 16)]"

fun fmt_u :: "nat \<Rightarrow> string" where
  "fmt_u n = (if n < 10 then [char_of (48 + n)] else fmt_u (n div 10) @ [char_of (48 + n mod 10)])"

declare fmt_u.simps [simp del]

text \<open>The loop over the bytes, from index \<open>i\<close>: a line break before every sixteenth byte but the first.\<close>

fun dump_loop :: "nat \<Rightarrow> u8 list \<Rightarrow> string" where
  "dump_loop i [] = []"
| "dump_loop i (b # bs) =
     (if i \<noteq> 0 \<and> i mod 16 = 0 then newline else []) @ '' '' @ fmt_02X b @ dump_loop (Suc i) bs"

text \<open>
  The memory at \<open>pAddr\<close> is given by the bytes there, \<open>None\<close> for a null pointer; \<open>size\<close> is
  the number of bytes read.
\<close>

definition comm_dump :: "string \<Rightarrow> u8 list option \<Rightarrow> log_state \<Rightarrow> log_state" where
  "comm_dump pName pAddr l =
     (let l = printf (''[DUMP] '' @ pName @ newline) l;
          l = (case pAddr of
                 None \<Rightarrow> printf ('' NULL'' @ newline) l
               | Some bs \<Rightarrow>
                   (let l = printf (dump_loop 0 bs) l;
                        l = printf newline l
                    in printf ('' '' @ fmt_u (length bs) @ '' bytes'' @ newline) l))
      in printf (''[DUMP]'' @ newline @ newline) l)"

definition LOG_DUMP :: "string \<Rightarrow> u8 list option \<Rightarrow> log_state \<Rightarrow> log_state" where
  "LOG_DUMP pName pAddr l = (if g_dumpFlag l \<noteq> 0 then comm_dump pName pAddr l else l)"

section \<open>Properties\<close>

lemma stdout_printf [simp]: "stdout (printf str l) = stdout l @ str"
  by (simp add: printf_def)

lemma masks_printf [simp]:
  "g_logMask (printf str l) = g_logMask l" "g_dumpFlag (printf str l) = g_dumpFlag l"
  by (simp_all add: printf_def)

text \<open>Reading a dump back: separators are skipped, two digits make a byte.\<close>

definition hex_value :: "char \<Rightarrow> nat" where
  "hex_value c = (let n = of_char c in if n < 58 then n - 48 else n - 55)"

fun read_dump :: "string \<Rightarrow> u8 list" where
  "read_dump (c # d # e # cs) =
     (if c = CHR '' '' then word_of_nat (16 * hex_value d + hex_value e) # read_dump cs
      else read_dump (d # e # cs))"
| "read_dump _ = []"

lemma hex_value_digit: "n < 16 \<Longrightarrow> hex_value (hex_digit n) = n"
  by (auto simp: hex_value_def hex_digit_def Let_def)

lemma unat_u8_less: "unat (b :: u8) < 256"
  using unsigned_less [of b] by simp

lemma read_byte: "word_of_nat (16 * hex_value (hex_digit (unat b div 16))
    + hex_value (hex_digit (unat b mod 16))) = (b :: u8)"
proof -
  have "unat b div 16 < 16"
    using unat_u8_less [of b] by (simp add: div_less_iff_less_mult)
  then have "16 * hex_value (hex_digit (unat b div 16)) + hex_value (hex_digit (unat b mod 16)) = unat b"
    by (simp only: hex_value_digit mod_less_divisor) simp
  then show ?thesis by (simp del: of_nat_add of_nat_mult)
qed

lemma read_dump_byte: "read_dump (CHR '' '' # fmt_02X b @ cs) = b # read_dump cs"
  by (simp add: fmt_02X_def read_byte del: of_nat_add of_nat_mult)

text \<open>A line of a dump, and the bytes on each line: the lines but the last have sixteen.\<close>

definition dump_line :: "u8 list \<Rightarrow> string" where
  "dump_line bs = concat (map (\<lambda>b. '' '' @ fmt_02X b) bs)"

definition dump_rows :: "u8 list \<Rightarrow> u8 list list" where
  "dump_rows bs = map (\<lambda>i. take 16 (drop (16 * i) bs)) [0..<max 1 ((length bs + 15) div 16)]"

lemma read_dump_line: "read_dump (dump_line bs) = bs"
  by (induction bs) (simp_all add: dump_line_def read_dump_byte)

lemma length_dump_line: "length (dump_line bs) = 3 * length bs"
  by (induction bs) (simp_all add: dump_line_def fmt_02X_def)

lemma dump_line_no_break: "CHR 0x0A \<notin> set (dump_line bs)"
proof -
  have "hex_digit n \<noteq> CHR 0x0A" if "n < 16" for n
    using that by (auto simp: hex_digit_def char_of_eq_iff take_bit_eq_mod)
  moreover have "unat b div 16 < 16" for b :: u8 using unat_u8_less [of b] by (simp add: div_less_iff_less_mult)
  ultimately have "CHR 0x0A \<notin> set (fmt_02X b)" for b by (simp add: fmt_02X_def) (metis mod_less_divisor zero_less_numeral)
  then show ?thesis by (auto simp: dump_line_def)
qed

text \<open>From a multiple of sixteen on, the loop writes the line break, the line, and goes on with the next one.\<close>

lemma dump_loop_append: "dump_loop i (xs @ ys) = dump_loop i xs @ dump_loop (i + length xs) ys"
  by (induction xs arbitrary: i) simp_all

lemma dump_loop_line:
  assumes "i mod 16 + length bs \<le> 16" "0 < i mod 16"
  shows "dump_loop i bs = dump_line bs"
  using assms
proof (induction bs arbitrary: i)
  case (Cons b bs)
  have "dump_loop (Suc i) bs = dump_line bs"
  proof (cases "bs = []")
    case False
    with Cons.prems have "Suc i mod 16 = Suc (i mod 16)" by (cases bs) (simp_all add: mod_Suc)
    with Cons.IH [of "Suc i"] Cons.prems show ?thesis by simp
  qed (simp add: dump_line_def)
  with Cons.prems show ?case by (simp add: dump_line_def)
qed (simp add: dump_line_def)

lemma dump_loop_first:
  assumes "length bs \<le> 16" "bs \<noteq> []"
  shows "dump_loop (16 * k) bs = (if k = 0 then [] else newline) @ dump_line bs"
proof (cases bs)
  case (Cons b cs)
  have "Suc (16 * k) mod 16 = 1" by presburger
  with assms(1) dump_loop_line [of "Suc (16 * k)" cs] show ?thesis by (simp add: Cons dump_line_def)
qed (use assms in simp)

lemma dump_loop_lines:
  assumes "bs \<noteq> []"
  shows "dump_loop (16 * k) bs @ newline =
    (if k = 0 then [] else newline) @ concat (map (\<lambda>r. dump_line r @ newline) (dump_rows bs))"
  using assms
proof (induction "length bs" arbitrary: k bs rule: less_induct)
  case less
  show ?case
  proof (cases "length bs \<le> 16")
    case True
    with less.prems have "(length bs + 15) div 16 = 1" by (cases bs) simp_all
    with True have "dump_rows bs = [bs]" by (simp add: dump_rows_def)
    with dump_loop_first [OF True less.prems, of k] show ?thesis by simp
  next
    case False
    let ?n = "(length bs - 16 + 15) div 16"
    have n: "(length bs + 15) div 16 = Suc ?n" "0 < ?n" using False by linarith+
    have "dump_rows bs = take 16 bs # dump_rows (drop 16 bs)"
      using n by (simp add: dump_rows_def max_def map_upt_Suc drop_drop add.commute del: upt_Suc)
    moreover have "dump_loop (16 * k) bs = dump_loop (16 * k) (take 16 bs) @ dump_loop (16 * Suc k) (drop 16 bs)"
      using dump_loop_append [of "16 * k" "take 16 bs" "drop 16 bs"] False by (simp add: algebra_simps)
    moreover have "dump_loop (16 * k) (take 16 bs) = (if k = 0 then [] else newline) @ dump_line (take 16 bs)"
      using less.prems by (intro dump_loop_first) simp_all
    moreover have "dump_loop (16 * Suc k) (drop 16 bs) @ newline =
        newline @ concat (map (\<lambda>r. dump_line r @ newline) (dump_rows (drop 16 bs)))"
      using less.hyps [of "drop 16 bs" "Suc k"] False by simp
    ultimately show ?thesis by simp
  qed
qed

lemma dump_shown: "dump_loop 0 bs @ newline = concat (map (\<lambda>r. dump_line r @ newline) (dump_rows bs))"
  using dump_loop_lines [of bs 0] by (cases "bs = []") (simp_all add: dump_rows_def dump_line_def)

lemma level_bits:
  "(m AND LOG_MASK_ALL) AND LOG_MASK_1 \<noteq> 0 \<longleftrightarrow> bit m 0"
  "(m AND LOG_MASK_ALL) AND LOG_MASK_2 \<noteq> 0 \<longleftrightarrow> bit m 1"
  "(m AND LOG_MASK_ALL) AND LOG_MASK_3 \<noteq> 0 \<longleftrightarrow> bit m 2"
proof -
  have a: "LOG_MASK_ALL AND LOG_MASK_1 = 2 ^ 0" "LOG_MASK_ALL AND LOG_MASK_2 = 2 ^ 1"
    "LOG_MASK_ALL AND LOG_MASK_3 = 2 ^ 2"
    by (simp_all add: LOG_MASK_ALL_def LOG_MASK_1_def LOG_MASK_2_def LOG_MASK_3_def)
  show "(m AND LOG_MASK_ALL) AND LOG_MASK_1 \<noteq> 0 \<longleftrightarrow> bit m 0"
    "(m AND LOG_MASK_ALL) AND LOG_MASK_2 \<noteq> 0 \<longleftrightarrow> bit m 1"
    "(m AND LOG_MASK_ALL) AND LOG_MASK_3 \<noteq> 0 \<longleftrightarrow> bit m 2"
    by (simp_all only: and.assoc a and_exp_eq_0_iff_not_bit not_not)
qed

lemma LOG_MASK_ALL_take: "m AND LOG_MASK_ALL = take_bit 3 m"
  by (simp add: LOG_MASK_ALL_def take_bit_eq_mask mask_eq_exp_minus_1)

section \<open>The claims\<close>

text \<open>
  C40. A dump is made of lines of sixteen bytes. Between the title and the byte count stand lines, each
  ended by a line break and with none in it, of three characters for each byte; read back, the first line gives
  the first sixteen bytes, the second the next sixteen, and so on, and the last one the rest; with no
  bytes there is one empty line. A null pointer is shown as such, without lines or count.
\<close>

theorem dump_shows_bytes:
  "(\<exists>lines. stdout (comm_dump name (Some bs) l) = stdout l @ ''[DUMP] '' @ name @ newline @
       concat (map (\<lambda>ln. ln @ newline) lines) @ '' '' @ fmt_u (length bs) @ '' bytes'' @ newline @ ''[DUMP]'' @ newline @ newline \<and>
     map read_dump lines = map (\<lambda>i. take 16 (drop (16 * i) bs)) [0..<max 1 ((length bs + 15) div 16)] \<and>
     map length lines = map (\<lambda>ln. 3 * length (read_dump ln)) lines \<and> CHR 0x0A \<notin> set (concat lines)) \<and>
   stdout (comm_dump name None l) = stdout l @ ''[DUMP] '' @ name @ newline @ '' NULL'' @ newline @ ''[DUMP]'' @ newline @ newline"
proof -
  let ?lines = "map dump_line (dump_rows bs)"
  have "stdout (comm_dump name (Some bs) l) = stdout l @ ''[DUMP] '' @ name @ newline @ (dump_loop 0 bs @ newline) @
       '' '' @ fmt_u (length bs) @ '' bytes'' @ newline @ ''[DUMP]'' @ newline @ newline"
    by (simp add: comm_dump_def Let_def)
  then have "stdout (comm_dump name (Some bs) l) = stdout l @ ''[DUMP] '' @ name @ newline @
       concat (map (\<lambda>ln. ln @ newline) ?lines) @ '' '' @ fmt_u (length bs) @ '' bytes'' @ newline @ ''[DUMP]'' @ newline @ newline"
    unfolding dump_shown by (simp add: comp_def)
  moreover have "map read_dump ?lines = dump_rows bs" by (simp add: read_dump_line comp_def)
  moreover have "map length ?lines = map (\<lambda>ln. 3 * length (read_dump ln)) ?lines" by (simp add: read_dump_line length_dump_line)
  moreover have "CHR 0x0A \<notin> set (concat ?lines)" by (simp add: dump_line_no_break)
  moreover have "stdout (comm_dump name None l) = stdout l @ ''[DUMP] '' @ name @ newline @ '' NULL'' @ newline @ ''[DUMP]'' @ newline @ newline"
    by (simp add: comm_dump_def Let_def)
  ultimately show ?thesis unfolding dump_rows_def by blast
qed

text \<open>
  After \<open>comm_setLogMask\<close> each of the three information levels prints exactly when its bit
  of the given mask is set (bits above the third never count), and errors and warnings print
  whatever the mask.
\<close>

theorem log_mask_gates_levels:
  "LOG_1 text (comm_setLogMask m l) =
     (if bit m 0 then comm_print ''INFO'' text else id) (comm_setLogMask m l) \<and>
   LOG_2 text (comm_setLogMask m l) =
     (if bit m 1 then comm_print ''INFO'' text else id) (comm_setLogMask m l) \<and>
   LOG_3 text (comm_setLogMask m l) =
     (if bit m 2 then comm_print ''INFO'' text else id) (comm_setLogMask m l) \<and>
   comm_getLogMask (comm_setLogMask m l) = take_bit 3 m \<and>
   stdout (LOG_ERROR text (comm_setLogMask m l)) = stdout (LOG_ERROR text l) \<and>
   stdout (LOG_WARN text (comm_setLogMask m l)) = stdout (LOG_WARN text l)"
  using level_bits [of m]
  by (simp add: LOG_1_def LOG_2_def LOG_3_def LOG_ERROR_def LOG_WARN_def comm_setLogMask_def
      comm_getLogMask_def comm_print_def printf_def Let_def LOG_MASK_ALL_take)

text \<open>
  A log line never exceeds 254 characters, and a text that does not fit loses its line
  break: the next output continues on the same line.
\<close>

theorem log_line_truncated:
  assumes "247 \<le> length text" "CHR 0x0A \<notin> set text"
  shows "\<exists>line. stdout (LOG_ERROR (text @ newline) l) = stdout l @ line \<and> length line = 254 \<and>
    CHR 0x0A \<notin> set line"
  using assms
  by (auto simp: LOG_ERROR_def comm_print_def log_prefix_def IPC_LOG_SIZE_def Let_def dest: in_set_takeD)

theorem log_line_truncated_witness:
  "\<exists>line. stdout (LOG_ERROR (replicate 247 (CHR ''x'') @ newline) log_start) = line \<and> length line = 254 \<and>
    CHR 0x0A \<notin> set line"
  using log_line_truncated [of "replicate 247 (CHR ''x'')" log_start] by (simp add: log_start_def)

end
