(* ===== verification/Posix.thy ===== *)
theory Posix
  imports Prelude
begin

text \<open>
  The C library and kernel calls the code makes, as state transformers on one record.
  The record holds what the code's correctness depends on: open descriptors, heap blocks,
  threads and their cancellation requests, names in the file system, the calls made so
  far (\<open>trace\<close>), undefined behaviour met on the way (\<open>faults\<close>), and the application's own
  memory (\<open>app\<close>), which only its callbacks touch.

  What the kernel answers is not determined by the code. Each call that can fail or that
  returns data takes its answer from \<open>script\<close>, so a statement about every world is a
  statement about every behaviour of the kernel; an empty script answers every call with
  an error. A call on a descriptor that is not open fails with EBADF and takes no answer.
  The kernel never returns a descriptor that is open, \<^verbatim>\<open>malloc\<close> never returns a block
  that is live, and \<^verbatim>\<open>recv\<close> never returns more bytes than it was asked for.
\<close>

section \<open>Addresses, answers and events\<close>

datatype family = AF_UNIX | AF_INET | AF_INET6 | AF_NETLINK | AF_PACKET

datatype socktype = SOCK_STREAM | SOCK_DGRAM | SOCK_RAW

text \<open>Ports and IPv4 addresses are kept in network byte order, as the structures hold them.\<close>

datatype sockaddr =
    Sockaddr_in (sin_port: u16) (sin_addr: u32)
  | Sockaddr_in6 (sin6_port: u16) (sin6_addr: "u8 list")
  | Sockaddr_un (sun_path: string)
  | Sockaddr_nl (nl_pid: u32) (nl_groups: u32)
  | Sockaddr_ll (sll_protocol: u16) (sll_ifindex: int) (sll_addr: "u8 list")

text \<open>The settings of a serial line.\<close>

record termios =
  c_iflag :: u32
  c_oflag :: u32
  c_cflag :: u32
  c_lflag :: u32
  c_vmin :: u8
  c_vtime :: u8
  c_speed :: u32                       \<comment> \<open>the input and the output speed, always set together\<close>

datatype reply =
    Fail int                        \<comment> \<open>error return, with the errno\<close>
  | Done                            \<comment> \<open>success without a value; for a receive, end of file\<close>
  | Val int                         \<comment> \<open>a descriptor, a byte count, or a value read\<close>
  | Conn int sockaddr               \<comment> \<open>accept: new descriptor and peer address\<close>
  | Data "u8 list" sockaddr         \<comment> \<open>receive: bytes and source address\<close>
  | Tty termios                     \<comment> \<open>the settings of a serial line\<close>

text \<open>Calls into the application, with the function pointer and the arguments.\<close>

datatype callback =
    RecvCb fptr addr "u8 list" u16
  | RecvFromCb fptr addr "u8 list" u16 sockaddr
  | RecvPathCb fptr addr "u8 list" u16 string
  | RecvFlagsCb fptr addr "u8 list" u16 u16
  | ExitCb fptr addr int
  | AcptCb fptr addr addr
  | UserExitCb fptr addr addr
  | UserRecvCb fptr addr addr "u8 list" u16

datatype event =
    ESocket family socktype int
  | ESetsockopt int string
  | EBind int sockaddr
  | EListen int int
  | EAccept int int sockaddr
  | EConnect int sockaddr
  | ESend int "u8 list" "sockaddr option"
  | EOpen string string int         \<comment> \<open>name, flags, descriptor\<close>
  | EClose int
  | EUnlink string
  | EMkfifo string
  | EIoctl int string int
  | ETcset int termios
  | EInotify int
  | EWatch int string int           \<comment> \<open>descriptor, name, watch\<close>
  | EUnwatch int int
  | ECreate tid bool
  | ECancel tid
  | EJoin tid
  | ECall callback

datatype ub =
    Bad_Free addr
  | Use_After_Free addr
  | Buffer_Overflow nat nat
  | Null_Deref
  | Out_Of_Bounds nat nat
  | Dead_Stack

record 'a world =
  script :: "reply list"
  fds :: "int set"
  heap :: "addr set"
  brk :: addr
  threads :: "tid set"
  cancels :: "tid set"
  next_tid :: tid
  files :: "string set"
  errno :: int
  trace :: "event list"
  faults :: "ub list"
  app :: 'a

text \<open>An application's callbacks: what each call into the application does to the world.\<close>

type_synonym 'a application = "callback \<Rightarrow> 'a world \<Rightarrow> 'a world"

definition EBADF :: int where "EBADF = 9"
definition EAGAIN :: int where "EAGAIN = 11"
definition EADDRINUSE :: int where "EADDRINUSE = 98"
definition EEXIST :: int where "EEXIST = 17"

section \<open>Bookkeeping\<close>

definition pop :: "'a world \<Rightarrow> reply \<times> 'a world" where
  "pop s = (case script s of [] \<Rightarrow> (Fail EBADF, s) | r # rs \<Rightarrow> (r, s\<lparr>script := rs\<rparr>))"

definition emit :: "event \<Rightarrow> 'a world \<Rightarrow> 'a world" where
  "emit e s = s\<lparr>trace := trace s @ [e]\<rparr>"

definition fault :: "ub \<Rightarrow> 'a world \<Rightarrow> 'a world" where
  "fault u s = s\<lparr>faults := faults s @ [u]\<rparr>"

text \<open>The resources a component owns and must give back.\<close>

definition res :: "'a world \<Rightarrow> int set \<times> addr set \<times> tid set" where
  "res s = (fds s, heap s, threads s)"

text \<open>Allocation counters are ahead of everything that is live.\<close>

definition wf_world :: "'a world \<Rightarrow> bool" where
  "wf_world s \<longleftrightarrow> 0 < brk s \<and> (\<forall>p\<in>heap s. 0 < p \<and> p < brk s) \<and>
     (\<forall>t\<in>threads s. t < next_tid s) \<and> (\<forall>t\<in>cancels s. t < next_tid s) \<and> (\<forall>n\<in>fds s. 0 \<le> n)"

definition calls :: "'a world \<Rightarrow> callback list" where
  "calls s = List.map_filter (\<lambda>e. case e of ECall c \<Rightarrow> Some c | _ \<Rightarrow> None) (trace s)"

text \<open>The messages that were sent on a descriptor.\<close>

definition sends :: "int \<Rightarrow> 'a world \<Rightarrow> u8 list list" where
  "sends n s = List.map_filter (\<lambda>e. case e of ESend k bs a \<Rightarrow> if k = n then Some bs else None | _ \<Rightarrow> None) (trace s)"

section \<open>Memory\<close>

definition c_malloc :: "'a world \<Rightarrow> addr \<times> 'a world" where
  "c_malloc s = (case pop s of
       (Fail e, s) \<Rightarrow> (NULL, s\<lparr>errno := e\<rparr>)
     | (_, s) \<Rightarrow> (brk s, s\<lparr>heap := insert (brk s) (heap s), brk := Suc (brk s)\<rparr>))"

definition c_free :: "addr \<Rightarrow> 'a world \<Rightarrow> 'a world" where
  "c_free p s = (if p = NULL then s
     else if p \<in> heap s then s\<lparr>heap := heap s - {p}\<rparr>
     else fault (Bad_Free p) s)"

text \<open>
  \<^verbatim>\<open>strncpy(dst, src, n)\<close> into a zeroed buffer of more than \<open>n\<close> bytes leaves the first
  \<open>n\<close> characters as the string. \<^verbatim>\<open>strcpy\<close> into a buffer of \<open>cap\<close> bytes needs room for the
  terminating NUL.
\<close>

definition c_strncpy :: "nat \<Rightarrow> string \<Rightarrow> string" where
  "c_strncpy n src = take n src"

definition c_strcpy :: "nat \<Rightarrow> string \<Rightarrow> 'a world \<Rightarrow> string \<times> 'a world" where
  "c_strcpy cap src s =
     (src, if length src < cap then s else fault (Buffer_Overflow cap (length src)) s)"

text \<open>A receive stores its bytes at the start of the buffer.\<close>

definition fill :: "u8 list \<Rightarrow> u8 list \<Rightarrow> u8 list" where
  "fill buf bs = bs @ drop (length bs) buf"

lemma length_fill: "length bs \<le> length buf \<Longrightarrow> length (fill buf bs) = length buf"
  by (simp add: fill_def)

lemma take_fill [simp]: "take (length bs) (fill buf bs) = bs"
  by (simp add: fill_def)

lemma take_fill_min [simp]: "take (min (length bs) n) (fill buf (take n bs)) = take n bs"
  by (cases "length bs \<le> n") (simp_all add: fill_def)

section \<open>Descriptors\<close>

definition new_fd :: "'a world \<Rightarrow> int \<times> 'a world" where
  "new_fd s = (case pop s of
       (Val n, s) \<Rightarrow> if 0 \<le> n \<and> n \<notin> fds s then (n, s\<lparr>fds := insert n (fds s)\<rparr>) else (-1, s)
     | (Fail e, s) \<Rightarrow> (-1, s\<lparr>errno := e\<rparr>)
     | (_, s) \<Rightarrow> (-1, s))"

text \<open>A call that only succeeds (0) or fails (-1).\<close>

definition status :: "int \<Rightarrow> 'a world \<Rightarrow> int \<times> 'a world" where
  "status n s = (if n \<notin> fds s then (-1, s\<lparr>errno := EBADF\<rparr>)
     else (case pop s of
         (Fail e, s) \<Rightarrow> (-1, s\<lparr>errno := e\<rparr>)
       | (_, s) \<Rightarrow> (0, s)))"

definition sys_socket :: "family \<Rightarrow> socktype \<Rightarrow> 'a world \<Rightarrow> int \<times> 'a world" where
  "sys_socket af ty s = (let (n, s) = new_fd s in (n, emit (ESocket af ty n) s))"

text \<open>The code ignores the result of \<^verbatim>\<open>setsockopt\<close>.\<close>

definition sys_setsockopt :: "int \<Rightarrow> string \<Rightarrow> 'a world \<Rightarrow> 'a world" where
  "sys_setsockopt n opt s = emit (ESetsockopt n opt) s"

text \<open>Binding a UNIX domain socket creates its name; an existing name is an error.\<close>

definition sys_bind :: "int \<Rightarrow> sockaddr \<Rightarrow> 'a world \<Rightarrow> int \<times> 'a world" where
  "sys_bind n a s =
     (let (r, s) = status n s in
      if r < 0 then (r, s)
      else (case a of
          Sockaddr_un p \<Rightarrow>
            if p \<in> files s then (-1, s\<lparr>errno := EADDRINUSE\<rparr>)
            else (0, emit (EBind n a) (s\<lparr>files := insert p (files s)\<rparr>))
        | _ \<Rightarrow> (0, emit (EBind n a) s)))"

definition sys_listen :: "int \<Rightarrow> int \<Rightarrow> 'a world \<Rightarrow> int \<times> 'a world" where
  "sys_listen n backlog s =
     (let (r, s) = status n s in (r, if r < 0 then s else emit (EListen n backlog) s))"

definition sys_connect :: "int \<Rightarrow> sockaddr \<Rightarrow> 'a world \<Rightarrow> int \<times> 'a world" where
  "sys_connect n a s =
     (let (r, s) = status n s in (r, if r < 0 then s else emit (EConnect n a) s))"

definition sys_accept :: "int \<Rightarrow> 'a world \<Rightarrow> int \<times> sockaddr option \<times> 'a world" where
  "sys_accept n s = (if n \<notin> fds s then (-1, None, s\<lparr>errno := EBADF\<rparr>)
     else (case pop s of
         (Conn m a, s) \<Rightarrow> if 0 \<le> m \<and> m \<notin> fds s
             then (m, Some a, emit (EAccept n m a) (s\<lparr>fds := insert m (fds s)\<rparr>)) else (-1, None, s)
       | (Fail e, s) \<Rightarrow> (-1, None, s\<lparr>errno := e\<rparr>)
       | (_, s) \<Rightarrow> (-1, None, s)))"

definition sys_close :: "int \<Rightarrow> 'a world \<Rightarrow> 'a world" where
  "sys_close n s = emit (EClose n) (s\<lparr>fds := fds s - {n}\<rparr>)"

definition sys_unlink :: "string \<Rightarrow> 'a world \<Rightarrow> 'a world" where
  "sys_unlink p s = emit (EUnlink p) (s\<lparr>files := files s - {p}\<rparr>)"

text \<open>Sending: the kernel may take a prefix of the data and returns its length.\<close>

definition sys_sendto :: "int \<Rightarrow> u8 list \<Rightarrow> sockaddr option \<Rightarrow> 'a world \<Rightarrow> int \<times> 'a world" where
  "sys_sendto n bs a s = (if n \<notin> fds s then (-1, s\<lparr>errno := EBADF\<rparr>)
     else (case pop s of
         (Fail e, s) \<Rightarrow> (-1, s\<lparr>errno := e\<rparr>)
       | (Val k, s) \<Rightarrow> let m = min (nat k) (length bs) in (int m, emit (ESend n (take m bs) a) s)
       | (_, s) \<Rightarrow> (int (length bs), emit (ESend n bs a) s)))"

definition sys_send :: "int \<Rightarrow> u8 list \<Rightarrow> 'a world \<Rightarrow> int \<times> 'a world" where
  "sys_send n bs s = sys_sendto n bs None s"

text \<open>Receiving at most \<open>len\<close> bytes: the result, the bytes, and the source address if there is one.\<close>

definition sys_recvfrom ::
  "int \<Rightarrow> nat \<Rightarrow> 'a world \<Rightarrow> int \<times> u8 list \<times> sockaddr option \<times> 'a world" where
  "sys_recvfrom n len s = (if n \<notin> fds s then (-1, [], None, s\<lparr>errno := EBADF\<rparr>)
     else (case pop s of
         (Fail e, s) \<Rightarrow> (-1, [], None, s\<lparr>errno := e\<rparr>)
       | (Data bs a, s) \<Rightarrow> (int (length (take len bs)), take len bs, Some a, s)
       | (_, s) \<Rightarrow> (0, [], None, s)))"

definition sys_recv :: "int \<Rightarrow> nat \<Rightarrow> 'a world \<Rightarrow> int \<times> u8 list \<times> 'a world" where
  "sys_recv n len s = (let (r, bs, _, s) = sys_recvfrom n len s in (r, bs, s))"

text \<open>Reading and writing files take the same answers as sockets do.\<close>

definition sys_read :: "int \<Rightarrow> nat \<Rightarrow> 'a world \<Rightarrow> int \<times> u8 list \<times> 'a world" where
  "sys_read = sys_recv"

definition sys_write :: "int \<Rightarrow> u8 list \<Rightarrow> 'a world \<Rightarrow> int \<times> 'a world" where
  "sys_write = sys_send"

definition sys_open :: "string \<Rightarrow> string \<Rightarrow> 'a world \<Rightarrow> int \<times> 'a world" where
  "sys_open p flags s = (let (n, s) = new_fd s in (n, emit (EOpen p flags n) s))"

text \<open>\<^verbatim>\<open>access(p, F_OK)\<close> tells whether the name exists; \<^verbatim>\<open>mkfifo\<close> needs it not to.\<close>

definition sys_access :: "string \<Rightarrow> 'a world \<Rightarrow> int" where
  "sys_access p s = (if p \<in> files s then 0 else -1)"

definition sys_mkfifo :: "string \<Rightarrow> 'a world \<Rightarrow> int \<times> 'a world" where
  "sys_mkfifo p s = (if p \<in> files s then (-1, s\<lparr>errno := EEXIST\<rparr>)
     else (case pop s of
         (Fail e, s) \<Rightarrow> (-1, s\<lparr>errno := e\<rparr>)
       | (_, s) \<Rightarrow> (0, emit (EMkfifo p) (s\<lparr>files := insert p (files s)\<rparr>))))"

text \<open>
  Device requests that read something return the answer, decoded by the caller; those that
  write something record what was written.
\<close>

definition sys_ioctl :: "int \<Rightarrow> 'a world \<Rightarrow> int \<times> reply \<times> 'a world" where
  "sys_ioctl n s = (if n \<notin> fds s then (-1, Done, s\<lparr>errno := EBADF\<rparr>)
     else (case pop s of
         (Fail e, s) \<Rightarrow> (-1, Done, s\<lparr>errno := e\<rparr>)
       | (r, s) \<Rightarrow> (0, r, s)))"

definition sys_ioctl_set :: "int \<Rightarrow> string \<Rightarrow> int \<Rightarrow> 'a world \<Rightarrow> int \<times> 'a world" where
  "sys_ioctl_set n req k s =
     (let (r, s) = status n s in (r, if r < 0 then s else emit (EIoctl n req k) s))"

definition sys_tcsetattr :: "int \<Rightarrow> termios \<Rightarrow> 'a world \<Rightarrow> int \<times> 'a world" where
  "sys_tcsetattr n tty s =
     (let (r, s) = status n s in (r, if r < 0 then s else emit (ETcset n tty) s))"

definition reply_int :: "reply \<Rightarrow> int" where
  "reply_int r = (case r of Val k \<Rightarrow> k | _ \<Rightarrow> 0)"

definition reply_bytes :: "nat \<Rightarrow> reply \<Rightarrow> u8 list" where
  "reply_bytes n r = (case r of Data bs a \<Rightarrow> take n (bs @ replicate n 0) | _ \<Rightarrow> replicate n 0)"

text \<open>Watching directories; the code ignores the result of \<^verbatim>\<open>inotify_rm_watch\<close>.\<close>

definition sys_inotify_init :: "'a world \<Rightarrow> int \<times> 'a world" where
  "sys_inotify_init s = (let (n, s) = new_fd s in (n, emit (EInotify n) s))"

definition sys_inotify_add_watch :: "int \<Rightarrow> string \<Rightarrow> 'a world \<Rightarrow> int \<times> 'a world" where
  "sys_inotify_add_watch n p s = (if n \<notin> fds s then (-1, s\<lparr>errno := EBADF\<rparr>)
     else (case pop s of
         (Fail e, s) \<Rightarrow> (-1, s\<lparr>errno := e\<rparr>)
       | (Val k, s) \<Rightarrow> if 0 \<le> k then (k, emit (EWatch n p k) s) else (-1, s)
       | (_, s) \<Rightarrow> (-1, s)))"

definition sys_inotify_rm_watch :: "int \<Rightarrow> int \<Rightarrow> 'a world \<Rightarrow> 'a world" where
  "sys_inotify_rm_watch n k s = emit (EUnwatch n k) s"

text \<open>\<^verbatim>\<open>fork\<close>: the process number in the parent, 0 in the child, -1 on an error.\<close>

definition sys_fork :: "'a world \<Rightarrow> int \<times> 'a world" where
  "sys_fork s = (case pop s of (Val k, s) \<Rightarrow> (max k 0, s) | (Fail e, s) \<Rightarrow> (-1, s\<lparr>errno := e\<rparr>) | (_, s) \<Rightarrow> (0, s))"

section \<open>Threads\<close>

definition pthread_create :: "bool \<Rightarrow> 'a world \<Rightarrow> int \<times> tid \<times> 'a world" where
  "pthread_create detached s = (case pop s of
       (Fail e, s) \<Rightarrow> (if e = 0 then EAGAIN else e, 0, s)
     | (_, s) \<Rightarrow> (0, next_tid s, emit (ECreate (next_tid s) detached)
           (s\<lparr>threads := insert (next_tid s) (threads s), next_tid := Suc (next_tid s)\<rparr>)))"

definition pthread_cancel :: "tid \<Rightarrow> 'a world \<Rightarrow> 'a world" where
  "pthread_cancel t s = emit (ECancel t)
     (if t \<in> threads s then s\<lparr>cancels := insert t (cancels s)\<rparr> else s)"

text \<open>Joining waits for the thread's end; an ended thread has no pending request any more.\<close>

definition pthread_join :: "tid \<Rightarrow> 'a world \<Rightarrow> 'a world" where
  "pthread_join t s = emit (EJoin t) (s\<lparr>threads := threads s - {t}, cancels := cancels s - {t}\<rparr>)"

definition pthread_testcancel :: "tid \<Rightarrow> 'a world \<Rightarrow> bool" where
  "pthread_testcancel t s \<longleftrightarrow> t \<in> cancels s"

definition pthread_exit :: "tid \<Rightarrow> 'a world \<Rightarrow> 'a world" where
  "pthread_exit t s = s\<lparr>threads := threads s - {t}, cancels := cancels s - {t}\<rparr>"

section \<open>Calling the application\<close>

text \<open>A call is recorded, then the application's function runs.\<close>

definition invoke :: "'a application \<Rightarrow> callback \<Rightarrow> 'a world \<Rightarrow> 'a world" where
  "invoke cb c s = cb c (emit (ECall c) s)"

section \<open>What the calls do and do not touch\<close>

lemma calls_emit: "calls (emit e s) = calls s @ (case e of ECall c \<Rightarrow> [c] | _ \<Rightarrow> [])"
  by (simp add: calls_def emit_def List.map_filter_def split: event.split)

lemma calls_update [simp]:
  "calls (s\<lparr>script := a\<rparr>) = calls s" "calls (s\<lparr>fds := b\<rparr>) = calls s"
  "calls (s\<lparr>heap := c\<rparr>) = calls s" "calls (s\<lparr>brk := d\<rparr>) = calls s"
  "calls (s\<lparr>threads := f\<rparr>) = calls s" "calls (s\<lparr>cancels := g\<rparr>) = calls s"
  "calls (s\<lparr>next_tid := h\<rparr>) = calls s" "calls (s\<lparr>files := i\<rparr>) = calls s"
  "calls (s\<lparr>errno := j\<rparr>) = calls s" "calls (s\<lparr>faults := k\<rparr>) = calls s"
  "calls (s\<lparr>app := l\<rparr>) = calls s"
  by (simp_all add: calls_def)

lemma sends_emit: "sends n (emit e s) = sends n s @ (case e of ESend k bs a \<Rightarrow> if k = n then [bs] else [] | _ \<Rightarrow> [])"
  by (simp add: sends_def emit_def List.map_filter_def split: event.split)

lemma sends_world [simp]:
  "sends n (s\<lparr>script := x\<rparr>) = sends n s" "sends n (s\<lparr>errno := y\<rparr>) = sends n s"
  by (simp_all add: sends_def)

lemma emit_sel [simp]:
  "script (emit e s) = script s" "fds (emit e s) = fds s" "heap (emit e s) = heap s"
  "brk (emit e s) = brk s" "threads (emit e s) = threads s" "cancels (emit e s) = cancels s"
  "next_tid (emit e s) = next_tid s" "files (emit e s) = files s" "errno (emit e s) = errno s"
  "faults (emit e s) = faults s" "app (emit e s) = app s" "trace (emit e s) = trace s @ [e]"
  by (simp_all add: emit_def)

lemma fault_sel [simp]:
  "script (fault u s) = script s" "fds (fault u s) = fds s" "heap (fault u s) = heap s"
  "brk (fault u s) = brk s" "threads (fault u s) = threads s" "cancels (fault u s) = cancels s"
  "next_tid (fault u s) = next_tid s" "files (fault u s) = files s" "errno (fault u s) = errno s"
  "faults (fault u s) = faults s @ [u]" "app (fault u s) = app s" "trace (fault u s) = trace s"
  "calls (fault u s) = calls s"
  by (simp_all add: fault_def)

text \<open>
  \<open>quiet s s'\<close>: between \<open>s\<close> and \<open>s'\<close> no call into the application, no undefined
  behaviour, no change of the application's memory or of pending cancellations, and the
  script was at most consumed.
\<close>

definition quiet :: "'a world \<Rightarrow> 'a world \<Rightarrow> bool" where
  "quiet s s' \<longleftrightarrow> calls s' = calls s \<and> faults s' = faults s \<and> app s' = app s \<and>
     cancels s' = cancels s \<and> length (script s') \<le> length (script s)"

lemma quiet_refl [simp, intro]: "quiet s s"
  by (simp add: quiet_def)

lemma quiet_trans [trans]: "quiet s t \<Longrightarrow> quiet t u \<Longrightarrow> quiet s u"
  by (simp add: quiet_def)

lemma wf_world_emit [simp]: "wf_world (emit e s) = wf_world s"
  by (simp add: wf_world_def)

lemma wf_fault [simp]: "wf_world (fault u s) = wf_world s"
  by (simp add: wf_world_def)

lemma res_emit [simp]: "res (emit e s) = res s"
  by (simp add: res_def)

fun is_call :: "event \<Rightarrow> bool" where
  "is_call (ECall c) = True"
| "is_call _ = False"

lemma quiet_emit [simp]: "\<not> is_call e \<Longrightarrow> quiet s (emit e t) = quiet s t"
  by (cases e) (simp_all add: quiet_def calls_emit)

lemma quiet_update [simp]:
  "quiet s (t\<lparr>fds := b\<rparr>) = quiet s t" "quiet s (t\<lparr>heap := c\<rparr>) = quiet s t"
  "quiet s (t\<lparr>brk := d\<rparr>) = quiet s t" "quiet s (t\<lparr>threads := f\<rparr>) = quiet s t"
  "quiet s (t\<lparr>next_tid := h\<rparr>) = quiet s t" "quiet s (t\<lparr>files := i\<rparr>) = quiet s t"
  "quiet s (t\<lparr>errno := j\<rparr>) = quiet s t"
  by (simp_all add: quiet_def)

lemma wf_update [simp]:
  "wf_world (t\<lparr>script := b\<rparr>) = wf_world t" "wf_world (t\<lparr>files := i\<rparr>) = wf_world t" "wf_world (t\<lparr>errno := j\<rparr>) = wf_world t"
  by (simp_all add: wf_world_def)

lemma res_update [simp]:
  "res (t\<lparr>script := b\<rparr>) = res t" "res (t\<lparr>files := i\<rparr>) = res t" "res (t\<lparr>errno := j\<rparr>) = res t"
  by (simp_all add: res_def)

lemma pop_rule:
  "pop s = (r, t) \<Longrightarrow> t = s\<lparr>script := script t\<rparr> \<and> length (script t) \<le> length (script s)"
  by (auto simp: pop_def split: list.splits)

text \<open>
  One rule per call, in the form a split on its result leaves behind: what is quiet, that the
  world stays well formed, and the change to the resources.
\<close>

lemma c_malloc_rule:
  assumes "c_malloc s = (p, s')" "wf_world s"
  shows "quiet s s' \<and> wf_world s' \<and> files s' = files s \<and>
    fds s' = fds s \<and> threads s' = threads s \<and>
    (p = NULL \<and> heap s' = heap s \<or> p \<noteq> NULL \<and> p \<notin> heap s \<and> heap s' = insert p (heap s))"
  using assms
  by (auto simp: c_malloc_def pop_def quiet_def wf_world_def less_Suc_eq
      split: list.splits reply.splits if_splits)

lemma c_free_rule:
  assumes "wf_world s" "p \<in> heap s"
  shows "quiet s (c_free p s) \<and> wf_world (c_free p s) \<and> files (c_free p s) = files s \<and>
    fds (c_free p s) = fds s \<and>
    threads (c_free p s) = threads s \<and> heap (c_free p s) = heap s - {p}"
  using assms by (auto simp: c_free_def wf_world_def)

lemma new_fd_rule:
  assumes "new_fd s = (n, s')" "wf_world s"
  shows "quiet s s' \<and> wf_world s' \<and> files s' = files s \<and>
    heap s' = heap s \<and> threads s' = threads s \<and>
    (n < 0 \<and> fds s' = fds s \<or> 0 \<le> n \<and> n \<notin> fds s \<and> fds s' = insert n (fds s))"
  using assms
  by (clarsimp simp: new_fd_def pop_def split: list.splits reply.splits if_splits)
    (auto simp: quiet_def wf_world_def)

lemma status_rule:
  assumes "status n s = (r, s')" "wf_world s"
  shows "quiet s s' \<and> wf_world s' \<and> files s' = files s \<and> res s' = res s \<and>
    (r = 0 \<and> n \<in> fds s \<or> r = -1)"
  using assms
  by (clarsimp simp: status_def pop_def split: list.splits reply.splits if_splits)
    (auto simp: quiet_def)

lemma sys_socket_rule:
  assumes "sys_socket af ty s = (n, s')" "wf_world s"
  shows "quiet s s' \<and> wf_world s' \<and> files s' = files s \<and> heap s' = heap s \<and> threads s' = threads s \<and>
    (n < 0 \<and> fds s' = fds s \<or> 0 \<le> n \<and> n \<notin> fds s \<and> fds s' = insert n (fds s))"
  using assms
  by (auto simp: sys_socket_def Let_def dest!: new_fd_rule split: prod.splits)

lemma sys_setsockopt_rule:
  "quiet s (sys_setsockopt n opt s) \<and> wf_world (sys_setsockopt n opt s) = wf_world s \<and>
   files (sys_setsockopt n opt s) = files s \<and> fds (sys_setsockopt n opt s) = fds s \<and>
   heap (sys_setsockopt n opt s) = heap s \<and> threads (sys_setsockopt n opt s) = threads s"
  by (simp add: sys_setsockopt_def)

text \<open>Binding: the name of a UNIX domain socket is the only thing it adds.\<close>

definition socket_names :: "sockaddr \<Rightarrow> string set" where
  "socket_names a = (case a of Sockaddr_un p \<Rightarrow> {p} | _ \<Rightarrow> {})"

lemma sys_bind_rule:
  assumes "sys_bind n a s = (r, s')" "wf_world s"
  shows "quiet s s' \<and> wf_world s' \<and> res s' = res s \<and>
    (r = 0 \<and> files s' = socket_names a \<union> files s \<and> socket_names a \<inter> files s = {}
      \<or> r < 0 \<and> files s' = files s)"
proof -
  obtain q u where st: "status n s = (q, u)" by fastforce
  note u = status_rule [OF st assms(2)]
  show ?thesis
  proof (cases a)
    case (Sockaddr_un p)
    with assms(1) st u show ?thesis
      by (cases "p \<in> files s"; clarsimp simp: sys_bind_def socket_names_def split: if_splits)
  qed (use assms(1) st u in \<open>clarsimp simp: sys_bind_def socket_names_def split: if_splits\<close>)+
qed

lemma sys_listen_rule:
  assumes "sys_listen n b s = (r, s')" "wf_world s"
  shows "quiet s s' \<and> wf_world s' \<and> files s' = files s \<and> res s' = res s \<and> (r = 0 \<or> r < 0)"
  using assms
  by (auto simp: sys_listen_def Let_def res_def dest!: status_rule split: prod.splits if_splits)

lemma sys_connect_rule:
  assumes "sys_connect n a s = (r, s')" "wf_world s"
  shows "quiet s s' \<and> wf_world s' \<and> files s' = files s \<and> res s' = res s \<and> (r = 0 \<or> r < 0)"
  using assms
  by (auto simp: sys_connect_def Let_def res_def dest!: status_rule split: prod.splits if_splits)

lemma sys_accept_rule:
  assumes "sys_accept n s = (m, a, s')" "wf_world s"
  shows "quiet s s' \<and> wf_world s' \<and> files s' = files s \<and> heap s' = heap s \<and> threads s' = threads s \<and>
    (m < 0 \<and> fds s' = fds s \<or>
     0 \<le> m \<and> m \<notin> fds s \<and> a \<noteq> None \<and> n \<in> fds s \<and> fds s' = insert m (fds s) \<and>
       length (script s') < length (script s))"
  using assms
  by (clarsimp simp: sys_accept_def pop_def split: list.splits reply.splits if_splits)
    (auto simp: quiet_def wf_world_def calls_emit)

lemma sys_close_rule:
  "quiet s (sys_close n s) \<and> (wf_world s \<longrightarrow> wf_world (sys_close n s)) \<and> files (sys_close n s) = files s \<and>
   fds (sys_close n s) = fds s - {n} \<and> heap (sys_close n s) = heap s \<and>
   threads (sys_close n s) = threads s"
  by (auto simp: sys_close_def wf_world_def)

lemma sys_unlink_rule:
  "quiet s (sys_unlink p s) \<and> wf_world (sys_unlink p s) = wf_world s \<and>
   files (sys_unlink p s) = files s - {p} \<and> res (sys_unlink p s) = res s"
  by (simp add: sys_unlink_def wf_world_def res_def)

lemma sys_sendto_rule:
  assumes "sys_sendto n bs a s = (r, s')" "wf_world s"
  shows "quiet s s' \<and> wf_world s' \<and> files s' = files s \<and> res s' = res s \<and> r \<le> int (length bs) \<and> -1 \<le> r"
  using assms
  by (auto simp: sys_sendto_def pop_def quiet_def Let_def res_def calls_emit
      split: list.splits reply.splits if_splits)

lemma sys_recvfrom_rule:
  assumes "sys_recvfrom n len s = (r, bs, a, s')" "wf_world s"
  shows "quiet s s' \<and> wf_world s' \<and> files s' = files s \<and> res s' = res s \<and> trace s' = trace s \<and>
    length bs \<le> len \<and> (r = int (length bs) \<and> n \<in> fds s \<or> r = -1 \<and> bs = []) \<and>
    (0 \<le> r \<longrightarrow> length (script s') < length (script s)) \<and> (bs \<noteq> [] \<longrightarrow> a \<noteq> None)"
  using assms
  by (auto simp: sys_recvfrom_def pop_def quiet_def res_def
      split: list.splits reply.splits if_splits)

lemma sys_recv_rule:
  assumes "sys_recv n len s = (r, bs, s')" "wf_world s"
  shows "quiet s s' \<and> wf_world s' \<and> files s' = files s \<and> res s' = res s \<and> trace s' = trace s \<and>
    length bs \<le> len \<and> (r = int (length bs) \<and> n \<in> fds s \<or> r = -1 \<and> bs = []) \<and>
    (0 \<le> r \<longrightarrow> length (script s') < length (script s))"
  using assms
  by (auto simp: sys_recv_def Let_def dest!: sys_recvfrom_rule split: prod.splits)

lemma sys_open_rule:
  assumes "sys_open p m s = (n, s')" "wf_world s"
  shows "quiet s s' \<and> wf_world s' \<and> files s' = files s \<and> heap s' = heap s \<and> threads s' = threads s \<and>
    (n < 0 \<and> fds s' = fds s \<or> 0 \<le> n \<and> n \<notin> fds s \<and> fds s' = insert n (fds s))"
  using assms
  by (auto simp: sys_open_def Let_def dest!: new_fd_rule split: prod.splits)

lemma sys_mkfifo_rule:
  assumes "sys_mkfifo p s = (r, s')" "wf_world s"
  shows "quiet s s' \<and> wf_world s' \<and> res s' = res s \<and>
    (r = 0 \<and> p \<notin> files s \<and> files s' = insert p (files s) \<or> r < 0 \<and> files s' = files s)"
  using assms
  by (auto simp: sys_mkfifo_def pop_def quiet_def calls_emit split: list.splits reply.splits if_splits)

lemma sys_ioctl_rule:
  assumes "sys_ioctl n s = (r, v, s')" "wf_world s"
  shows "quiet s s' \<and> wf_world s' \<and> files s' = files s \<and> res s' = res s \<and> trace s' = trace s \<and>
    (r = 0 \<or> r = -1)"
  using assms
  by (auto simp: sys_ioctl_def pop_def quiet_def split: list.splits reply.splits if_splits)

lemma sys_ioctl_set_rule:
  assumes "sys_ioctl_set n req k s = (r, s')" "wf_world s"
  shows "quiet s s' \<and> wf_world s' \<and> files s' = files s \<and> res s' = res s \<and> (r = 0 \<or> r = -1)"
  using assms
  by (auto simp: sys_ioctl_set_def Let_def res_def dest!: status_rule split: prod.splits if_splits)

lemma sys_tcsetattr_rule:
  assumes "sys_tcsetattr n tty s = (r, s')" "wf_world s"
  shows "quiet s s' \<and> wf_world s' \<and> files s' = files s \<and> res s' = res s \<and> (r = 0 \<or> r = -1)"
  using assms
  by (auto simp: sys_tcsetattr_def Let_def res_def dest!: status_rule split: prod.splits if_splits)

lemma sys_inotify_init_rule:
  assumes "sys_inotify_init s = (n, s')" "wf_world s"
  shows "quiet s s' \<and> wf_world s' \<and> files s' = files s \<and> heap s' = heap s \<and> threads s' = threads s \<and>
    (n < 0 \<and> fds s' = fds s \<or> 0 \<le> n \<and> n \<notin> fds s \<and> fds s' = insert n (fds s))"
  using assms
  by (auto simp: sys_inotify_init_def Let_def dest!: new_fd_rule split: prod.splits)

lemma sys_inotify_add_watch_rule:
  assumes "sys_inotify_add_watch n p s = (k, s')" "wf_world s"
  shows "quiet s s' \<and> wf_world s' \<and> files s' = files s \<and> res s' = res s \<and> -1 \<le> k"
  using assms
  by (auto simp: sys_inotify_add_watch_def pop_def quiet_def res_def calls_emit
      split: list.splits reply.splits if_splits)

lemma sys_inotify_rm_watch_rule:
  "quiet s (sys_inotify_rm_watch n k s) \<and> wf_world (sys_inotify_rm_watch n k s) = wf_world s \<and>
   files (sys_inotify_rm_watch n k s) = files s \<and> res (sys_inotify_rm_watch n k s) = res s"
  by (simp add: sys_inotify_rm_watch_def)

lemma pthread_create_rule:
  assumes "pthread_create d s = (e, t, s')" "wf_world s"
  shows "quiet s s' \<and> wf_world s' \<and> files s' = files s \<and> fds s' = fds s \<and> heap s' = heap s \<and>
    (e \<noteq> 0 \<and> threads s' = threads s \<or>
     e = 0 \<and> t \<notin> threads s \<and> t \<notin> cancels s \<and> threads s' = insert t (threads s))"
  using assms
  by (clarsimp simp: pthread_create_def pop_def split: list.splits reply.splits if_splits)
    (auto simp: quiet_def wf_world_def calls_emit EAGAIN_def less_Suc_eq)

lemma pthread_cancel_rule:
  "calls (pthread_cancel t s) = calls s \<and> faults (pthread_cancel t s) = faults s \<and>
   app (pthread_cancel t s) = app s \<and> script (pthread_cancel t s) = script s \<and>
   (wf_world s \<longrightarrow> wf_world (pthread_cancel t s)) \<and> files (pthread_cancel t s) = files s \<and>
   res (pthread_cancel t s) = res s \<and>
   cancels (pthread_cancel t s) = cancels s \<union> ({t} \<inter> threads s)"
  by (auto simp: pthread_cancel_def res_def wf_world_def calls_emit)

lemma wf_exit: "wf_world s \<Longrightarrow> wf_world (pthread_exit t s)"
  by (simp add: pthread_exit_def wf_world_def)

lemma pthread_join_rule:
  "calls (pthread_join t s) = calls s \<and> faults (pthread_join t s) = faults s \<and>
   app (pthread_join t s) = app s \<and> script (pthread_join t s) = script s \<and>
   (wf_world s \<longrightarrow> wf_world (pthread_join t s)) \<and> files (pthread_join t s) = files s \<and>
   fds (pthread_join t s) = fds s \<and> heap (pthread_join t s) = heap s \<and>
   threads (pthread_join t s) = threads s - {t} \<and> cancels (pthread_join t s) = cancels s - {t}"
  by (auto simp: pthread_join_def wf_world_def calls_emit)

text \<open>Cancelling and joining the thread there may be.\<close>

lemma cancel_if_rule:
  assumes "s' = (if b then pthread_cancel t s else s)" "wf_world s"
  shows "wf_world s' \<and> faults s' = faults s \<and> calls s' = calls s \<and> app s' = app s \<and>
    fds s' = fds s \<and> heap s' = heap s \<and> threads s' = threads s"
  using assms pthread_cancel_rule [of t s] by (cases b) (simp_all add: res_def)

lemma join_if_rule:
  assumes "s' = (if b then pthread_join t s else s)" "wf_world s"
  shows "wf_world s' \<and> faults s' = faults s \<and> calls s' = calls s \<and> app s' = app s \<and>
    fds s' = fds s \<and> heap s' = heap s \<and> threads s' = threads s - (if b then {t} else {})"
  using assms pthread_join_rule [of t s] by (cases b) simp_all

lemma sys_sendto_frame:
  assumes "sys_sendto n bs a s = (r, s')"
  shows "quiet s s' \<and> res s' = res s"
  using assms
  by (auto simp: sys_sendto_def pop_def quiet_def Let_def res_def calls_emit
      split: list.splits reply.splits if_splits)

section \<open>A process that has just started\<close>

text \<open>Standard streams open, one thread, nothing allocated; \<open>rs\<close> is what the kernel will answer.\<close>

definition boot :: "'a \<Rightarrow> reply list \<Rightarrow> 'a world" where
  "boot a rs = \<lparr>script = rs, fds = {0, 1, 2}, heap = {}, brk = 1, threads = {0}, cancels = {},
     next_tid = 1, files = {}, errno = 0, trace = [], faults = [], app = a\<rparr>"

lemma wf_boot [simp]: "wf_world (boot a rs)"
  by (simp add: boot_def wf_world_def)

lemma boot_sel [simp]:
  "script (boot a rs) = rs" "fds (boot a rs) = {0, 1, 2}" "heap (boot a rs) = {}"
  "brk (boot a rs) = 1" "threads (boot a rs) = {0}" "cancels (boot a rs) = {}"
  "next_tid (boot a rs) = 1" "files (boot a rs) = {}" "trace (boot a rs) = []"
  "faults (boot a rs) = []" "app (boot a rs) = a" "calls (boot a rs) = []"
  by (simp_all add: boot_def calls_def)

section \<open>Traces of single calls\<close>

text \<open>A send writes at most one message, a prefix of what it was given.\<close>

lemma sys_sendto_trace:
  assumes "sys_sendto n bs a s = (r, s')"
  shows "r = -1 \<and> trace s' = trace s \<or>
    0 \<le> r \<and> r \<le> int (length bs) \<and> trace s' = trace s @ [ESend n (take (nat r) bs) a]"
  using assms
  by (auto simp: sys_sendto_def pop_def Let_def min_def split: list.splits reply.splits if_splits)

lemma sys_sendto_prefix:
  assumes "sys_sendto n (take k bs) a s = (r, s')"
  shows "quiet s s' \<and> res s' = res s \<and>
    (r = -1 \<and> trace s' = trace s \<or>
     0 \<le> r \<and> nat r \<le> k \<and> nat r \<le> length bs \<and> trace s' = trace s @ [ESend n (take (nat r) bs) a])"
proof -
  have "take (nat r) (take k bs) = take (nat r) bs \<and> nat r \<le> k \<and> nat r \<le> length bs"
    if "r \<le> int (length (take k bs))"
  proof -
    from that have "nat r \<le> length (take k bs)" by (simp only: nat_le_iff)
    then show ?thesis by simp
  qed
  with sys_sendto_trace [OF assms] sys_sendto_frame [OF assms] show ?thesis by auto
qed

text \<open>For evaluating the calls on concrete worlds.\<close>

lemmas posix_eval = boot_def pop_def emit_def fault_def c_malloc_def c_free_def new_fd_def status_def
  sys_socket_def sys_setsockopt_def sys_bind_def sys_listen_def sys_connect_def sys_accept_def
  sys_close_def sys_unlink_def sys_sendto_def sys_send_def sys_recvfrom_def sys_recv_def
  pthread_create_def pthread_cancel_def pthread_join_def pthread_testcancel_def pthread_exit_def
  invoke_def sys_open_def sys_read_def sys_write_def sys_access_def sys_mkfifo_def sys_ioctl_def
  sys_ioctl_set_def sys_tcsetattr_def sys_inotify_init_def sys_inotify_add_watch_def sys_inotify_rm_watch_def
  sys_fork_def reply_int_def reply_bytes_def

section \<open>Acquiring resources\<close>

text \<open>
  \<open>adds s s' F P T\<close>: since \<open>s\<close> exactly the descriptors \<open>F\<close>, the blocks \<open>P\<close> and the threads \<open>T\<close>
  were acquired and are still held in \<open>s'\<close>, and nothing else happened. Each rule carries the
  relation over one call.
\<close>

definition adds :: "'a world \<Rightarrow> 'a world \<Rightarrow> int set \<Rightarrow> addr set \<Rightarrow> tid set \<Rightarrow> bool" where
  "adds s s' F P T \<longleftrightarrow> quiet s s' \<and> wf_world s' \<and>
     fds s' = F \<union> fds s \<and> F \<inter> fds s = {} \<and> heap s' = P \<union> heap s \<and> P \<inter> heap s = {} \<and>
     threads s' = T \<union> threads s \<and> T \<inter> threads s = {}"

lemma adds_refl: "wf_world s \<Longrightarrow> adds s s {} {} {}"
  by (simp add: adds_def)

lemma adds_none: "adds s s' {} {} {} \<Longrightarrow> quiet s s' \<and> wf_world s' \<and> res s' = res s"
  by (simp add: adds_def res_def)

lemma adds_same:
  assumes "adds s t F P T" "quiet t u" "wf_world u" "res u = res t"
  shows "adds s u F P T"
  using assms quiet_trans [of s t u] by (simp add: adds_def res_def)

lemma adds_malloc:
  assumes "adds s t F P T" "c_malloc t = (p, u)"
  shows "p = NULL \<and> adds s u F P T \<or> p \<noteq> NULL \<and> p \<notin> P \<and> p \<notin> heap s \<and> adds s u F (insert p P) T"
proof -
  have w: "wf_world t" and q: "quiet t u \<Longrightarrow> quiet s u"
    using assms(1) quiet_trans [of s t u] by (simp_all add: adds_def)
  from c_malloc_rule [OF assms(2) w] assms(1) q show ?thesis by (auto simp: adds_def)
qed

lemma adds_free:
  assumes "adds s t F P T" "p \<in> P"
  shows "adds s (c_free p t) F (P - {p}) T"
proof -
  have "wf_world t" "p \<in> heap t" "p \<notin> heap s" "(P - {p}) \<inter> heap s = {}"
    using assms by (auto simp: adds_def disjoint_iff)
  then show ?thesis
    using c_free_rule [of t p] assms(1) quiet_trans [of s t "c_free p t"]
    by (auto simp: adds_def Un_Diff)
qed

lemma adds_socket:
  assumes "adds s t F P T" "sys_socket af ty t = (n, u)"
  shows "n < 0 \<and> adds s u F P T \<or> 0 \<le> n \<and> n \<notin> F \<and> n \<notin> fds s \<and> adds s u (insert n F) P T"
proof -
  have w: "wf_world t" and q: "quiet t u \<Longrightarrow> quiet s u"
    using assms(1) quiet_trans [of s t u] by (simp_all add: adds_def)
  from sys_socket_rule [OF assms(2) w] assms(1) q show ?thesis by (auto simp: adds_def)
qed

lemma adds_setsockopt: "adds s t F P T \<Longrightarrow> adds s (sys_setsockopt n opt t) F P T"
  by (simp add: adds_def sys_setsockopt_def)

lemma adds_bind: "adds s t F P T \<Longrightarrow> sys_bind n a t = (r, u) \<Longrightarrow> adds s u F P T"
  using sys_bind_rule [of n a t r u] adds_same [of s t F P T u] by (simp add: adds_def)

lemma adds_listen: "adds s t F P T \<Longrightarrow> sys_listen n b t = (r, u) \<Longrightarrow> adds s u F P T"
  using sys_listen_rule [of n b t r u] adds_same [of s t F P T u] by (simp add: adds_def)

lemma adds_connect: "adds s t F P T \<Longrightarrow> sys_connect n a t = (r, u) \<Longrightarrow> adds s u F P T"
  using sys_connect_rule [of n a t r u] adds_same [of s t F P T u] by (simp add: adds_def)

lemma adds_close:
  assumes "adds s t F P T" "n \<in> F"
  shows "adds s (sys_close n t) (F - {n}) P T"
proof -
  have "n \<notin> fds s" "(F - {n}) \<inter> fds s = {}" using assms by (auto simp: adds_def disjoint_iff)
  then show ?thesis
    using sys_close_rule [of t n] assms(1) quiet_trans [of s t "sys_close n t"]
    by (auto simp: adds_def Un_Diff)
qed

lemma adds_create:
  assumes "adds s t F P T" "pthread_create d t = (e, i, u)"
  shows "e \<noteq> 0 \<and> adds s u F P T \<or> e = 0 \<and> i \<notin> T \<and> i \<notin> cancels t \<and> i \<notin> threads s \<and> adds s u F P (insert i T)"
proof -
  have w: "wf_world t" and q: "quiet t u \<Longrightarrow> quiet s u"
    using assms(1) quiet_trans [of s t u] by (simp_all add: adds_def)
  from pthread_create_rule [OF assms(2) w] assms(1) q show ?thesis by (auto simp: adds_def)
qed

lemma adds_unlink: "adds s t F P T \<Longrightarrow> adds s (sys_unlink p t) F P T"
  using sys_unlink_rule [of t p] adds_same [of s t F P T "sys_unlink p t"] by (simp add: adds_def)

lemma adds_open:
  assumes "adds s t F P T" "sys_open p m t = (n, u)"
  shows "n < 0 \<and> adds s u F P T \<or> 0 \<le> n \<and> n \<notin> F \<and> n \<notin> fds s \<and> adds s u (insert n F) P T"
proof -
  have w: "wf_world t" and q: "quiet t u \<Longrightarrow> quiet s u"
    using assms(1) quiet_trans [of s t u] by (simp_all add: adds_def)
  from sys_open_rule [OF assms(2) w] assms(1) q show ?thesis by (auto simp: adds_def)
qed

lemma adds_mkfifo: "adds s t F P T \<Longrightarrow> sys_mkfifo p t = (r, u) \<Longrightarrow> adds s u F P T"
  using sys_mkfifo_rule [of p t r u] adds_same [of s t F P T u] by (simp add: adds_def)

lemma adds_ioctl: "adds s t F P T \<Longrightarrow> sys_ioctl n t = (r, v, u) \<Longrightarrow> adds s u F P T"
  using sys_ioctl_rule [of n t r v u] adds_same [of s t F P T u] by (simp add: adds_def)

lemma adds_ioctl_set: "adds s t F P T \<Longrightarrow> sys_ioctl_set n req k t = (r, u) \<Longrightarrow> adds s u F P T"
  using sys_ioctl_set_rule [of n req k t r u] adds_same [of s t F P T u] by (simp add: adds_def)

lemma adds_disjoint:
  "adds s t F P T \<Longrightarrow> F \<subseteq> fds t \<and> P \<subseteq> heap t \<and> T \<subseteq> threads t \<and> wf_world t \<and> faults t = faults s"
  by (auto simp: adds_def quiet_def)

end
