(* ===== verification/Comm_If.thy ===== *)
theory Comm_If
  imports Posix
begin

text \<open>
  What \<^verbatim>\<open>include/comm_if.h\<close> shares between the transports: the receive buffer size, handles,
  the two IP versions, and the contract every transport's initialisation and
  un-initialisation keep (locale \<open>endpoint\<close>).
\<close>

definition COMM_BUF_SIZE :: nat where
  "COMM_BUF_SIZE = 8191"

text \<open>
  A handle is the address of a context cast to \<^verbatim>\<open>unsigned long\<close>; 0 is no handle. The model
  pairs the address with the context it points to.
\<close>

type_synonym 'c handle = "(addr \<times> 'c) option"

text \<open>A zeroed receive buffer, as \<^verbatim>\<open>memset\<close> leaves it.\<close>

definition recv_buffer :: "u8 list" where
  "recv_buffer = replicate (COMM_BUF_SIZE + 1) 0"

section \<open>The two IP versions\<close>

text \<open>
  The IPv4 and the IPv6 half of \<^verbatim>\<open>comm_udp.c\<close>, \<^verbatim>\<open>comm_tcp_client.c\<close> and \<^verbatim>\<open>comm_tcp_server.c\<close>
  are the same code over the two address structures. The model writes such code once, over
  \<open>ipv\<close>, with the address handling of each half below. The text-to-address functions of the C
  library are parameters (\<open>netlib\<close>).
\<close>

datatype ipv = IPv4 | IPv6

record netlib =
  inet_addr :: "string \<Rightarrow> u32"
  inet_pton6 :: "string \<Rightarrow> u8 list option"

fun af_of :: "ipv \<Rightarrow> family" where
  "af_of IPv4 = AF_INET"
| "af_of IPv6 = AF_INET6"

fun sa_family :: "sockaddr \<Rightarrow> family" where
  "sa_family (Sockaddr_in _ _) = AF_INET"
| "sa_family (Sockaddr_in6 _ _) = AF_INET6"
| "sa_family (Sockaddr_un _) = AF_UNIX"
| "sa_family (Sockaddr_nl _ _) = AF_NETLINK"
| "sa_family (Sockaddr_ll _ _ _) = AF_PACKET"

definition INADDR_ANY :: u32 where
  "INADDR_ANY = 0"

definition in6addr_any :: "u8 list" where
  "in6addr_any = replicate 16 0"

fun any_addr :: "ipv \<Rightarrow> u16 \<Rightarrow> sockaddr" where
  "any_addr IPv4 portNum = Sockaddr_in (htons portNum) (htonl INADDR_ANY)"
| "any_addr IPv6 portNum = Sockaddr_in6 (htons portNum) in6addr_any"

text \<open>\<^verbatim>\<open>inet_pton\<close> leaves the zeroed address alone when the text is not an address.\<close>

fun dest_addr :: "netlib \<Rightarrow> ipv \<Rightarrow> string \<Rightarrow> u16 \<Rightarrow> sockaddr" where
  "dest_addr net IPv4 pIpStr portNum = Sockaddr_in (htons portNum) (inet_addr net pIpStr)"
| "dest_addr net IPv6 pIpStr portNum = Sockaddr_in6 (htons portNum)
     (case inet_pton6 net pIpStr of None \<Rightarrow> replicate 16 0 | Some a \<Rightarrow> a)"

lemma socket_names_any [simp]: "socket_names (any_addr v p) = {}"
  by (cases v) (simp_all add: socket_names_def)

section \<open>The contract of a transport's life cycle\<close>

text \<open>
  Opening, with arguments that are \<open>ok\<close>, either fails and gives everything back, or owns
  exactly one new descriptor, the block of the context and those the context points to, and the
  threads of the context. Closing gives back what the context still owns. The contract needs
  descriptor 0 to be in use (standard input): the code tests descriptors with \<^verbatim>\<open>fd > 0\<close> and
  would not close descriptor 0.
\<close>

locale transport =
  fixes ok :: "'x \<Rightarrow> bool"
    and init :: "'x \<Rightarrow> 'a world \<Rightarrow> 'c handle \<times> 'a world"
    and uninit :: "'c handle \<Rightarrow> 'a world \<Rightarrow> 'a world"
    and fd_of :: "'c \<Rightarrow> int"
    and threads_of :: "'c \<Rightarrow> tid set"
    and blocks_of :: "'c \<Rightarrow> addr set"
    and sound :: "addr \<Rightarrow> 'c \<Rightarrow> bool"
  assumes opens_none: "init x s = (None, s') \<Longrightarrow> ok x \<Longrightarrow> wf_world s \<Longrightarrow> 0 \<in> fds s \<Longrightarrow>
      adds s s' {} {} {}"
    and opens_some: "init x s = (Some (p, c), s') \<Longrightarrow> ok x \<Longrightarrow> wf_world s \<Longrightarrow> 0 \<in> fds s \<Longrightarrow>
      0 < fd_of c \<and> sound p c \<and> adds s s' {fd_of c} (insert p (blocks_of c)) (threads_of c)"
    and closes_none: "uninit None s = s"
    and closes_some: "wf_world s \<Longrightarrow> sound p c \<Longrightarrow> insert p (blocks_of c) \<subseteq> heap s \<Longrightarrow>
      wf_world (uninit (Some (p, c)) s) \<and> faults (uninit (Some (p, c)) s) = faults s \<and>
      fds (uninit (Some (p, c)) s) = (if 0 < fd_of c then fds s - {fd_of c} else fds s) \<and>
      heap (uninit (Some (p, c)) s) = heap s - insert p (blocks_of c) \<and>
      threads (uninit (Some (p, c)) s) = threads s - threads_of c"

text \<open>The usual transport: the context is its only block, and every argument is fine.\<close>

locale endpoint =
  fixes init :: "'x \<Rightarrow> 'a world \<Rightarrow> 'c handle \<times> 'a world"
    and uninit :: "'c handle \<Rightarrow> 'a world \<Rightarrow> 'a world"
    and fd_of :: "'c \<Rightarrow> int"
    and threads_of :: "'c \<Rightarrow> tid set"
  assumes init_fails: "init x s = (None, s') \<Longrightarrow> wf_world s \<Longrightarrow> 0 \<in> fds s \<Longrightarrow>
      quiet s s' \<and> wf_world s' \<and> res s' = res s"
    and init_works: "init x s = (Some (p, c), s') \<Longrightarrow> wf_world s \<Longrightarrow> 0 \<in> fds s \<Longrightarrow>
      quiet s s' \<and> wf_world s' \<and> p \<noteq> NULL \<and> p \<notin> heap s \<and> 0 < fd_of c \<and> fd_of c \<notin> fds s \<and>
      threads_of c \<inter> threads s = {} \<and> fds s' = insert (fd_of c) (fds s) \<and>
      heap s' = insert p (heap s) \<and> threads s' = threads_of c \<union> threads s"
    and uninit_null: "uninit None s = s"
    and uninit_works: "wf_world s \<Longrightarrow> p \<in> heap s \<Longrightarrow>
      wf_world (uninit (Some (p, c)) s) \<and> faults (uninit (Some (p, c)) s) = faults s \<and>
      fds (uninit (Some (p, c)) s) = (if 0 < fd_of c then fds s - {fd_of c} else fds s) \<and>
      heap (uninit (Some (p, c)) s) = heap s - {p} \<and>
      threads (uninit (Some (p, c)) s) = threads s - threads_of c"

sublocale endpoint \<subseteq> transport "\<lambda>_. True" init uninit fd_of threads_of "\<lambda>_. {}" "\<lambda>_ _. True"
proof
  fix x s s' p c
  show "adds s s' {} {} {}" if "init x s = (None, s')" "wf_world s" "0 \<in> fds s"
    using init_fails [OF that] by (simp add: adds_def res_def)
  show "0 < fd_of c \<and> True \<and> adds s s' {fd_of c} (insert p {}) (threads_of c)"
    if "init x s = (Some (p, c), s')" "wf_world s" "0 \<in> fds s"
    using init_works [OF that] by (simp add: adds_def)
qed (simp_all add: uninit_null uninit_works)

section \<open>Many sessions\<close>

fun open_all :: "('x \<Rightarrow> 'a world \<Rightarrow> 'c handle \<times> 'a world) \<Rightarrow> 'x list \<Rightarrow> 'a world \<Rightarrow>
    'c handle list \<times> 'a world" where
  "open_all init [] s = ([], s)"
| "open_all init (x # xs) s =
     (let (h, s) = init x s; (hs, s) = open_all init xs s in (h # hs, s))"

fun close_all :: "('c handle \<Rightarrow> 'a world \<Rightarrow> 'a world) \<Rightarrow> 'c handle list \<Rightarrow> 'a world \<Rightarrow> 'a world" where
  "close_all uninit [] s = s"
| "close_all uninit (h # hs) s = close_all uninit hs (uninit h s)"

fun live :: "'c handle list \<Rightarrow> (addr \<times> 'c) list" where
  "live [] = []"
| "live (None # hs) = live hs"
| "live (Some pc # hs) = pc # live hs"

lemma mset_live: "mset (live hs) = image_mset the (filter_mset (\<lambda>h. h \<noteq> None) (mset hs))"
  by (induction hs rule: live.induct) auto

text \<open>\<open>B\<close> is the disjoint union of \<open>A\<close> and of what the elements of \<open>ps\<close> own.\<close>

definition parts :: "('q \<Rightarrow> 'z set) \<Rightarrow> 'q list \<Rightarrow> 'z set \<Rightarrow> 'z set \<Rightarrow> bool" where
  "parts g ps A B \<longleftrightarrow> B = A \<union> (\<Union>q\<in>set ps. g q) \<and> (\<forall>q\<in>set ps. g q \<inter> A = {}) \<and>
     pairwise (\<lambda>q r. g q \<inter> g r = {}) (set ps)"

lemma parts_Nil [simp]: "parts g [] A B \<longleftrightarrow> B = A"
  by (simp add: parts_def)

lemma parts_Cons:
  assumes "parts g ps A B" "g q \<inter> B = {}"
  shows "parts g (q # ps) A (g q \<union> B)"
proof -
  have B: "B = A \<union> (\<Union>r\<in>set ps. g r)" using assms(1) unfolding parts_def by (rule conjunct1)
  have d: "\<forall>x\<in>g q. x \<notin> B" using assms(2) by (simp add: disjoint_iff)
  have "g q \<inter> A = {}" using d unfolding B disjoint_iff by blast
  moreover have "\<forall>r\<in>set ps. g q \<inter> g r = {} \<and> g r \<inter> g q = {}"
    using d unfolding B disjoint_iff by blast
  moreover have "g q \<union> B = A \<union> (\<Union>r\<in>set (q # ps). g r)" unfolding B by (simp add: Un_ac)
  ultimately show ?thesis
    using assms(1) unfolding parts_def by (simp only: list.set pairwise_insert) blast
qed

lemma parts_remove:
  assumes "parts g (q # ps) A B" "q \<notin> set ps"
  shows "parts g ps A (B - g q)"
proof -
  have d: "\<forall>r\<in>set ps. g r \<inter> g q = {}" "g q \<inter> A = {}"
    using assms by (auto simp: parts_def pairwise_insert)
  have "B - g q = A \<union> (\<Union>r\<in>set ps. g r)"
    by (rule set_eqI) (use assms(1) d in \<open>auto simp: parts_def\<close>)
  with assms(1) show ?thesis by (simp add: parts_def pairwise_insert)
qed

lemma parts_sub: "parts g (q # ps) A B \<Longrightarrow> g q \<subseteq> B"
  unfolding parts_def by auto

lemma parts_super: "parts g ps A B \<Longrightarrow> A \<subseteq> B"
  unfolding parts_def by auto

text \<open>The world \<open>s'\<close> is \<open>s\<close> plus what the contexts in \<open>ps\<close> own, each thing owned once.\<close>

definition owns ::
  "('c \<Rightarrow> int) \<Rightarrow> ('c \<Rightarrow> tid set) \<Rightarrow> ('c \<Rightarrow> addr set) \<Rightarrow> (addr \<Rightarrow> 'c \<Rightarrow> bool) \<Rightarrow> (addr \<times> 'c) list \<Rightarrow>
    'a world \<Rightarrow> 'a world \<Rightarrow> bool" where
  "owns fd_of threads_of blocks_of sound ps s s' \<longleftrightarrow> wf_world s' \<and> faults s' = faults s \<and> distinct ps \<and>
     (\<forall>q\<in>set ps. 0 < fd_of (snd q) \<and> sound (fst q) (snd q)) \<and>
     parts (\<lambda>q. insert (fst q) (blocks_of (snd q))) ps (heap s) (heap s') \<and>
     parts (\<lambda>q. {fd_of (snd q)}) ps (fds s) (fds s') \<and>
     parts (\<lambda>q. threads_of (snd q)) ps (threads s) (threads s')"

lemma owns_perm: "owns f t b g ps s s' \<Longrightarrow> mset qs = mset ps \<Longrightarrow> owns f t b g qs s s'"
  using mset_eq_setD [of qs ps] mset_eq_imp_distinct_iff [of qs ps]
  by (simp add: owns_def parts_def)

lemma owns_adds:
  assumes o: "owns f t b g ps s s1" and a: "adds s1 s2 {f c} (insert p (b c)) (t c)"
    and c: "0 < f c" "g p c"
  shows "owns f t b g ((p, c) # ps) s s2"
proof -
  have a: "wf_world s2" "faults s2 = faults s1" "fds s2 = {f c} \<union> fds s1" "{f c} \<inter> fds s1 = {}"
    "heap s2 = insert p (b c) \<union> heap s1" "insert p (b c) \<inter> heap s1 = {}"
    "threads s2 = t c \<union> threads s1" "t c \<inter> threads s1 = {}"
    using a by (simp_all add: adds_def quiet_def)
  have "(p, c) \<notin> set ps"
  proof
    assume "(p, c) \<in> set ps"
    then have "p \<in> heap s1" using o by (force simp: owns_def parts_def)
    with a(6) show False by simp
  qed
  moreover have "parts (\<lambda>q. insert (fst q) (b (snd q))) ((p, c) # ps) (heap s) (heap s2)"
    using parts_Cons [of "\<lambda>q. insert (fst q) (b (snd q))" ps "heap s" "heap s1" "(p, c)"] o a
    by (simp add: owns_def)
  moreover have "parts (\<lambda>q. {f (snd q)}) ((p, c) # ps) (fds s) (fds s2)"
    using parts_Cons [of "\<lambda>q. {f (snd q)}" ps "fds s" "fds s1" "(p, c)"] o a by (simp add: owns_def)
  moreover have "parts (\<lambda>q. t (snd q)) ((p, c) # ps) (threads s) (threads s2)"
    using parts_Cons [of "\<lambda>q. t (snd q)" ps "threads s" "threads s1" "(p, c)"] o a
    by (simp add: owns_def)
  ultimately show ?thesis using o a c by (simp add: owns_def)
qed

context transport begin

lemma owns_fd0: "owns fd_of threads_of blocks_of sound ps s s1 \<Longrightarrow> 0 \<in> fds s \<Longrightarrow> 0 \<in> fds s1 \<and> wf_world s1"
  using parts_super [of "\<lambda>q. {fd_of (snd q)}" ps "fds s" "fds s1"] by (simp add: owns_def subset_iff)

lemma owns_open:
  assumes o: "owns fd_of threads_of blocks_of sound ps s s1" and i: "init x s1 = (h, s2)" "ok x"
    and z: "0 \<in> fds s"
  shows "owns fd_of threads_of blocks_of sound ((case h of None \<Rightarrow> [] | Some q \<Rightarrow> [q]) @ ps) s s2"
proof (cases h)
  case None
  with opens_none [of x s1 s2] i owns_fd0 [OF o z] o show ?thesis by (simp add: owns_def adds_def quiet_def)
next
  case (Some q)
  then obtain p c where h: "h = Some (p, c)" by (cases q) auto
  with opens_some [of x s1 p c s2] i owns_fd0 [OF o z] have
    "0 < fd_of c" "sound p c" "adds s1 s2 {fd_of c} (insert p (blocks_of c)) (threads_of c)" by simp_all
  from owns_adds [where f = fd_of and t = threads_of and b = blocks_of and g = sound, OF o this(3,1,2)]
  show ?thesis by (simp add: h)
qed

lemma owns_open_all:
  "owns fd_of threads_of blocks_of sound ps s s1 \<Longrightarrow> open_all init xs s1 = (hs, s2) \<Longrightarrow>
   \<forall>x\<in>set xs. ok x \<Longrightarrow> 0 \<in> fds s \<Longrightarrow>
   owns fd_of threads_of blocks_of sound (rev (live hs) @ ps) s s2"
proof (induction xs arbitrary: ps s1 hs)
  case Nil
  then show ?case by simp
next
  case (Cons x xs)
  obtain h t where h: "init x s1 = (h, t)" by fastforce
  obtain hs' where hs: "open_all init xs t = (hs', s2)" "hs = h # hs'"
    using Cons.prems(2) h by (auto split: prod.splits)
  have "ok x" using Cons.prems by simp
  from Cons.IH [OF owns_open [OF Cons.prems(1) h this Cons.prems(4)] hs(1)] Cons.prems hs(2)
  show ?case by (cases h) simp_all
qed

lemma owns_close:
  assumes o: "owns fd_of threads_of blocks_of sound (pc # ps) s s1"
  shows "owns fd_of threads_of blocks_of sound ps s (uninit (Some pc) s1)"
proof -
  let ?b = "\<lambda>q. insert (fst q) (blocks_of (snd q))"
  obtain p c where pc: "pc = (p, c)" by (cases pc) auto
  have "insert p (blocks_of c) \<subseteq> heap s1" 
    using o parts_sub [of ?b pc ps "heap s" "heap s1"] unfolding owns_def pc by simp
  then have u: "wf_world (uninit (Some pc) s1) \<and> faults (uninit (Some pc) s1) = faults s1 \<and>
      fds (uninit (Some pc) s1) = fds s1 - {fd_of c} \<and>
      heap (uninit (Some pc) s1) = heap s1 - insert p (blocks_of c) \<and>
      threads (uninit (Some pc) s1) = threads s1 - threads_of c"
    using closes_some [of s1 p c] o by (simp add: owns_def pc)
  have "pc \<notin> set ps" using o by (simp add: owns_def)
  then show ?thesis
    using parts_remove [of ?b pc ps "heap s" "heap s1"]
      parts_remove [of "\<lambda>q. {fd_of (snd q)}" pc ps "fds s" "fds s1"]
      parts_remove [of "\<lambda>q. threads_of (snd q)" pc ps "threads s" "threads s1"] o u
    by (simp add: owns_def pc)
qed

lemma owns_close_all:
  "owns fd_of threads_of blocks_of sound (live hs) s s1 \<Longrightarrow>
   owns fd_of threads_of blocks_of sound [] s (close_all uninit hs s1)"
proof (induction hs arbitrary: s1)
  case Nil
  then show ?case by simp
next
  case (Cons h hs)
  then show ?case by (cases h) (auto simp: closes_none dest: owns_close)
qed

text \<open>Any number of sessions, closed in any order, leave no descriptor, block or thread behind.\<close>

lemma sessions:
  assumes "open_all init xs s = (hs, s1)" "mset hs' = mset hs" "wf_world s" "0 \<in> fds s" "\<forall>x\<in>set xs. ok x"
  shows "res (close_all uninit hs' s1) = res s \<and> faults (close_all uninit hs' s1) = faults s"
proof -
  have "owns fd_of threads_of blocks_of sound [] s s" using assms(3) by (simp add: owns_def)
  from owns_open_all [OF this assms(1,5,4)]
  have "owns fd_of threads_of blocks_of sound (rev (live hs)) s s1" by simp
  moreover have "mset (live hs') = mset (rev (live hs))"
    by (simp only: mset_live assms(2) mset_rev)
  ultimately have "owns fd_of threads_of blocks_of sound (live hs') s s1" by (rule owns_perm)
  from owns_close_all [OF this] show ?thesis by (simp add: owns_def res_def)
qed

lemma session:
  assumes "init x s = (h, s')" "ok x" "wf_world s" "0 \<in> fds s"
  shows "res (uninit h s') = res s \<and> faults (uninit h s') = faults s"
  using sessions [of "[x]" s "[h]" s' "[h]"] assms by simp

end

end
