(* ===== verification/Recv_Loop.thy ===== *)
theory Recv_Loop
  imports Comm_If
begin

text \<open>
  The receive thread every transport runs: wait for data, stop on an error, otherwise hand the
  data to the application and start over. \<open>recv_loop\<close> is the contract of one turn of such a
  loop, and what the whole loop does follows from it. Two kinds of applications appear:
  arbitrary ones (for termination), and those whose callbacks only touch the application's own
  memory (for what is delivered).
\<close>

section \<open>Applications\<close>

text \<open>Callbacks that only change the application's memory.\<close>

definition pure_app :: "(callback \<Rightarrow> 'a \<Rightarrow> 'a) \<Rightarrow> 'a application" where
  "pure_app f c s = s\<lparr>app := f c (app s)\<rparr>"

text \<open>Callbacks may do anything but make the kernel answer more often.\<close>

definition frugal :: "'a application \<Rightarrow> bool" where
  "frugal cb \<longleftrightarrow> (\<forall>c s. length (script (cb c s)) \<le> length (script s))"

text \<open>The world after the application has taken a list of calls.\<close>

definition deliver :: "(callback \<Rightarrow> 'a \<Rightarrow> 'a) \<Rightarrow> callback list \<Rightarrow> 'a world \<Rightarrow> 'a world" where
  "deliver f cs s = s\<lparr>trace := trace s @ map ECall cs, app := fold f cs (app s)\<rparr>"

lemma deliver_Nil [simp]: "deliver f [] s = s"
  by (simp add: deliver_def)

lemma deliver_Cons: "deliver f (c # cs) s = deliver f cs (invoke (pure_app f) c s)"
  by (simp add: deliver_def invoke_def pure_app_def emit_def)

lemma deliver_append: "deliver f (cs @ ds) s = deliver f ds (deliver f cs s)"
  by (simp add: deliver_def)

lemma invoke_deliver: "invoke (pure_app f) c s = deliver f [c] s"
  by (simp add: deliver_def invoke_def pure_app_def emit_def)

lemma deliver_sel [simp]:
  "script (deliver f cs s) = script s" "fds (deliver f cs s) = fds s"
  "heap (deliver f cs s) = heap s" "threads (deliver f cs s) = threads s"
  "cancels (deliver f cs s) = cancels s" "faults (deliver f cs s) = faults s"
  "app (deliver f cs s) = fold f cs (app s)" "files (deliver f cs s) = files s"
  by (simp_all add: deliver_def)

lemma calls_deliver [simp]: "calls (deliver f cs s) = calls s @ cs"
  by (simp add: deliver_def calls_def List.map_filter_def o_def)

lemma wf_deliver [simp]: "wf_world (deliver f cs s) = wf_world s"
  by (simp add: deliver_def wf_world_def)

lemma deliver_script: "deliver f cs (s\<lparr>script := x\<rparr>) = (deliver f cs s)\<lparr>script := x\<rparr>"
  by (simp add: deliver_def)

lemma script_id: "script s = x \<Longrightarrow> s\<lparr>script := x\<rparr> = s"
  by auto

lemma invoke_pure [simp]:
  "script (invoke (pure_app f) c s) = script s" "fds (invoke (pure_app f) c s) = fds s"
  "threads (invoke (pure_app f) c s) = threads s" "heap (invoke (pure_app f) c s) = heap s"
  "cancels (invoke (pure_app f) c s) = cancels s" "faults (invoke (pure_app f) c s) = faults s"
  "app (invoke (pure_app f) c s) = f c (app s)" "calls (invoke (pure_app f) c s) = calls s @ [c]"
  by (simp_all add: invoke_def pure_app_def calls_emit)

lemma frugal_invoke: "frugal cb \<Longrightarrow> length (script (invoke cb c s)) \<le> length (script s)"
  using spec [of "\<lambda>c. \<forall>s. length (script (cb c s)) \<le> length (script s)" c]
  by (auto simp: frugal_def invoke_def dest!: spec [of _ "emit (ECall c) s"])

lemma frugal_pure: "frugal (pure_app f)"
  by (simp add: frugal_def pure_app_def)

section \<open>What the kernel delivers\<close>

text \<open>
  An answer that carries data. A receive that gets anything else returns an error (-1) or, on
  an end of file or an empty message, 0.
\<close>

fun payload :: "reply \<Rightarrow> bool" where
  "payload (Data bs a) \<longleftrightarrow> bs \<noteq> []"
| "payload _ \<longleftrightarrow> False"

fun stop_code :: "reply list \<Rightarrow> int" where
  "stop_code (Fail e # rs) = -1"
| "stop_code [] = -1"
| "stop_code _ = 0"

text \<open>An answer of whatever length: the loops that stop on errors only go on after it.\<close>

fun answered :: "reply \<Rightarrow> bool" where
  "answered (Fail e) \<longleftrightarrow> False"
| "answered _ \<longleftrightarrow> True"

fun reply_data :: "reply \<Rightarrow> u8 list" where
  "reply_data (Data bs a) = bs"
| "reply_data _ = []"

fun reply_source :: "reply \<Rightarrow> sockaddr option" where
  "reply_source (Data bs a) = Some a"
| "reply_source _ = None"

lemma sys_recvfrom_answered:
  assumes "n \<in> fds s" "script s = r # rs" "answered r"
  shows "sys_recvfrom n len s = (int (length (take len (reply_data r))), take len (reply_data r), reply_source r,
    s\<lparr>script := rs\<rparr>)"
  using assms by (cases r) (simp_all add: sys_recvfrom_def pop_def)

lemma sys_recvfrom_unanswered:
  assumes "sys_recvfrom n len s = (r, bs, src, s')" "n \<in> fds s" "takeWhile answered (script s) = []"
  shows "r = -1 \<and> bs = [] \<and> src = None \<and> script s' = tl (script s) \<and> calls s' = calls s \<and>
    app s' = app s \<and> fds s' = fds s \<and> heap s' = heap s \<and> threads s' = threads s \<and>
    cancels s' = cancels s \<and> faults s' = faults s \<and> trace s' = trace s \<and> files s' = files s"
  using assms
  by (auto simp: sys_recvfrom_def pop_def split: list.splits reply.splits if_splits)

text \<open>The world a failed receive leaves.\<close>

definition recv_failed :: "int \<Rightarrow> 'a world \<Rightarrow> 'a world" where
  "recv_failed n s = (case sys_recvfrom n COMM_BUF_SIZE s of (len, bs, src, s') \<Rightarrow> s')"

lemma recv_failed_rule:
  assumes "n \<in> fds s" "takeWhile answered (script s) = []"
  shows "script (recv_failed n s) = tl (script s) \<and> calls (recv_failed n s) = calls s \<and>
    app (recv_failed n s) = app s \<and> fds (recv_failed n s) = fds s \<and>
    heap (recv_failed n s) = heap s \<and> threads (recv_failed n s) = threads s \<and>
    cancels (recv_failed n s) = cancels s \<and> faults (recv_failed n s) = faults s \<and>
    files (recv_failed n s) = files s"
proof -
  obtain r bs src s' where 1: "sys_recvfrom n COMM_BUF_SIZE s = (r, bs, src, s')" by (metis prod_cases4)
  from sys_recvfrom_unanswered [OF 1 assms] show ?thesis by (simp add: recv_failed_def 1)
qed

lemma sys_recvfrom_payload:
  assumes "n \<in> fds s" "script s = Data bs a # rs"
  shows "sys_recvfrom n len s = (int (length (take len bs)), take len bs, Some a, s\<lparr>script := rs\<rparr>)"
  using assms by (simp add: sys_recvfrom_def pop_def)

lemma sys_recvfrom_stop:
  assumes "sys_recvfrom n len s = (r, bs, src, s')" "n \<in> fds s" "takeWhile payload (script s) = []"
  shows "r = stop_code (script s) \<and> bs = [] \<and> script s' = tl (script s) \<and> calls s' = calls s \<and>
    app s' = app s \<and> fds s' = fds s \<and> heap s' = heap s \<and> threads s' = threads s \<and>
    cancels s' = cancels s \<and> faults s' = faults s \<and> trace s' = trace s"
  using assms
  by (auto simp: sys_recvfrom_def pop_def split: list.splits reply.splits if_splits)

lemma sys_recv_stop:
  assumes "sys_recv n len s = (r, bs, s')" "n \<in> fds s" "takeWhile payload (script s) = []"
  shows "r = stop_code (script s) \<and> bs = [] \<and> script s' = tl (script s) \<and> calls s' = calls s \<and>
    app s' = app s \<and> fds s' = fds s \<and> heap s' = heap s \<and> threads s' = threads s \<and>
    cancels s' = cancels s \<and> faults s' = faults s \<and> trace s' = trace s"
  using assms sys_recvfrom_stop [of n len s r bs _ s']
  by (auto simp: sys_recv_def split: prod.splits)

lemma takeWhile_dropWhile_nil: "takeWhile P (dropWhile P xs) = []"
  by (induction xs) auto

lemma stop_code_le: "takeWhile payload rs = [] \<Longrightarrow> stop_code rs \<le> 0"
  by (cases rs rule: stop_code.cases) auto

section \<open>The loop\<close>

text \<open>
  \<open>world_of\<close> is the world in the loop's state and \<open>key\<close> the part of the context and of the local
  variables the loop reads, which a turn changes by \<open>upd\<close>. A good answer of the kernel is handed
  over by the calls \<open>call\<close> gives (one, or none when the application has no callback); any other
  answer, or none, ends the loop, with \<open>fin\<close> the world it leaves and \<open>ended\<close> what then holds of
  the context.
\<close>

primrec run_calls :: "('k \<Rightarrow> reply \<Rightarrow> callback list) \<Rightarrow> ('k \<Rightarrow> reply \<Rightarrow> 'k) \<Rightarrow> 'k \<Rightarrow> reply list \<Rightarrow>
    callback list" where
  "run_calls call upd k [] = []"
| "run_calls call upd k (r # rs) = call k r @ run_calls call upd (upd k r) rs"

lemma run_calls_const: "run_calls call (\<lambda>k r. k) k rs = concat (map (call k) rs)"
  by (induction rs) simp_all

locale recv_machine =
  fixes g :: "'st \<Rightarrow> bool"
    and body :: "'st \<Rightarrow> flow \<times> 'st"
    and world_of :: "'st \<Rightarrow> 'a world"
    and key :: "'st \<Rightarrow> 'k"
    and ready :: "'st \<Rightarrow> bool"
    and good :: "reply \<Rightarrow> bool"
    and call :: "'k \<Rightarrow> reply \<Rightarrow> callback list"
    and upd :: "'k \<Rightarrow> reply \<Rightarrow> 'k"
    and f :: "callback \<Rightarrow> 'a \<Rightarrow> 'a"
    and fin :: "'k \<Rightarrow> 'a world \<Rightarrow> 'a world"
    and ended :: "'k \<Rightarrow> 'st \<Rightarrow> bool"
  assumes ready_guard: "ready st \<Longrightarrow> g st"
    and good_turn: "ready st \<Longrightarrow> script (world_of st) = r # rs \<Longrightarrow> good r \<Longrightarrow>
      \<exists>st'. body st = (Next, st') \<and> ready st' \<and> key st' = upd (key st) r \<and>
        world_of st' = deliver f (call (key st) r) ((world_of st)\<lparr>script := rs\<rparr>)"
    and last_turn: "ready st \<Longrightarrow> takeWhile good (script (world_of st)) = [] \<Longrightarrow>
      \<exists>st'. body st = (Break, st') \<and> ended (key st) st' \<and>
        world_of st' = fin (key st) (world_of st)"
begin

lemma machine_run:
  assumes "ready st"
  shows "\<exists>st'. c_while g body st = Some (False, st') \<and>
    ended (foldl upd (key st) (takeWhile good (script (world_of st)))) st' \<and>
    world_of st' = fin (foldl upd (key st) (takeWhile good (script (world_of st))))
      (deliver f (run_calls call upd (key st) (takeWhile good (script (world_of st))))
        ((world_of st)\<lparr>script := dropWhile good (script (world_of st))\<rparr>))"
  using assms
proof (induction "script (world_of st)" arbitrary: st)
  case Nil
  then have e: "script (world_of st) = []" by simp
  with last_turn [OF Nil.prems] obtain st' where "body st = (Break, st')" "ended (key st) st'"
    "world_of st' = fin (key st) (world_of st)" by auto
  then show ?case
    using e by (simp add: c_while_break [where g = g, OF ready_guard [OF Nil.prems]] script_id [OF e])
next
  case (Cons r rs)
  then have e: "script (world_of st) = r # rs" by simp
  show ?case
  proof (cases "good r")
    case True
    from good_turn [OF Cons.prems e True] obtain st1 where 1: "body st = (Next, st1)" "ready st1"
      "key st1 = upd (key st) r"
      "world_of st1 = deliver f (call (key st) r) ((world_of st)\<lparr>script := rs\<rparr>)"
      by blast
    then have "rs = script (world_of st1)" by simp
    from Cons.hyps(1) [OF this 1(2)] 1 e True show ?thesis
      by (simp add: c_while_next [where g = g, OF ready_guard [OF Cons.prems]] deliver_append deliver_script)
  next
    case False
    with last_turn [OF Cons.prems] e obtain st' where "body st = (Break, st')" "ended (key st) st'"
      "world_of st' = fin (key st) (world_of st)" by auto
    then show ?thesis
      using e False
      by (simp add: c_while_break [where g = g, OF ready_guard [OF Cons.prems]] script_id [OF e])
  qed
qed

end

text \<open>A loop that keeps what it reads.\<close>

locale recv_loop =
  fixes g :: "'st \<Rightarrow> bool"
    and body :: "'st \<Rightarrow> flow \<times> 'st"
    and world_of :: "'st \<Rightarrow> 'a world"
    and key :: "'st \<Rightarrow> 'k"
    and ready :: "'st \<Rightarrow> bool"
    and good :: "reply \<Rightarrow> bool"
    and call :: "'k \<Rightarrow> reply \<Rightarrow> callback list"
    and f :: "callback \<Rightarrow> 'a \<Rightarrow> 'a"
    and fin :: "'k \<Rightarrow> 'a world \<Rightarrow> 'a world"
    and ended :: "'k \<Rightarrow> 'st \<Rightarrow> bool"
  assumes ready_g: "ready st \<Longrightarrow> g st"
    and turn: "ready st \<Longrightarrow> script (world_of st) = r # rs \<Longrightarrow> good r \<Longrightarrow>
      \<exists>st'. body st = (Next, st') \<and> ready st' \<and> key st' = key st \<and>
        world_of st' = deliver f (call (key st) r) ((world_of st)\<lparr>script := rs\<rparr>)"
    and stop: "ready st \<Longrightarrow> takeWhile good (script (world_of st)) = [] \<Longrightarrow>
      \<exists>st'. body st = (Break, st') \<and> ended (key st) st' \<and>
        world_of st' = fin (key st) (world_of st)"

sublocale recv_loop \<subseteq> recv_machine g body world_of key ready good call "\<lambda>k r. k" f fin ended
  by unfold_locales (use ready_g turn stop in \<open>blast+\<close>)

context recv_loop begin

lemma run:
  assumes "ready st"
  shows "\<exists>st'. c_while g body st = Some (False, st') \<and> ended (key st) st' \<and>
    world_of st' = fin (key st)
      (deliver f (concat (map (call (key st)) (takeWhile good (script (world_of st)))))
        ((world_of st)\<lparr>script := dropWhile good (script (world_of st))\<rparr>))"
proof -
  have "foldl (\<lambda>k r. k) k rs = k" for k :: 'k and rs :: "reply list" by (induction rs) simp_all
  with machine_run [OF assms] show ?thesis by (simp add: run_calls_const)
qed

end

text \<open>A loop whose every further turn takes an answer of the kernel ends.\<close>

lemma c_while_consumes:
  assumes "\<And>st st'. body st = (Next, st') \<Longrightarrow> length (script (w st')) < length (script (w st))"
  shows "\<exists>r. c_while g body st = Some r"
proof -
  have "\<exists>c st'. c_while g body st = Some (c, st') \<and> True"
    by (rule c_while_total [where I = "\<lambda>_. True" and m = "\<lambda>st. length (script (w st))"])
      (use assms in \<open>auto split: flow.split\<close>)
  then show ?thesis by auto
qed

section \<open>Conversations\<close>

text \<open>
  The threads that read a stream (a TCP or UNIX domain connection of a client, a FIFO) end in the
  same way: on an end of file or an error they close the descriptor and call the application's
  exit callback with the result of the receive. The key is the descriptor, the receive and the
  exit callback, and the application's argument.
\<close>

type_synonym client_key = "int \<times> fptr \<times> fptr \<times> addr"

fun recv_calls :: "client_key \<Rightarrow> reply \<Rightarrow> callback list" where
  "recv_calls (n, f, x, a) (Data bs src) = (if f = NULL then []
     else [RecvCb f a (take COMM_BUF_SIZE bs) (word_of_nat (length (take COMM_BUF_SIZE bs)))])"
| "recv_calls _ _ = []"

fun exit_calls :: "client_key \<Rightarrow> int \<Rightarrow> callback list" where
  "exit_calls (n, f, x, a) len = (if x = NULL then [] else [ExitCb x a len])"

definition hang_up :: "(callback \<Rightarrow> 'a \<Rightarrow> 'a) \<Rightarrow> client_key \<Rightarrow> 'a world \<Rightarrow> 'a world" where
  "hang_up f k s = (let (len, bs, s) = sys_recv (fst k) COMM_BUF_SIZE s
     in deliver f (exit_calls k len) (sys_close (fst k) s))"

lemma hang_up_rule:
  assumes "fst k \<in> fds s" "takeWhile payload (script s) = []"
  shows "calls (hang_up f k s) = calls s @ exit_calls k (stop_code (script s)) \<and>
    app (hang_up f k s) = fold f (exit_calls k (stop_code (script s))) (app s) \<and>
    script (hang_up f k s) = tl (script s) \<and> fds (hang_up f k s) = fds s - {fst k} \<and>
    threads (hang_up f k s) = threads s \<and> heap (hang_up f k s) = heap s \<and> faults (hang_up f k s) = faults s \<and>
    cancels (hang_up f k s) = cancels s \<and> (wf_world s \<longrightarrow> wf_world (hang_up f k s))"
proof -
  obtain len bs s' where u: "sys_recv (fst k) COMM_BUF_SIZE s = (len, bs, s')" by (metis prod_cases3)
  have "script (sys_close (fst k) s') = script s'" by (simp add: sys_close_def)
  with sys_recv_stop [OF u assms] sys_recv_rule [OF u] sys_close_rule [of s' "fst k"] show ?thesis
    by (simp add: hang_up_def u quiet_def)
qed

text \<open>A whole conversation: everything is handed over, then the hang-up.\<close>

definition conversation :: "(callback \<Rightarrow> 'a \<Rightarrow> 'a) \<Rightarrow> client_key \<Rightarrow> 'a world \<Rightarrow> 'a world" where
  "conversation f k s = hang_up f k
     (deliver f (concat (map (recv_calls k) (takeWhile payload (script s))))
       (s\<lparr>script := dropWhile payload (script s)\<rparr>))"

definition conversation_calls :: "client_key \<Rightarrow> reply list \<Rightarrow> callback list" where
  "conversation_calls k rs = concat (map (recv_calls k) (takeWhile payload rs)) @
     exit_calls k (stop_code (dropWhile payload rs))"

lemma conversation_rule:
  assumes "fst k \<in> fds s"
  shows "calls (conversation f k s) = calls s @ conversation_calls k (script s) \<and>
    fds (conversation f k s) = fds s - {fst k} \<and> threads (conversation f k s) = threads s \<and>
    heap (conversation f k s) = heap s \<and> faults (conversation f k s) = faults s \<and>
    cancels (conversation f k s) = cancels s \<and> (wf_world s \<longrightarrow> wf_world (conversation f k s))"
proof -
  let ?s = "deliver f (concat (map (recv_calls k) (takeWhile payload (script s))))
       (s\<lparr>script := dropWhile payload (script s)\<rparr>)"
  have "fst k \<in> fds ?s" "takeWhile payload (script ?s) = []"
    using assms by (simp_all add: takeWhile_dropWhile_nil)
  from hang_up_rule [OF this, of f] show ?thesis
    by (simp add: conversation_def conversation_calls_def)
qed

text \<open>After the thread has ended, un-initialisation finds what initialisation acquired, less the descriptor.\<close>

lemma adds_conversation:
  assumes "adds s t {fst k} P {i}" "0 \<le> fst k"
  shows "wf_world (pthread_exit i (conversation f k t)) \<and>
    res (pthread_exit i (conversation f k t)) = (fds s, P \<union> heap s, threads s) \<and>
    faults (pthread_exit i (conversation f k t)) = faults s \<and>
    calls (pthread_exit i (conversation f k t)) = calls s @ conversation_calls k (script t)"
proof -
  have "fst k \<in> fds t" using assms by (simp add: adds_def)
  note c = conversation_rule [OF this, of f]
  have "wf_world (pthread_exit i (conversation f k t))" using c assms by (intro wf_exit) (simp add: adds_def)
  with c assms show ?thesis by (simp add: pthread_exit_def adds_def quiet_def res_def)
qed

end
