(* ===== verification/Udp.thy ===== *)
theory Udp
  imports Recv_Loop
begin

text \<open>
  \<^verbatim>\<open>source/comm_udp.c\<close>: the UDP transport over IPv4 and IPv6. A context owns a datagram
  socket and, when the application gives a receive callback, a joinable receive thread; without
  a callback the application receives by itself with \<open>udpRecv\<close>. The two halves of the file are
  the instances \<open>IPv4\<close> and \<open>IPv6\<close> of each definition.
\<close>

section \<open>Context and socket\<close>

record udp_ctx =
  localAddr :: sockaddr
  fd :: int
  pRecvFunc :: fptr
  pArg :: addr
  thread :: tid
  running :: int
  recvMsg :: "u8 list"

definition udpInitSocket :: "ipv \<Rightarrow> udp_ctx \<Rightarrow> 'a world \<Rightarrow> int \<times> udp_ctx \<times> 'a world" where
  "udpInitSocket v pContext s =
     (let (n, s) = sys_socket (af_of v) SOCK_DGRAM s in
      if n < 0 then (-1, pContext, s)
      else
        let (r, s) = sys_bind n (localAddr pContext) s in
        if r < 0 then (-1, pContext, sys_close n s)
        else (0, pContext\<lparr>fd := n\<rparr>, s))"

definition udpUninitSocket :: "udp_ctx \<Rightarrow> 'a world \<Rightarrow> udp_ctx \<times> 'a world" where
  "udpUninitSocket pContext s =
     (if 0 < fd pContext then (pContext\<lparr>fd := -1\<rparr>, sys_close (fd pContext) s) else (pContext, s))"

section \<open>The receive thread\<close>

fun zero_addr :: "ipv \<Rightarrow> sockaddr" where
  "zero_addr IPv4 = Sockaddr_in 0 0"
| "zero_addr IPv6 = Sockaddr_in6 0 (replicate 16 0)"

text \<open>One turn, on the context, the local variable \<open>recvAddr\<close> and the world.\<close>

definition udpRecvBody :: "'a application \<Rightarrow> tid \<Rightarrow> udp_ctx \<times> sockaddr \<times> 'a world \<Rightarrow>
    flow \<times> udp_ctx \<times> sockaddr \<times> 'a world" where
  "udpRecvBody cb t st = (case st of (pContext, recvAddr, s) \<Rightarrow>
     if pthread_testcancel t s then (Cancel, st)
     else
       let (len, bs, src, s) = sys_recvfrom (fd pContext) COMM_BUF_SIZE s;
           pContext = pContext\<lparr>recvMsg := fill (recvMsg pContext) bs\<rparr>;
           recvAddr = (case src of None \<Rightarrow> recvAddr | Some a \<Rightarrow> a)
       in if len \<le> 0 then (Break, pContext, recvAddr, s)
          else if pthread_testcancel t s then (Cancel, pContext, recvAddr, s)
          else (Next, pContext, recvAddr,
            if pRecvFunc pContext \<noteq> NULL
            then invoke cb (RecvFromCb (pRecvFunc pContext) (pArg pContext)
                   (take (nat len) (recvMsg pContext)) (word_of_int len) recvAddr) s
            else s))"

text \<open>The thread function \<open>t\<close> runs; \<open>None\<close> would be a thread that never ends.\<close>

definition udpRecvTask :: "ipv \<Rightarrow> 'a application \<Rightarrow> tid \<Rightarrow> udp_ctx \<Rightarrow> 'a world \<Rightarrow> (udp_ctx \<times> 'a world) option" where
  "udpRecvTask v cb t pContext s =
     map_option (\<lambda>(cancelled, pContext, recvAddr, s).
         (if cancelled then pContext else pContext\<lparr>running := 0\<rparr>, pthread_exit t s))
       (c_while (\<lambda>(pContext, recvAddr, s). running pContext \<noteq> 0) (udpRecvBody cb t)
         (pContext, zero_addr v, s))"

section \<open>Initialisation\<close>

definition udpNewContext :: "ipv \<Rightarrow> u16 \<Rightarrow> fptr \<Rightarrow> addr \<Rightarrow> udp_ctx" where
  "udpNewContext v portNum recvFunc arg =
     \<lparr>localAddr = any_addr v portNum, fd = -1, pRecvFunc = recvFunc, pArg = arg,
      thread = 0, running = 0, recvMsg = recv_buffer\<rparr>"

definition udpInit :: "ipv \<Rightarrow> u16 \<Rightarrow> fptr \<Rightarrow> addr \<Rightarrow> 'a world \<Rightarrow> udp_ctx handle \<times> 'a world" where
  "udpInit v portNum recvFunc arg s =
     (let (p, s) = c_malloc s in
      if p = NULL then (None, s)
      else
        let (error, pContext, s) = udpInitSocket v (udpNewContext v portNum recvFunc arg) s in
        if error \<noteq> 0 then (None, c_free p s)
        else if recvFunc = NULL then (Some (p, pContext), s)
        else
          let pContext = pContext\<lparr>running := 1\<rparr>;
              (error, t, s) = pthread_create False s;
              pContext = pContext\<lparr>thread := t\<rparr>
          in if error \<noteq> 0
             then let (pContext, s) = udpUninitSocket pContext s in (None, c_free p s)
             else (Some (p, pContext), s))"

definition udpUninit :: "udp_ctx handle \<Rightarrow> 'a world \<Rightarrow> 'a world" where
  "udpUninit handle s = (case handle of
       None \<Rightarrow> s
     | Some (p, pContext) \<Rightarrow>
         let s = (if pRecvFunc pContext \<noteq> NULL then pthread_cancel (thread pContext) s else s);
             pContext = pContext\<lparr>running := 0\<rparr>;
             (pContext, s) = udpUninitSocket pContext s;
             s = (if pRecvFunc pContext \<noteq> NULL then pthread_join (thread pContext) s else s)
         in c_free p s)"

section \<open>Sending and receiving\<close>

text \<open>
  \<open>pData\<close> is the caller's buffer, \<open>None\<close> for a null pointer. Receiving returns the length, the
  buffer with the data stored in it, and the world.
\<close>

definition udpSend :: "netlib \<Rightarrow> ipv \<Rightarrow> udp_ctx handle \<Rightarrow> string \<Rightarrow> u16 \<Rightarrow> u8 list option \<Rightarrow> u16 \<Rightarrow>
    'a world \<Rightarrow> int \<times> 'a world" where
  "udpSend net v handle pIpStr portNum pData dataSize s = (case handle of
       None \<Rightarrow> (-1, s)
     | Some (p, pContext) \<Rightarrow>
         if fd pContext < 0 then (-1, s)
         else (case pData of
             None \<Rightarrow> (-1, s)
           | Some bs \<Rightarrow>
               if dataSize = 0 then (-1, s)
               else sys_sendto (fd pContext) (take (unat dataSize) bs)
                 (Some (dest_addr net v pIpStr portNum)) s))"

definition udpRecv :: "udp_ctx handle \<Rightarrow> u8 list option \<Rightarrow> u16 \<Rightarrow> 'a world \<Rightarrow>
    int \<times> u8 list option \<times> 'a world" where
  "udpRecv handle pData dataSize s = (case handle of
       None \<Rightarrow> (-1, pData, s)
     | Some (p, pContext) \<Rightarrow>
         if fd pContext < 0 then (-1, pData, s)
         else if pRecvFunc pContext \<noteq> NULL then (-1, pData, s)
         else (case pData of
             None \<Rightarrow> (-1, pData, s)
           | Some buf \<Rightarrow>
               if dataSize = 0 then (-1, pData, s)
               else let (len, bs, src, s) = sys_recvfrom (fd pContext) (unat dataSize) s
                    in (len, Some (fill buf bs), s)))"

section \<open>The local address\<close>

text \<open>The list \<^verbatim>\<open>getifaddrs\<close> returns; an interface without an address has a null \<^verbatim>\<open>ifa_addr\<close>.\<close>

record ifaddr =
  ifa_name :: string
  ifa_addr :: "sockaddr option"

definition ipv4_bytes :: "u32 \<Rightarrow> u8 list" where
  "ipv4_bytes s_addr =
     (let sinAddr = ntohl s_addr in
      [ucast (drop_bit 24 sinAddr AND 0xFF), ucast (drop_bit 16 sinAddr AND 0xFF),
       ucast (drop_bit 8 sinAddr AND 0xFF), ucast (sinAddr AND 0xFF)])"

fun addr_bytes :: "ipv \<Rightarrow> sockaddr \<Rightarrow> u8 list" where
  "addr_bytes IPv4 a = ipv4_bytes (sin_addr a)"
| "addr_bytes IPv6 a = take 16 (sin6_addr a)"

fun addr_size :: "ipv \<Rightarrow> nat" where
  "addr_size IPv4 = 4"
| "addr_size IPv6 = 16"

fun walk_ifaddrs :: "ipv \<Rightarrow> string \<Rightarrow> ifaddr list \<Rightarrow> ub + u8 list option" where
  "walk_ifaddrs v pIfName [] = Inr None"
| "walk_ifaddrs v pIfName (pIf # ifs) = (case ifa_addr pIf of
       None \<Rightarrow> Inl Null_Deref
     | Some a \<Rightarrow>
         if sa_family a = af_of v \<and> ifa_name pIf = pIfName then Inr (Some (addr_bytes v a))
         else walk_ifaddrs v pIfName ifs)"

text \<open>The result and the address buffer; \<open>None\<close> for the list is a failed \<^verbatim>\<open>getifaddrs\<close>.\<close>

definition udpGetAddr :: "ipv \<Rightarrow> ifaddr list option \<Rightarrow> string \<Rightarrow> ub + (int \<times> u8 list)" where
  "udpGetAddr v ifaddrs pIfName =
     (let zeros = replicate (addr_size v) 0 in
      case ifaddrs of
        None \<Rightarrow> Inr (-1, zeros)
      | Some ifs \<Rightarrow> (case walk_ifaddrs v pIfName ifs of
            Inl e \<Rightarrow> Inl e
          | Inr None \<Rightarrow> Inr (-1, zeros)
          | Inr (Some bs) \<Rightarrow> Inr (0, bs)))"

section \<open>The two halves of the file\<close>

definition udpIpv4InitSocket where "udpIpv4InitSocket = udpInitSocket IPv4"
definition udpIpv4RecvTask where "udpIpv4RecvTask = udpRecvTask IPv4"
definition comm_udpIpv4Init where "comm_udpIpv4Init = udpInit IPv4"
definition comm_udpIpv4Uninit where "comm_udpIpv4Uninit = udpUninit"
definition comm_udpIpv4Send where "comm_udpIpv4Send net = udpSend net IPv4"
definition comm_udpIpv4Recv where "comm_udpIpv4Recv = udpRecv"
definition comm_udpIpv4GetAddr where "comm_udpIpv4GetAddr = udpGetAddr IPv4"

definition udpIpv6InitSocket where "udpIpv6InitSocket = udpInitSocket IPv6"
definition udpIpv6UninitSocket where "udpIpv6UninitSocket = udpUninitSocket"
definition udpIpv6RecvTask where "udpIpv6RecvTask = udpRecvTask IPv6"
definition comm_udpIpv6Init where "comm_udpIpv6Init = udpInit IPv6"
definition comm_udpIpv6Uninit where "comm_udpIpv6Uninit = udpUninit"
definition comm_udpIpv6Send where "comm_udpIpv6Send net = udpSend net IPv6"
definition comm_udpIpv6Recv where "comm_udpIpv6Recv = udpRecv"
definition comm_udpIpv6GetAddr where "comm_udpIpv6GetAddr = udpGetAddr IPv6"

lemmas udp_halves =
  udpIpv4InitSocket_def udpIpv4RecvTask_def comm_udpIpv4Init_def comm_udpIpv4Uninit_def
  comm_udpIpv4Send_def comm_udpIpv4Recv_def comm_udpIpv4GetAddr_def
  udpIpv6InitSocket_def udpIpv6UninitSocket_def udpIpv6RecvTask_def comm_udpIpv6Init_def
  comm_udpIpv6Uninit_def comm_udpIpv6Send_def comm_udpIpv6Recv_def comm_udpIpv6GetAddr_def

section \<open>Life cycle\<close>

definition udp_threads :: "udp_ctx \<Rightarrow> tid set" where
  "udp_threads c = (if pRecvFunc c = NULL then {} else {thread c})"

lemma udpInitSocket_rule:
  assumes "udpInitSocket v c s = (e, c', s')" "wf_world s"
  shows "quiet s s' \<and> wf_world s' \<and> heap s' = heap s \<and> threads s' = threads s \<and>
    (e \<noteq> 0 \<and> fds s' = fds s \<or>
     e = 0 \<and> 0 \<le> fd c' \<and> fd c' \<notin> fds s \<and> c' = c\<lparr>fd := fd c'\<rparr> \<and> fds s' = insert (fd c') (fds s))"
proof -
  obtain n s1 where 1: "sys_socket (af_of v) SOCK_DGRAM s = (n, s1)" by fastforce
  note w1 = sys_socket_rule [OF 1 assms(2)]
  show ?thesis
  proof (cases "n < 0")
    case True
    with assms(1) 1 w1 show ?thesis by (auto simp: udpInitSocket_def)
  next
    case False
    obtain r s2 where 2: "sys_bind n (localAddr c) s1 = (r, s2)" by fastforce
    from w1 have "wf_world s1" by simp
    note w2 = sys_bind_rule [OF 2 this]
    have q: "quiet s s2" using w1 w2 quiet_trans by blast
    show ?thesis
    proof (cases "r < 0")
      case True
      with assms(1) 1 2 False have "s' = sys_close n s2" "e = -1" by (simp_all add: udpInitSocket_def)
      with sys_close_rule [of s2 n] w1 w2 q False show ?thesis
        by (simp add: res_def) (metis quiet_trans)
    next
      case nf: False
      with assms(1) 1 2 False have "s' = s2" "e = 0" "c' = c\<lparr>fd := n\<rparr>"
        by (simp_all add: udpInitSocket_def)
      with w1 w2 q False show ?thesis by (simp add: res_def)
    qed
  qed
qed

lemma udpUninitSocket_rule:
  assumes "udpUninitSocket c s = (c', s')" "wf_world s"
  shows "quiet s s' \<and> wf_world s' \<and> heap s' = heap s \<and> threads s' = threads s \<and>
    fds s' = (if 0 < fd c then fds s - {fd c} else fds s) \<and> c' = c\<lparr>fd := fd c'\<rparr> \<and> fd c' \<le> 0"
  using assms sys_close_rule [of s "fd c"] by (auto simp: udpUninitSocket_def split: if_splits)

text \<open>Initialisation, on every branch: a failure gives everything back.\<close>

lemma udpInit_rule:
  assumes i: "udpInit v port f a s = (h, s')" and w: "wf_world s" and z: "0 \<in> fds s"
  shows "quiet s s' \<and> wf_world s' \<and>
    (case h of
       None \<Rightarrow> res s' = res s
     | Some (p, c) \<Rightarrow> p \<noteq> NULL \<and> p \<notin> heap s \<and> 0 < fd c \<and> fd c \<notin> fds s \<and>
         udp_threads c \<inter> threads s = {} \<and> fds s' = insert (fd c) (fds s) \<and>
         heap s' = insert p (heap s) \<and> threads s' = udp_threads c \<union> threads s \<and>
         pRecvFunc c = f \<and> pArg c = a \<and> localAddr c = any_addr v port \<and> recvMsg c = recv_buffer \<and>
         running c = (if f = NULL then 0 else 1))"
proof -
  let ?c0 = "udpNewContext v port f a"
  obtain p s1 where 1: "c_malloc s = (p, s1)" by fastforce
  note w1 = c_malloc_rule [OF 1 w]
  show ?thesis
  proof (cases "p = NULL")
    case True
    with i 1 w1 show ?thesis by (auto simp: udpInit_def res_def)
  next
    case p: False
    with w1 have p1: "p \<notin> heap s" "heap s1 = insert p (heap s)" by auto
    obtain e c s2 where 2: "udpInitSocket v ?c0 s1 = (e, c, s2)" by (metis prod_cases3)
    from w1 have "wf_world s1" by simp
    note w2 = udpInitSocket_rule [OF 2 this]
    have q2: "quiet s s2" using w1 w2 quiet_trans by blast
    have h2: "p \<in> heap s2" "heap s2 = insert p (heap s)" using p1 w2 by simp_all
    show ?thesis
    proof (cases "e = 0")
      case False
      with i 1 2 p have "h = None" "s' = c_free p s2" by (simp_all add: udpInit_def)
      with c_free_rule [OF _ h2(1)] w1 w2 h2 p1 q2 False show ?thesis
        by (simp add: res_def) (metis quiet_trans)
    next
      case e: True
      with w2 have c: "0 \<le> fd c" "fd c \<notin> fds s1" "c = ?c0\<lparr>fd := fd c\<rparr>"
        "fds s2 = insert (fd c) (fds s1)" by simp_all
      with w1 z have fd: "0 < fd c" "fd c \<notin> fds s" "fds s2 = insert (fd c) (fds s)"
        using order_le_less [of 0 "fd c"] by auto
      have fields: "pRecvFunc c = f" "pArg c = a" "localAddr c = any_addr v port"
        "recvMsg c = recv_buffer" "running c = 0" by (subst c(3), simp add: udpNewContext_def)+
      show ?thesis
      proof (cases "f = NULL")
        case True
        with i 1 2 p e have "h = Some (p, c)" "s' = s2" by (simp_all add: udpInit_def)
        with p p1 w1 w2 q2 h2 fd fields True show ?thesis by (simp add: udp_threads_def)
      next
        case f: False
        obtain e3 t s3 where 3: "pthread_create False s2 = (e3, t, s3)" by (metis prod_cases3)
        from w2 have "wf_world s2" by simp
        note w3 = pthread_create_rule [OF 3 this]
        have q3: "quiet s s3" using q2 w3 quiet_trans by blast
        let ?c = "c\<lparr>running := 1, thread := t\<rparr>"
        show ?thesis
        proof (cases "e3 = 0")
          case True
          with i 1 2 3 p e f have "h = Some (p, ?c)" "s' = s3" by (simp_all add: udpInit_def)
          with True f p p1 w1 w2 w3 q3 h2 fd fields show ?thesis by (simp add: udp_threads_def)
        next
          case False
          obtain c4 s4 where 4: "udpUninitSocket ?c s3 = (c4, s4)" by fastforce
          from w3 have "wf_world s3" by simp
          note w4 = udpUninitSocket_rule [OF 4 this]
          have q4: "quiet s s4" using q3 w4 quiet_trans by blast
          have h4: "p \<in> heap s4" using h2 w3 w4 by simp
          from i 1 2 3 4 p e f False have "h = None" "s' = c_free p s4" by (simp_all add: udpInit_def)
          moreover have "quiet s (c_free p s4)" using q4 c_free_rule [OF _ h4] w4 quiet_trans by blast
          ultimately show ?thesis
            using c_free_rule [OF _ h4] w1 w2 w3 w4 False h2 p1 fd by (simp add: res_def)
        qed
      qed
    qed
  qed
qed

lemma udpUninit_rule:
  assumes w: "wf_world s" and p: "p \<in> heap s"
  shows "wf_world (udpUninit (Some (p, c)) s) \<and> faults (udpUninit (Some (p, c)) s) = faults s \<and>
    calls (udpUninit (Some (p, c)) s) = calls s \<and>
    fds (udpUninit (Some (p, c)) s) = (if 0 < fd c then fds s - {fd c} else fds s) \<and>
    heap (udpUninit (Some (p, c)) s) = heap s - {p} \<and>
    threads (udpUninit (Some (p, c)) s) = threads s - udp_threads c"
proof -
  obtain s1 where s1: "s1 = (if pRecvFunc c \<noteq> NULL then pthread_cancel (thread c) s else s)" by simp
  note w1 = cancel_if_rule [OF s1 w]
  obtain c2 s2 where 2: "udpUninitSocket (c\<lparr>running := 0\<rparr>) s1 = (c2, s2)" by fastforce
  from w1 have "wf_world s1" by simp
  note w2 = udpUninitSocket_rule [OF 2 this]
  then have "c2 = c\<lparr>running := 0, fd := fd c2\<rparr>" by simp
  then have c2: "pRecvFunc c2 = pRecvFunc c" "thread c2 = thread c" by (metis udp_ctx.select_convs udp_ctx.surjective udp_ctx.update_convs)+
  obtain s3 where s3: "s3 = (if pRecvFunc c \<noteq> NULL then pthread_join (thread c) s2 else s2)" by simp
  from w2 have "wf_world s2" by simp
  note w3 = join_if_rule [OF s3 this]
  have "p \<in> heap s3" using w1 w2 w3 p by simp
  with c_free_rule [of s3 p] w3 have f: "quiet s3 (c_free p s3)" "wf_world (c_free p s3)"
    "fds (c_free p s3) = fds s3" "heap (c_free p s3) = heap s3 - {p}" "threads (c_free p s3) = threads s3"
    by simp_all
  have "udpUninit (Some (p, c)) s = c_free p s3"
    by (simp only: udpUninit_def option.case prod.case Let_def s1 [symmetric] 2 c2 s3 [symmetric])
  with f w1 w2 w3 show ?thesis by (simp add: quiet_def udp_threads_def)
qed

interpretation udp: endpoint "\<lambda>(port, f, a). udpInit v port f a" udpUninit fd udp_threads for v
proof
  fix x :: "u16 \<times> fptr \<times> addr" and s s' :: "'a world"
  obtain port f a where x: "x = (port, f, a)" by (metis prod_cases3)
  show "quiet s s' \<and> wf_world s' \<and> res s' = res s"
    if "(case x of (port, f, a) \<Rightarrow> udpInit v port f a) s = (None, s')" "wf_world s" "0 \<in> fds s"
    using udpInit_rule [of v port f a s None s'] that by (simp add: x)
  show "quiet s s' \<and> wf_world s' \<and> p \<noteq> NULL \<and> p \<notin> heap s \<and> 0 < fd c \<and> fd c \<notin> fds s \<and>
      udp_threads c \<inter> threads s = {} \<and> fds s' = insert (fd c) (fds s) \<and>
      heap s' = insert p (heap s) \<and> threads s' = udp_threads c \<union> threads s"
    if "(case x of (port, f, a) \<Rightarrow> udpInit v port f a) s = (Some (p, c), s')" "wf_world s" "0 \<in> fds s"
    for p c using udpInit_rule [of v port f a s "Some (p, c)" s'] that by (simp add: x)
  show "udpUninit None s = s" by (simp add: udpUninit_def)
  show "wf_world (udpUninit (Some (p, c)) s) \<and> faults (udpUninit (Some (p, c)) s) = faults s \<and>
      fds (udpUninit (Some (p, c)) s) = (if 0 < fd c then fds s - {fd c} else fds s) \<and>
      heap (udpUninit (Some (p, c)) s) = heap s - {p} \<and>
      threads (udpUninit (Some (p, c)) s) = threads s - udp_threads c"
    if "wf_world s" "p \<in> heap s" for p c
    using udpUninit_rule [OF that, of c] by simp
qed

section \<open>The receive thread\<close>

text \<open>What the loop reads of the context, and the call that hands it over.\<close>

definition udp_key :: "udp_ctx \<times> sockaddr \<times> 'a world \<Rightarrow> int \<times> fptr \<times> addr" where
  "udp_key st = (case st of (c, a, s) \<Rightarrow> (fd c, pRecvFunc c, pArg c))"

definition udp_ready :: "tid \<Rightarrow> udp_ctx \<times> sockaddr \<times> 'a world \<Rightarrow> bool" where
  "udp_ready t st = (case st of (c, a, s) \<Rightarrow>
     running c \<noteq> 0 \<and> pRecvFunc c \<noteq> NULL \<and> fd c \<in> fds s \<and> t \<notin> cancels s)"

fun datagram_call :: "int \<times> fptr \<times> addr \<Rightarrow> reply \<Rightarrow> callback" where
  "datagram_call (n, f, a) (Data bs src) =
     RecvFromCb f a (take COMM_BUF_SIZE bs) (word_of_nat (length (take COMM_BUF_SIZE bs))) src"
| "datagram_call (n, f, a) _ = RecvFromCb f a [] 0 (Sockaddr_in 0 0)"

definition after_recv :: "int \<times> 'k \<Rightarrow> 'a world \<Rightarrow> 'a world" where
  "after_recv k s = (case sys_recvfrom (fst k) COMM_BUF_SIZE s of (len, bs, src, s') \<Rightarrow> s')"

interpretation udp_thread: recv_loop "\<lambda>(pContext, recvAddr, s). running pContext \<noteq> 0"
  "udpRecvBody (pure_app f) t" "\<lambda>(c, a, s). s" udp_key "udp_ready t" payload "\<lambda>k r. [datagram_call k r]" f after_recv
  "\<lambda>k st. udp_key st = k"
  for f t
proof
  fix st :: "udp_ctx \<times> sockaddr \<times> 'a world"
  obtain c a s where st: "st = (c, a, s)" by (metis prod_cases3)
  assume r: "udp_ready t st"
  then show "case st of (pContext, recvAddr, s) \<Rightarrow> running pContext \<noteq> 0"
    by (simp add: st udp_ready_def)
  show "\<exists>st'. udpRecvBody (pure_app f) t st = (Next, st') \<and> udp_ready t st' \<and> udp_key st' = udp_key st \<and>
      (case st' of (c, a, s) \<Rightarrow> s) =
        deliver f [datagram_call (udp_key st) r] ((case st of (c, a, s) \<Rightarrow> s)\<lparr>script := rs\<rparr>)"
    if e: "script (case st of (c, a, s) \<Rightarrow> s) = r # rs" and g: "payload r" for r rs
  proof -
    obtain bs src where d: "r = Data bs src" "bs \<noteq> []" using g by (cases r) auto
    then have "take COMM_BUF_SIZE bs \<noteq> []" by (simp add: COMM_BUF_SIZE_def)
    then show ?thesis
      using r e d by (simp add: st udp_ready_def udpRecvBody_def udp_key_def pthread_testcancel_def
          sys_recvfrom_def pop_def Let_def invoke_deliver)
  qed
  show "\<exists>st'. udpRecvBody (pure_app f) t st = (Break, st') \<and> udp_key st' = udp_key st \<and>
      (case st' of (c, a, s) \<Rightarrow> s) = after_recv (udp_key st) (case st of (c, a, s) \<Rightarrow> s)"
    if e: "takeWhile payload (script (case st of (c, a, s) \<Rightarrow> s)) = []"
  proof -
    obtain len bs src s' where u: "sys_recvfrom (fd c) COMM_BUF_SIZE s = (len, bs, src, s')"
      by (metis prod_cases4)
    have "len \<le> 0"
      using u e by (auto simp: st sys_recvfrom_def pop_def split: list.splits reply.splits if_splits)
    with u r show ?thesis
      by (simp add: st udp_ready_def udpRecvBody_def udp_key_def pthread_testcancel_def after_recv_def Let_def)
  qed
qed

lemma after_recv_rule:
  assumes "fst k \<in> fds s"
  shows "calls (after_recv k s) = calls s \<and> app (after_recv k s) = app s \<and>
    script (after_recv k s) = tl (script s) \<and> threads (after_recv k s) = threads s \<and>
    fds (after_recv k s) = fds s \<and> faults (after_recv k s) = faults s"
  using assms by (auto simp: after_recv_def sys_recvfrom_def pop_def split: list.splits reply.splits)

section \<open>Properties\<close>

text \<open>
  C23. Any number of UDP sockets, over either IP version, with or without receive threads,
  opened one after the other (some may fail to open) and closed in any order, leave the
  process with exactly the descriptors, heap blocks and threads it started with, and no
  invalid \<^verbatim>\<open>free\<close>. Standard input is assumed open.
\<close>

theorem udp_sessions_leave_nothing:
  assumes "open_all (\<lambda>(port, f, a). udpInit v port f a) xs s = (hs, s1)" "mset hs' = mset hs"
    "wf_world s" "0 \<in> fds s"
  shows "res (close_all udpUninit hs' s1) = res s \<and> faults (close_all udpUninit hs' s1) = faults s"
  using udp.sessions [OF assms] by simp

theorem udp_sessions_leave_nothing_witness:
  "\<exists>h1 h2 s1. open_all (\<lambda>(port, f, a). udpInit IPv4 port f a) [(7, 0, 0), (8, 1, 0), (9, 2, 0)]
      (boot () [Done, Val 5, Done, Done, Val 6, Fail 98, Done, Val 7, Done, Done]) = ([Some h1, None, Some h2], s1) \<and>
     res (close_all udpUninit [None, Some h2, Some h1] s1) = res (boot () [])"
proof -
  let ?s = "boot () [Done, Val 5, Done, Done, Val 6, Fail 98, Done, Val 7, Done, Done]"
  obtain h1 h2 s1 where o: "open_all (\<lambda>(port, f, a). udpInit IPv4 port f a)
      [(7, 0, 0), (8, 1, 0), (9, 2, 0)] ?s = ([Some h1, None, Some h2], s1)"
    by (simp add: udpInit_def udpInitSocket_def udpNewContext_def posix_eval)
  have "mset [None, Some h2, Some h1] = mset [Some h1, None, Some h2]" by simp
  from udp_sessions_leave_nothing [OF o this] have
    "res (close_all udpUninit [None, Some h2, Some h1] s1) = res ?s" by simp
  with o show ?thesis by (auto simp: res_def)
qed

text \<open>
  C24. The receive thread ends however often the kernel delivers data, and has by then called
  the receive callback once for each datagram of the longest prefix of non-empty datagrams,
  in order, with at most 8191 bytes, the exact byte count and the sender's address; it leaves
  \<open>running\<close> cleared and the descriptor open.
\<close>

theorem udp_thread_delivers:
  assumes "running c \<noteq> 0" "pRecvFunc c \<noteq> NULL" "fd c \<in> fds s" "t \<notin> cancels s"
  shows "\<exists>c' s'. udpRecvTask v (pure_app f) t c s = Some (c', s') \<and> running c' = 0 \<and>
    calls s' = calls s @ map (datagram_call (fd c, pRecvFunc c, pArg c)) (takeWhile payload (script s)) \<and>
    app s' = fold f (map (datagram_call (fd c, pRecvFunc c, pArg c)) (takeWhile payload (script s))) (app s) \<and>
    script s' = tl (dropWhile payload (script s)) \<and>
    threads s' = threads s - {t} \<and> fds s' = fds s \<and> faults s' = faults s"
proof -
  let ?st = "(c, zero_addr v, s)"
  have r: "udp_ready t ?st" using assms by (simp add: udp_ready_def)
  obtain c1 a1 s1 where run: "c_while (\<lambda>(pContext, recvAddr, s). running pContext \<noteq> 0)
      (udpRecvBody (pure_app f) t) ?st = Some (False, c1, a1, s1)"
    and w: "s1 = after_recv (udp_key ?st)
      (deliver f (map (datagram_call (udp_key ?st)) (takeWhile payload (script s)))
        (s\<lparr>script := dropWhile payload (script s)\<rparr>))"
    using udp_thread.run [OF r, of f] by (auto simp: concat_map_singleton)
  let ?s = "deliver f (map (datagram_call (udp_key ?st)) (takeWhile payload (script s)))
        (s\<lparr>script := dropWhile payload (script s)\<rparr>)"
  have "calls s1 = calls ?s \<and> app s1 = app ?s \<and> script s1 = tl (script ?s) \<and>
      threads s1 = threads ?s \<and> fds s1 = fds ?s \<and> faults s1 = faults ?s"
    using after_recv_rule [of "udp_key ?st" ?s] assms(3) w by (simp add: udp_key_def)
  with run show ?thesis by (simp add: udpRecvTask_def udp_key_def pthread_exit_def)
qed

text \<open>A context whose thread 4 runs on descriptor 0, for the examples.\<close>

definition sample_udp :: udp_ctx where
  "sample_udp = \<lparr>localAddr = Sockaddr_in 0 0, fd = 0, pRecvFunc = 9, pArg = 3, thread = 4,
     running = 1, recvMsg = []\<rparr>"

theorem udp_thread_delivers_witness:
  "\<exists>c' s'. udpRecvTask IPv4 (pure_app (\<lambda>c n. n + (1::nat))) 4
      sample_udp
      (boot 0 [Data [1, 2] (Sockaddr_in 1 1), Data [3] (Sockaddr_in 2 2), Fail 4]) = Some (c', s') \<and> running c' = 0 \<and> app s' = 2 \<and>
    calls s' = [RecvFromCb 9 3 [1, 2] 2 (Sockaddr_in 1 1), RecvFromCb 9 3 [3] 1 (Sockaddr_in 2 2)]"
  using udp_thread_delivers [of "sample_udp" "boot 0 [Data [1, 2] (Sockaddr_in 1 1), Data [3] (Sockaddr_in 2 2), Fail 4]" 4 IPv4
      "\<lambda>c n. n + (1::nat)"]
  by (auto simp: COMM_BUF_SIZE_def sample_udp_def)

text \<open>
  An empty datagram, which UDP allows, ends the receive thread: whatever the kernel would
  deliver after it is never read, although the socket stays open.
\<close>

theorem udp_empty_datagram_ends_thread:
  assumes "running c \<noteq> 0" "fd c \<in> fds s" "t \<notin> cancels s" "script s = Data [] src # rs"
  shows "\<exists>c' s'. udpRecvTask v cb t c s = Some (c', s') \<and> running c' = 0 \<and>
    calls s' = calls s \<and> script s' = rs \<and> fd c \<in> fds s'"
proof -
  have "udpRecvBody cb t (c, zero_addr v, s) =
      (Break, c\<lparr>recvMsg := fill (recvMsg c) []\<rparr>, src, s\<lparr>script := rs\<rparr>)"
    using assms by (simp add: udpRecvBody_def pthread_testcancel_def sys_recvfrom_def pop_def)
  then show ?thesis
    using assms by (simp add: udpRecvTask_def c_while_break pthread_exit_def)
qed

theorem udp_empty_datagram_ends_thread_witness:
  "\<exists>c' s'. udpRecvTask IPv6 (pure_app (\<lambda>c n. n + (1::nat))) 4
      sample_udp
      (boot 0 [Data [] (Sockaddr_in 1 1), Data [3] (Sockaddr_in 1 1)]) = Some (c', s') \<and> running c' = 0 \<and>
    calls s' = [] \<and> script s' = [Data [3] (Sockaddr_in 1 1)] \<and> 0 \<in> fds s'"
  using udp_empty_datagram_ends_thread [of "sample_udp" "boot 0 [Data [] (Sockaddr_in 1 1), Data [3] (Sockaddr_in 1 1)]"
      4 "Sockaddr_in 1 1" "[Data [3] (Sockaddr_in 1 1)]" IPv6 "pure_app (\<lambda>c n. n + (1::nat))"]
  by (simp add: sample_udp_def)

text \<open>
  C25. The receive thread ends for every application whose callbacks do not make the kernel
  answer more often, whatever else they do (also cancelling the thread they run on).
\<close>

theorem udp_thread_ends:
  assumes "frugal cb"
  shows "\<exists>c' s'. udpRecvTask v cb t c s = Some (c', s') \<and> t \<notin> threads s'"
proof -
  have "length (script (case st' of (c, a, s) \<Rightarrow> s)) < length (script (case st of (c, a, s) \<Rightarrow> s))"
    if b: "udpRecvBody cb t st = (Next, st')" for st st' :: "udp_ctx \<times> sockaddr \<times> 'a world"
  proof -
    obtain c a s where st: "st = (c, a, s)" by (metis prod_cases3)
    obtain len bs src s1 where u: "sys_recvfrom (fd c) COMM_BUF_SIZE s = (len, bs, src, s1)"
      by (metis prod_cases4)
    have "0 < len \<Longrightarrow> length (script s1) < length (script s)"
      using u by (auto simp: sys_recvfrom_def pop_def split: list.splits reply.splits if_splits)
    with b frugal_invoke [OF assms] show ?thesis
      by (auto simp: st udpRecvBody_def u Let_def split: if_splits intro: le_less_trans)
  qed
  from c_while_consumes [of "udpRecvBody cb t" "\<lambda>(c, a, s). s", OF this]
  obtain r where r: "c_while (\<lambda>(pContext, recvAddr, s). running pContext \<noteq> 0) (udpRecvBody cb t)
      (c, zero_addr v, s) = Some r" by blast
  obtain d c1 a1 s1 where "r = (d, c1, a1, s1)" by (metis prod_cases4)
  with r show ?thesis by (simp add: udpRecvTask_def pthread_exit_def)
qed

theorem udp_thread_ends_witness:
  "\<exists>c' s'. udpRecvTask IPv4 (pure_app (\<lambda>c n. n + (1::nat))) 0 sample_udp (boot 0 [Data [1] (Sockaddr_in 1 1)]) = Some (c', s') \<and>
    0 \<notin> threads s'"
  by (rule udp_thread_ends [OF frugal_pure])

text \<open>
  What a successful initialisation asks of the kernel: one datagram socket of the right
  family, bound to the wildcard address and the given port in network byte order, and a
  joinable receive thread exactly when the application gave a callback.
\<close>

theorem udp_init_calls:
  assumes "udpInit v portNum recvFunc arg s = (Some (p, c), s')"
  shows "trace s' = trace s @ [ESocket (af_of v) SOCK_DGRAM (fd c), EBind (fd c) (any_addr v portNum)] @
    (if recvFunc = NULL then [] else [ECreate (thread c) False])"
proof -
  have m: "\<And>s p s'. c_malloc s = (p, s') \<Longrightarrow> trace s' = trace s"
    by (auto simp: c_malloc_def pop_def split: list.splits reply.splits)
  have n: "\<And>s n s'. new_fd s = (n, s') \<Longrightarrow> trace s' = trace s"
    by (auto simp: new_fd_def pop_def split: list.splits reply.splits if_splits)
  have st: "\<And>n s r s'. status n s = (r, s') \<Longrightarrow> trace s' = trace s"
    by (auto simp: status_def pop_def split: list.splits reply.splits if_splits)
  have b: "trace s' = trace s @ [EBind n (any_addr v portNum)]"
    if "sys_bind n (any_addr v portNum) s = (r, s')" "\<not> r < 0" for n s r and s' :: "'a world"
    using that st by (cases v) (auto simp: sys_bind_def Let_def split: prod.splits if_splits)
  have c: "trace s' = trace s @ [ECreate t d]"
    if "pthread_create d s = (0, t, s')" for d s t and s' :: "'a world"
    using that by (auto simp: pthread_create_def pop_def EAGAIN_def split: list.splits reply.splits if_splits)
  have i: "trace s' = trace s @ [ESocket (af_of v) SOCK_DGRAM (fd c), EBind (fd c) (any_addr v portNum)]"
    if "udpInitSocket v (udpNewContext v portNum f arg) s = (0, c, s')" for f s c and s' :: "'a world"
    using that by (auto simp: udpInitSocket_def Let_def sys_socket_def udpNewContext_def
        dest!: n b split: prod.splits if_splits)
  from assms show ?thesis
    by (auto simp: udpInit_def Let_def dest!: m i c split: prod.splits if_splits)
qed

theorem udp_init_calls_witness:
  "\<exists>p c s'. udpInit IPv4 0x1234 9 0 (boot () [Done, Val 5, Done, Done]) = (Some (p, c), s') \<and>
    trace s' = [ESocket AF_INET SOCK_DGRAM 5, EBind 5 (Sockaddr_in 0x3412 0), ECreate 1 False]"
proof -
  obtain p c s' where i: "udpInit IPv4 0x1234 9 0 (boot () [Done, Val 5, Done, Done]) = (Some (p, c), s')"
    and c: "fd c = 5" "thread c = 1"
    by (simp add: udpInit_def udpInitSocket_def udpNewContext_def posix_eval)
  with udp_init_calls [OF i] c show ?thesis
    by (simp add: htons_def htonl_def INADDR_ANY_def)
qed

text \<open>
  A send hands the kernel at most one datagram: either nothing is sent and -1 returned, or
  the handle is valid with an open socket, the buffer is not null and the size not 0, and the
  first \<open>r\<close> bytes of the buffer (\<open>r\<close> the value returned, at most the given size) go to the given
  address. It touches no descriptor, heap block or thread.
\<close>

theorem udp_send_effect:
  assumes "udpSend net v handle ip port pData n s = (r, s')"
  shows "quiet s s' \<and> res s' = res s \<and>
    (r = -1 \<and> trace s' = trace s \<or>
     (\<exists>p c bs. handle = Some (p, c) \<and> 0 \<le> fd c \<and> pData = Some bs \<and> n \<noteq> 0 \<and>
        0 \<le> r \<and> nat r \<le> unat n \<and>
        trace s' = trace s @ [ESend (fd c) (take (nat r) bs) (Some (dest_addr net v ip port))]))"
proof (cases "\<exists>p c bs. handle = Some (p, c) \<and> 0 \<le> fd c \<and> pData = Some bs \<and> n \<noteq> 0")
  case False
  with assms show ?thesis
    by (auto simp: udpSend_def not_less split: option.splits if_splits)
next
  case True
  then obtain p c bs where h: "handle = Some (p, c)" "0 \<le> fd c" "pData = Some bs" "n \<noteq> 0" by blast
  from assms h have "sys_sendto (fd c) (take (unat n) bs) (Some (dest_addr net v ip port)) s = (r, s')"
    by (simp add: udpSend_def)
  from sys_sendto_prefix [OF this] h show ?thesis by auto
qed

theorem udp_send_effect_witness:
  "\<exists>r s'. udpSend \<lparr>inet_addr = (\<lambda>_. 7), inet_pton6 = (\<lambda>_. None)\<rparr> IPv4 (Some (1, sample_udp)) ''::1'' 80
      (Some [1, 2, 3]) 2 (boot () [Val 2]) = (r, s') \<and> res s' = res (boot () [Val 2]) \<and>
    r = 2 \<and> trace s' = [ESend 0 [1, 2] (Some (Sockaddr_in (htons 80) 7))]"
proof -
  obtain r s' where e: "udpSend \<lparr>inet_addr = (\<lambda>_. 7), inet_pton6 = (\<lambda>_. None)\<rparr> IPv4 (Some (1, sample_udp))
      ''::1'' 80 (Some [1, 2, 3]) 2 (boot () [Val 2]) = (r, s')" and r: "r = 2"
    by (simp add: udpSend_def sample_udp_def posix_eval)
  from udp_send_effect [OF e] r e show ?thesis by (simp add: sample_udp_def)
qed

text \<open>
  Receiving by hand: refused with -1 when the handle has a receive thread (or is null, or
  the buffer is), otherwise at most the given number of bytes are stored at the start of the
  buffer, the rest of the buffer is kept, and their number is returned.
\<close>

theorem udp_recv_effect:
  assumes "udpRecv handle pData n s = (r, pData', s')"
  shows "quiet s s' \<and> res s' = res s \<and> trace s' = trace s \<and>
    (r = -1 \<and> pData' = pData \<or>
     (\<exists>p c buf bs. handle = Some (p, c) \<and> pRecvFunc c = NULL \<and> pData = Some buf \<and>
        r = int (length bs) \<and> length bs \<le> unat n \<and> pData' = Some (bs @ drop (length bs) buf)))"
proof -
  have e: "quiet s s' \<and> res s' = res s \<and> trace s' = trace s \<and>
      (r = -1 \<and> bs = [] \<or> r = int (length bs) \<and> length bs \<le> unat n)"
    if "sys_recvfrom m (unat n) s = (r, bs, src, s')" for m bs src
    using that by (auto simp: sys_recvfrom_def pop_def quiet_def res_def
        split: list.splits reply.splits if_splits)
  show ?thesis
    using assms
    by (auto simp: udpRecv_def Let_def fill_def split: option.splits if_splits prod.splits dest!: e)
qed

theorem udp_recv_effect_witness:
  "\<exists>r b s'. udpRecv (Some (1, sample_udp\<lparr>pRecvFunc := NULL\<rparr>)) (Some [0, 0, 0]) 3
      (boot () [Data [7, 8] (Sockaddr_in 1 1)]) = (r, b, s') \<and> r = 2 \<and> b = Some [7, 8, 0] \<and> trace s' = []"
proof -
  obtain r b s' where e: "udpRecv (Some (1, sample_udp\<lparr>pRecvFunc := NULL\<rparr>)) (Some [0, 0, 0]) 3
      (boot () [Data [7, 8] (Sockaddr_in 1 1)]) = (r, b, s')" and r: "r = 2"
    by (simp add: udpRecv_def sample_udp_def posix_eval)
  from udp_recv_effect [OF e] r e show ?thesis
    by (auto simp: udpRecv_def sample_udp_def posix_eval fill_def)
qed

text \<open>The bytes of an IPv4 address as they lie in memory, lowest address first.\<close>

definition memory_bytes :: "u32 \<Rightarrow> u8 list" where
  "memory_bytes w = map (\<lambda>i. word_of_nat (unat w div 256 ^ i)) [0, 1, 2, 3]"

lemma byte_of: "ucast (drop_bit n (w :: u32) AND 0xFF) = (word_of_nat (unat w div 2 ^ n) :: u8)"
proof -
  have "drop_bit n w AND 0xFF = take_bit 8 (drop_bit n w)"
    by (simp add: take_bit_eq_mask mask_eq_exp_minus_1)
  then have "ucast (drop_bit n w AND 0xFF) = (ucast (take_bit 8 (drop_bit n w)) :: u8)" by simp
  also have "\<dots> = word_of_nat (unat (take_bit 8 (drop_bit n w)))"
    by simp
  also have "unat (take_bit 8 (drop_bit n w)) = unat w div 2 ^ n mod 256"
    using unat_u32_less [of w]
    by (simp only: unsigned_take_bit_eq unsigned_drop_bit_eq) (simp add: drop_bit_eq_div take_bit_eq_mod)
  also have "(word_of_nat (unat w div 2 ^ n mod 256) :: u8) = word_of_nat (unat w div 2 ^ n)"
    by (rule word_unat_eq_iff [THEN iffD2]) (simp add: unat_of_nat del: of_nat_div)
  finally show ?thesis .
qed

text \<open>Every 32-bit number has four digits to the base 256.\<close>

lemma digits256:
  assumes "(u::nat) < 4294967296"
  obtains a b c d where "u = a + 256 * (b + 256 * (c + 256 * d))" "a < 256" "b < 256" "c < 256" "d < 256"
proof
  let ?b = "u div 256" let ?c = "?b div 256" let ?d = "?c div 256"
  show "u = u mod 256 + 256 * (?b mod 256 + 256 * (?c mod 256 + 256 * ?d))"
    by (simp only: mod_mult_div_eq)
  show "?d < 256" using assms by (simp add: div_less_iff_less_mult)
qed simp_all

lemma ipv4_bytes_memory: "ipv4_bytes w = memory_bytes w"
proof -
  obtain a b c d where abcd: "unat w = a + 256 * (b + 256 * (c + 256 * d))" "a < 256" "b < 256" "c < 256" "d < 256"
    using digits256 [OF unat_u32_less [of w]] by blast
  have q: "(x + 256 * y) div 256 = y" "(x + 256 * y) mod 256 = x" if "x < 256" for x y :: nat
    using that by simp_all
  have p: "u div 65536 = u div 256 div 256" "u div 16777216 = u div 256 div 256 div 256" for u :: nat
    by (simp_all flip: div_mult2_eq)
  have e: "unat w mod 256 = a" "unat w div 256 = b + 256 * (c + 256 * d)" "unat w div 256 mod 256 = b"
    "unat w div 65536 = c + 256 * d" "unat w div 65536 mod 256 = c" "unat w div 16777216 = d"
    by (simp_all only: p abcd(1) q [OF abcd(2)] q [OF abcd(3)] q [OF abcd(4)])
  have l: "d + 256 * (c + 256 * (b + 256 * a)) < 4294967296" using abcd(2-5) by simp
  have pw: "(256::nat) ^ 3 = 16777216" "(256::nat) ^ 2 = 65536" by simp_all
  have n: "unat (htonl w) = d + 256 * (c + 256 * (b + 256 * a))"
  proof -
    have "htonl w = word_of_nat (a * 16777216 + b * 65536 + c * 256 + d)"
      by (simp only: htonl_def pw e q [OF abcd(3)] q [OF abcd(4)])
    moreover have "a * 16777216 + b * 65536 + c * 256 + d = d + 256 * (c + 256 * (b + 256 * a))" by simp
    ultimately show ?thesis using l by (simp only: unat_of_nat) simp
  qed
  have power_256: "(2::nat) ^ 24 = 16777216" "(2::nat) ^ 16 = 65536" "(2::nat) ^ 8 = 256" by simp_all
  have r: "unat (htonl w) div 2 ^ 24 = a" "unat (htonl w) div 2 ^ 16 = b + 256 * a"
    "unat (htonl w) div 2 ^ 8 = c + 256 * (b + 256 * a)"
    by (simp_all only: n power_256 p q [OF abcd(5)] q [OF abcd(4)] q [OF abcd(3)])
  have m: "(word_of_nat (x + 256 * y) :: u8) = word_of_nat x" if "x < 256" for x y
    by (rule word_unat_eq_iff [THEN iffD2]) (simp add: unat_of_nat del: of_nat_add of_nat_mult)
  have z: "ucast (htonl w AND 0xFF) = (word_of_nat (unat (htonl w)) :: u8)" using byte_of [of 0 "htonl w"] by simp
  have f: "(word_of_nat (unat w) :: u8) = word_of_nat a" by (simp only: abcd(1) m [OF abcd(2)])
  have "ipv4_bytes w = [word_of_nat a, word_of_nat b, word_of_nat c, word_of_nat d]"
    by (simp only: ipv4_bytes_def Let_def byte_of z r) (simp only: n m [OF abcd(3)] m [OF abcd(4)] m [OF abcd(5)])
  also have "\<dots> = memory_bytes w"
    by (simp only: memory_bytes_def list.map pw e power_0 power_one_right div_by_1 f
        m [OF abcd(3)] m [OF abcd(4)])
  finally show ?thesis .
qed

text \<open>The first interface of the given name and family decides, unless an entry before it has no address.\<close>

definition is_match :: "ipv \<Rightarrow> string \<Rightarrow> ifaddr \<Rightarrow> bool" where
  "is_match v name i \<longleftrightarrow> (\<exists>a. ifa_addr i = Some a \<and> sa_family a = af_of v) \<and> ifa_name i = name"

fun address_at :: "ipv \<Rightarrow> sockaddr \<Rightarrow> u8 list" where
  "address_at IPv4 a = memory_bytes (sin_addr a)"
| "address_at IPv6 a = take 16 (sin6_addr a)"

lemma addr_bytes_address: "addr_bytes v a = address_at v a"
  by (cases v) (simp_all add: ipv4_bytes_memory)

lemma walk_ifaddrs_find:
  "walk_ifaddrs v name ifs =
     (case find (\<lambda>i. ifa_addr i = None \<or> is_match v name i) ifs of
        None \<Rightarrow> Inr None
      | Some i \<Rightarrow> (case ifa_addr i of None \<Rightarrow> Inl Null_Deref | Some a \<Rightarrow> Inr (Some (address_at v a))))"
  by (induction ifs) (auto simp: is_match_def addr_bytes_address split: option.splits)

text \<open>
  C28. The local address: if every interface has an address, the result is 0 and the address of
  the first interface of that name and family, byte for byte as it lies in memory (network
  order), or -1 and zeros if there is none. An interface without an address (which
  \<^verbatim>\<open>getifaddrs\<close> reports, e.g. for some tunnels) before that one is a null pointer read.
\<close>

theorem udp_get_addr:
  "udpGetAddr v ifaddrs name =
    (case ifaddrs of
       None \<Rightarrow> Inr (-1, replicate (addr_size v) 0)
     | Some ifs \<Rightarrow>
        (case find (\<lambda>i. ifa_addr i = None \<or> is_match v name i) ifs of
           None \<Rightarrow> Inr (-1, replicate (addr_size v) 0)
         | Some i \<Rightarrow> (case ifa_addr i of
               None \<Rightarrow> Inl Null_Deref
             | Some a \<Rightarrow> Inr (0, address_at v a))))"
  by (simp add: udpGetAddr_def walk_ifaddrs_find split: option.split)

text \<open>
  A UDP socket that got descriptor 0 (standard input was closed) is never closed:
  un-initialisation tests the descriptor with \<^verbatim>\<open>fd > 0\<close>, frees the context and leaves the
  descriptor open. The witness gets there by \<open>udpInit\<close>.
\<close>

theorem udp_descriptor_0_leaks:
  assumes "wf_world s" "p \<in> heap s" "0 \<in> fds s" "fd c = 0"
  shows "0 \<in> fds (udpUninit (Some (p, c)) s) \<and> p \<notin> heap (udpUninit (Some (p, c)) s)"
  using udpUninit_rule [OF assms(1,2), of c] assms(3,4) by simp

theorem udp_descriptor_0_leaks_witness:
  "\<exists>p c s'. udpInit IPv4 80 0 0 ((boot () [Done, Val 0, Done])\<lparr>fds := {}\<rparr>) = (Some (p, c), s') \<and>
    fds (udpUninit (Some (p, c)) s') = {0}"
proof -
  obtain p c s' where i: "udpInit IPv4 80 0 0 ((boot () [Done, Val 0, Done])\<lparr>fds := {}\<rparr>) = (Some (p, c), s')"
    and s: "wf_world s'" "p \<in> heap s'" "0 \<in> fds s'" "fd c = 0" and f: "fds s' = {0}"
    by (simp add: udpInit_def udpInitSocket_def udpNewContext_def posix_eval wf_world_def)
  from udp_descriptor_0_leaks [OF s] have "0 \<in> fds (udpUninit (Some (p, c)) s')" by simp
  moreover have "fds (udpUninit (Some (p, c)) s') \<subseteq> {0}"
    using udpUninit_rule [OF s(1,2), of c] f s(4) by simp
  ultimately have "fds (udpUninit (Some (p, c)) s') = {0}" by (intro equalityI) simp_all
  with i show ?thesis by blast
qed

end
