(* ===== verification/Unix_Socket.thy ===== *)
theory Unix_Socket
  imports Comm_If
begin

text \<open>
  What \<^verbatim>\<open>comm_ipc_dgram.c\<close> and \<^verbatim>\<open>comm_ipc_stream.c\<close> share: opening a UNIX domain socket under a
  name, giving the name back, and reading the name of a peer out of a
  \<^verbatim>\<open>struct sockaddr_un\<close> the kernel fills.
\<close>

section \<open>Opening and closing\<close>

text \<open>The size of \<^verbatim>\<open>sun_path\<close>; a name has one character less.\<close>

definition SUN_PATH :: nat where
  "SUN_PATH = 108"

definition unixOpen :: "socktype \<Rightarrow> string \<Rightarrow> 'a world \<Rightarrow> int \<times> 'a world" where
  "unixOpen ty localPath s =
     (let s = sys_unlink localPath s;
          (n, s) = sys_socket AF_UNIX ty s in
      if n < 0 then (-1, s)
      else
        let (sun_path, s) = c_strcpy SUN_PATH localPath s;
            (r, s) = sys_bind n (Sockaddr_un sun_path) s in
        if r < 0 then (-1, sys_close n s) else (n, s))"

definition unixClose :: "int \<Rightarrow> string \<Rightarrow> 'a world \<Rightarrow> 'a world" where
  "unixClose n localPath s = sys_unlink localPath (if 0 < n then sys_close n s else s)"

lemma c_strcpy_fits: "length src < cap \<Longrightarrow> c_strcpy cap src s = (src, s)"
  by (simp add: c_strcpy_def)

lemma adds_unixOpen:
  assumes "adds s t F P T" "unixOpen ty path t = (n, u)" "length path < SUN_PATH"
  shows "n < 0 \<and> adds s u F P T \<and> files u = files t - {path} \<or>
    0 \<le> n \<and> n \<notin> F \<and> n \<notin> fds s \<and> adds s u (insert n F) P T \<and> files u = insert path (files t)"
proof -
  have a0: "adds s (sys_unlink path t) F P T" using adds_unlink [OF assms(1)] .
  then have w0: "wf_world (sys_unlink path t)" by (simp add: adds_def)
  have f0: "files (sys_unlink path t) = files t - {path}" using sys_unlink_rule [of t path] by simp
  obtain m t1 where 1: "sys_socket AF_UNIX ty (sys_unlink path t) = (m, t1)" by fastforce
  note a1 = adds_socket [OF a0 1]
  have f1: "files t1 = files t - {path}" using sys_socket_rule [OF 1 w0] f0 by simp
  show ?thesis
  proof (cases "m < 0")
    case True
    with a1 f1 assms(2) 1 show ?thesis by (auto simp: unixOpen_def)
  next
    case False
    with a1 have m: "0 \<le> m" "m \<notin> F" "m \<notin> fds s" "adds s t1 (insert m F) P T" by simp_all
    then have w1: "wf_world t1" by (simp add: adds_def)
    obtain r t2 where 2: "sys_bind m (Sockaddr_un path) t1 = (r, t2)" by fastforce
    have a2: "adds s t2 (insert m F) P T" using adds_bind [OF m(4) 2] .
    have f2: "r = 0 \<and> files t2 = insert path (files t) \<or> r < 0 \<and> files t2 = files t - {path}"
      using sys_bind_rule [OF 2 w1] f1 by (auto simp: socket_names_def)
    show ?thesis
    proof (cases "r < 0")
      case True
      have "adds s (sys_close m t2) F P T" using adds_close [OF a2, of m] m by simp
      moreover have "files (sys_close m t2) = files t2" using sys_close_rule [of t2 m] by simp
      ultimately show ?thesis
        using True f2 assms(2,3) 1 2 False by (auto simp: unixOpen_def c_strcpy_fits)
    next
      case nf: False
      with f2 a2 m assms(2,3) 1 2 False show ?thesis by (auto simp: unixOpen_def c_strcpy_fits)
    qed
  qed
qed

text \<open>A name that does not fit into \<^verbatim>\<open>sun_path\<close> overflows it.\<close>

lemma unixOpen_overflow:
  assumes "sys_socket AF_UNIX ty (sys_unlink path s) = (n, t)" "0 \<le> n" "SUN_PATH \<le> length path"
    "wf_world s" "unixOpen ty path s = (m, u)"
  shows "faults u = faults s @ [Buffer_Overflow SUN_PATH (length path)]"
proof -
  have w: "wf_world (sys_unlink path s)" using assms(4) sys_unlink_rule [of s path] by simp
  from sys_socket_rule [OF assms(1) w] sys_unlink_rule [of s path]
  have t: "wf_world t" "faults t = faults s" by (simp_all add: quiet_def)
  let ?t = "fault (Buffer_Overflow SUN_PATH (length path)) t"
  obtain r v where b: "sys_bind n (Sockaddr_un path) ?t = (r, v)" by fastforce
  have "wf_world ?t" using t by simp
  from sys_bind_rule [OF b this] t have v: "faults v = faults s @ [Buffer_Overflow SUN_PATH (length path)]"
    by (simp add: quiet_def)
  then have "faults (sys_close n v) = faults v" using sys_close_rule [of v n] by (simp add: quiet_def)
  with v b assms(1,2,3,5) show ?thesis
    by (auto simp: unixOpen_def c_strcpy_def Let_def split: if_splits)
qed

lemma unixClose_rule:
  "quiet s (unixClose n path s) \<and> (wf_world s \<longrightarrow> wf_world (unixClose n path s)) \<and>
   fds (unixClose n path s) = (if 0 < n then fds s - {n} else fds s) \<and>
   heap (unixClose n path s) = heap s \<and> threads (unixClose n path s) = threads s \<and>
   files (unixClose n path s) = files s - {path}"
  using sys_close_rule [of s n] sys_unlink_rule [of s path] sys_unlink_rule [of "sys_close n s" path]
    quiet_trans [of s "sys_close n s"]
  by (auto simp: unixClose_def res_def)

lemma adds_unixClose:
  assumes "adds s t F P T" "0 < n" "n \<in> F"
  shows "adds s (unixClose n path t) (F - {n}) P T"
  using adds_unlink [OF adds_close [OF assms(1,3)]] assms(2) by (simp add: unixClose_def)

section \<open>The name of a peer\<close>

text \<open>
  A receive or an accept stores the peer's address into a \<^verbatim>\<open>struct sockaddr_un\<close> of which it is
  told the size: it writes as many bytes as fit and sets the size to the full length of the
  address, which is that of the family (2 bytes), the name and its NUL; a peer without a name
  has no bytes of a name. \<open>name_buf\<close> is the \<^verbatim>\<open>sun_path\<close> array and the size; the code sets both
  once, before its loop.
\<close>

type_synonym name_buf = "string \<times> nat"

definition new_name :: name_buf where
  "new_name = (replicate SUN_PATH (CHR 0x00), SUN_PATH + 2)"

fun name_bytes :: "sockaddr \<Rightarrow> string" where
  "name_bytes (Sockaddr_un p) = (if p = [] then [] else p @ [CHR 0x00])"
| "name_bytes _ = []"

definition get_name :: "sockaddr option \<Rightarrow> name_buf \<Rightarrow> name_buf" where
  "get_name src nb = (case src of
       None \<Rightarrow> nb
     | Some a \<Rightarrow>
         let bytes = take (snd nb - 2) (name_bytes a)
         in (bytes @ drop (length bytes) (fst nb), 2 + length (name_bytes a)))"

text \<open>What the code reads: the characters up to the first NUL.\<close>

definition c_string :: "string \<Rightarrow> string" where
  "c_string buf = takeWhile (\<lambda>c. c \<noteq> CHR 0x00) buf"

definition peer_name :: "name_buf \<Rightarrow> string" where
  "peer_name nb = c_string (fst nb)"

text \<open>A name as a UNIX domain socket has it, and a buffer that ends in a NUL.\<close>

definition valid_name :: "string \<Rightarrow> bool" where
  "valid_name p \<longleftrightarrow> p \<noteq> [] \<and> CHR 0x00 \<notin> set p \<and> length p < SUN_PATH"

definition name_buf_ok :: "name_buf \<Rightarrow> bool" where
  "name_buf_ok nb \<longleftrightarrow> length (fst nb) = SUN_PATH \<and> fst nb ! (SUN_PATH - 1) = CHR 0x00"

lemma new_name_ok: "name_buf_ok new_name"
  by (simp add: name_buf_ok_def new_name_def SUN_PATH_def)

lemma get_name_ok:
  assumes "name_buf_ok nb" "valid_name p"
  shows "name_buf_ok (get_name (Some (Sockaddr_un p)) nb)"
proof -
  obtain b where b: "b = take (snd nb - 2) (p @ [CHR 0x00])" by simp
  have "length b \<le> length (p @ [CHR 0x00])" unfolding b by (simp only: length_take min.cobounded1)
  then have l: "length b \<le> SUN_PATH" using assms(2) by (simp add: valid_name_def)
  have "(b @ drop (length b) (fst nb)) ! (SUN_PATH - 1) = CHR 0x00"
  proof (cases "length b = SUN_PATH")
    case True
    then have "length p = SUN_PATH - 1" "b = p @ [CHR 0x00]"
      using assms(2) by (auto simp: b valid_name_def SUN_PATH_def)
    then show ?thesis by (simp add: nth_append)
  next
    case False
    with l have lt: "length b \<le> SUN_PATH - 1" by (simp add: SUN_PATH_def)
    then show ?thesis using assms(1) by (simp add: name_buf_ok_def nth_append SUN_PATH_def)
  qed
  moreover have "length (b @ drop (length b) (fst nb)) = SUN_PATH"
    using l assms(1) by (simp add: name_buf_ok_def)
  moreover have "fst (get_name (Some (Sockaddr_un p)) nb) = b @ drop (length b) (fst nb)"
    using assms(2) by (simp add: get_name_def valid_name_def Let_def b)
  ultimately show ?thesis by (simp add: name_buf_ok_def)
qed

lemma c_string_append:
  "CHR 0x00 \<notin> set p \<Longrightarrow> c_string (p @ CHR 0x00 # q) = p"
  by (auto simp: c_string_def takeWhile_append takeWhile_eq_all_conv)

text \<open>The name is right when it fits into the size left by the peer before.\<close>

lemma get_name_fits:
  assumes "valid_name p" "length p + 3 \<le> snd nb"
  shows "peer_name (get_name (Some (Sockaddr_un p)) nb) = p \<and>
    snd (get_name (Some (Sockaddr_un p)) nb) = length p + 3"
  using assms by (simp add: peer_name_def get_name_def valid_name_def Let_def c_string_append)

text \<open>Otherwise it is a prefix of the name, followed by what is left of longer names before.\<close>

lemma get_name_cut:
  assumes "valid_name p" "snd nb < length p + 3" "2 \<le> snd nb"
  shows "peer_name (get_name (Some (Sockaddr_un p)) nb) =
    take (snd nb - 2) p @ c_string (drop (snd nb - 2) (fst nb))"
proof -
  have l: "snd nb - 2 \<le> length p" using assms(2) by simp
  then have "fst (get_name (Some (Sockaddr_un p)) nb) = take (snd nb - 2) p @ drop (snd nb - 2) (fst nb)"
    using assms(1) by (simp add: get_name_def valid_name_def Let_def min_absorb2)
  moreover have "CHR 0x00 \<notin> set (take (snd nb - 2) p)" using assms(1) by (auto simp: valid_name_def dest: in_set_takeD)
  ultimately show ?thesis by (auto simp: peer_name_def c_string_def takeWhile_append)
qed

end
