(* ===== verification/Stream_Socket.thy ===== *)
theory Stream_Socket
  imports Unix_Socket Recv_Loop
begin

text \<open>
  What \<^verbatim>\<open>comm_tcp_client.c\<close>, \<^verbatim>\<open>comm_tcp_server.c\<close> and \<^verbatim>\<open>comm_ipc_stream.c\<close> share. These files
  hold five copies of the same code, over IPv4, IPv6 and UNIX domain stream sockets; what
  differs between the copies depends on the kind of the local address: how a socket is opened
  and closed, how an address is stored, and when a server's receive thread stops.
\<close>

section \<open>Opening and closing\<close>

definition tcpOpen :: "sockaddr \<Rightarrow> 'a world \<Rightarrow> int \<times> 'a world" where
  "tcpOpen bindAddr s =
     (let (n, s) = sys_socket (sa_family bindAddr) SOCK_STREAM s in
      if n < 0 then (-1, s)
      else
        let s = sys_setsockopt n ''SO_REUSEADDR'' s;
            (r, s) = sys_bind n bindAddr s in
        if r < 0 then (-1, sys_close n s) else (n, s))"

fun streamOpen :: "sockaddr \<Rightarrow> 'a world \<Rightarrow> int \<times> 'a world" where
  "streamOpen (Sockaddr_un localPath) s = unixOpen SOCK_STREAM localPath s"
| "streamOpen bindAddr s = tcpOpen bindAddr s"

fun streamClose :: "sockaddr \<Rightarrow> int \<Rightarrow> 'a world \<Rightarrow> 'a world" where
  "streamClose (Sockaddr_un localPath) n s = unixClose n localPath s"
| "streamClose bindAddr n s = (if 0 < n then sys_close n s else s)"

text \<open>Copying an address: a path goes through \<^verbatim>\<open>strcpy\<close> twice, into 256 bytes and into \<^verbatim>\<open>sun_path\<close>.\<close>

fun storeAddr :: "sockaddr \<Rightarrow> 'a world \<Rightarrow> 'a world" where
  "storeAddr (Sockaddr_un p) s = snd (c_strcpy SUN_PATH p (snd (c_strcpy 256 p s)))"
| "storeAddr a s = s"

text \<open>The receive threads of a server stop on an error, those of a TCP server also on an end of file.\<close>

fun is_unix :: "sockaddr \<Rightarrow> bool" where
  "is_unix (Sockaddr_un p) \<longleftrightarrow> True"
| "is_unix _ \<longleftrightarrow> False"

definition recv_stops :: "sockaddr \<Rightarrow> int \<Rightarrow> bool" where
  "recv_stops localAddr len \<longleftrightarrow> (if is_unix localAddr then len < 0 else len \<le> 0)"

definition server_good :: "sockaddr \<Rightarrow> reply \<Rightarrow> bool" where
  "server_good localAddr = (if is_unix localAddr then answered else payload)"

section \<open>Their rules\<close>

fun fits :: "sockaddr \<Rightarrow> bool" where
  "fits (Sockaddr_un p) \<longleftrightarrow> length p < SUN_PATH"
| "fits _ \<longleftrightarrow> True"

lemma fits_any [simp]: "fits (any_addr v port)"
  by (cases v) simp_all

lemma sa_family_any [simp]: "sa_family (any_addr v port) = af_of v"
  by (cases v) simp_all

lemma is_unix_any [simp]: "\<not> is_unix (any_addr v port)"
  by (cases v) simp_all

lemma storeAddr_fits: "fits a \<Longrightarrow> storeAddr a s = s"
  by (cases a) (simp_all add: c_strcpy_def SUN_PATH_def)

lemma storeAddr_sel:
  "fds (storeAddr a s) = fds s" "heap (storeAddr a s) = heap s" "threads (storeAddr a s) = threads s"
  "trace (storeAddr a s) = trace s" "script (storeAddr a s) = script s" "cancels (storeAddr a s) = cancels s"
  by (cases a; simp add: c_strcpy_def)+

lemma tcpOpen_adds:
  assumes "adds s t F P T" "tcpOpen a t = (n, u)"
  shows "n < 0 \<and> adds s u F P T \<or> 0 \<le> n \<and> n \<notin> F \<and> n \<notin> fds s \<and> adds s u (insert n F) P T"
proof -
  obtain m t1 where 1: "sys_socket (sa_family a) SOCK_STREAM t = (m, t1)" by fastforce
  note a1 = adds_socket [OF assms(1) 1]
  show ?thesis
  proof (cases "m < 0")
    case True
    with a1 assms(2) 1 show ?thesis by (auto simp: tcpOpen_def)
  next
    case False
    obtain r t2 where 2: "sys_bind m a (sys_setsockopt m ''SO_REUSEADDR'' t1) = (r, t2)" by fastforce
    from a1 False have a2: "adds s t2 (insert m F) P T" using adds_bind [OF adds_setsockopt 2] by simp
    show ?thesis
      using adds_close [OF a2, of m] a1 a2 False assms(2) by (auto simp: tcpOpen_def 1 2 split: if_splits)
  qed
qed

lemma streamOpen_adds:
  assumes "adds s t F P T" "streamOpen a t = (n, u)" "fits a"
  shows "n < 0 \<and> adds s u F P T \<or> 0 \<le> n \<and> n \<notin> F \<and> n \<notin> fds s \<and> adds s u (insert n F) P T"
proof (cases "is_unix a")
  case True
  then obtain p where "a = Sockaddr_un p" by (cases a) auto
  with assms(2,3) have "unixOpen SOCK_STREAM p t = (n, u)" "length p < SUN_PATH" by simp_all
  from adds_unixOpen [OF assms(1) this] show ?thesis by blast
next
  case False
  with assms(2) have "tcpOpen a t = (n, u)" by (cases a) auto
  from tcpOpen_adds [OF assms(1) this] show ?thesis .
qed

lemma streamClose_rule:
  assumes "wf_world s"
  shows "quiet s (streamClose a n s) \<and> wf_world (streamClose a n s) \<and> heap (streamClose a n s) = heap s \<and>
    threads (streamClose a n s) = threads s \<and> fds (streamClose a n s) = (if 0 < n then fds s - {n} else fds s)"
  using assms unixClose_rule [of s n] sys_close_rule [of s n] by (cases a) simp_all

lemma streamClose_adds:
  assumes "adds s t F P T" "0 < n" "n \<in> F"
  shows "adds s (streamClose a n t) (F - {n}) P T"
  using assms adds_close [OF assms(1,3)] adds_unixClose [OF assms] by (cases a) simp_all

text \<open>What a receive that goes on, and one that ends the loop, give.\<close>

lemma recv_good:
  assumes "n \<in> fds s" "script s = r # rs" "server_good a r"
  shows "sys_recv n COMM_BUF_SIZE s = (int (length (take COMM_BUF_SIZE (reply_data r))),
      take COMM_BUF_SIZE (reply_data r), s\<lparr>script := rs\<rparr>) \<and>
    \<not> recv_stops a (int (length (take COMM_BUF_SIZE (reply_data r))))"
proof -
  have "answered r" using assms(3) by (cases r) (auto simp: server_good_def split: if_splits)
  note x = sys_recvfrom_answered [OF assms(1,2) this, of COMM_BUF_SIZE]
  have "\<not> is_unix a \<Longrightarrow> reply_data r \<noteq> []" using assms(3) by (cases r) (auto simp: server_good_def)
  then show ?thesis unfolding sys_recv_def x by (auto simp: recv_stops_def COMM_BUF_SIZE_def)
qed

lemma recv_bad:
  assumes "sys_recv n COMM_BUF_SIZE s = (len, bs, s')" "n \<in> fds s" "takeWhile (server_good a) (script s) = []"
  shows "recv_stops a len \<and> bs = [] \<and> calls s' = calls s \<and> fds s' = fds s \<and> heap s' = heap s \<and>
    faults s' = faults s"
proof (cases "is_unix a")
  case True
  obtain src where u: "sys_recvfrom n COMM_BUF_SIZE s = (len, bs, src, s')"
    using assms(1) by (auto simp: sys_recv_def split: prod.splits)
  from True assms(3) have t: "takeWhile answered (script s) = []" by (simp add: server_good_def)
  from sys_recvfrom_unanswered [OF u assms(2) t] True show ?thesis by (simp add: recv_stops_def)
next
  case False
  with assms(3) have t: "takeWhile payload (script s) = []" by (simp add: server_good_def)
  from sys_recv_stop [OF assms(1,2) t] stop_code_le [OF t] False show ?thesis by (simp add: recv_stops_def)
qed

end
