(* ===== verification/Stream_Client.thy ===== *)
theory Stream_Client
  imports Stream_Socket
begin

text \<open>
  The stream client of \<^verbatim>\<open>source/comm_tcp_client.c\<close> (IPv4 and IPv6) and of
  \<^verbatim>\<open>source/comm_ipc_stream.c\<close> (UNIX domain): three copies of the same code, which differ in the
  kind of their addresses. Connecting starts a detached receive thread; the thread closes the
  descriptor and calls the application's exit callback when the server ends the connection.
  The text names the operations of the TCP copies; \<open>remoteAddr\<close> and \<open>localAddr\<close> are
  \<^verbatim>\<open>remotePath\<close> and \<^verbatim>\<open>localPath\<close> of the UNIX domain copy.
\<close>

section \<open>Context and socket\<close>

record stream_client_ctx =
  remoteAddr :: "sockaddr option"    \<comment> \<open>\<open>None\<close>: still zeroed\<close>
  localAddr :: sockaddr
  fd :: int
  pClientRecvFunc :: fptr
  pClientExitFunc :: fptr
  pClientArg :: addr
  thread :: tid
  running :: int
  recvMsg :: "u8 list"

definition streamInitClient :: "stream_client_ctx \<Rightarrow> 'a world \<Rightarrow> int \<times> stream_client_ctx \<times> 'a world" where
  "streamInitClient pContext s =
     (let (n, s) = streamOpen (localAddr pContext) s in
      if n < 0 then (-1, pContext, s) else (0, pContext\<lparr>fd := n\<rparr>, s))"

definition streamUninitClient :: "stream_client_ctx \<Rightarrow> 'a world \<Rightarrow> stream_client_ctx \<times> 'a world" where
  "streamUninitClient pContext s =
     (if 0 < fd pContext then pContext\<lparr>fd := -1\<rparr> else pContext, streamClose (localAddr pContext) (fd pContext) s)"

section \<open>The receive thread\<close>

definition streamClientRecvBody :: "'a application \<Rightarrow> tid \<Rightarrow> stream_client_ctx \<times> 'a world \<Rightarrow>
    flow \<times> stream_client_ctx \<times> 'a world" where
  "streamClientRecvBody cb t st = (case st of (pContext, s) \<Rightarrow>
     if pthread_testcancel t s then (Cancel, st)
     else
       let (len, bs, s) = sys_recv (fd pContext) COMM_BUF_SIZE s;
           pContext = pContext\<lparr>recvMsg := fill (recvMsg pContext) bs\<rparr>
       in if len \<le> 0
          then
            let s = sys_close (fd pContext) s;
                pContext = pContext\<lparr>fd := -1\<rparr>;
                s = (if pClientExitFunc pContext \<noteq> NULL
                     then invoke cb (ExitCb (pClientExitFunc pContext) (pClientArg pContext) len) s
                     else s)
            in (Break, pContext, s)
          else if pthread_testcancel t s then (Cancel, pContext, s)
          else (Next, pContext,
            if pClientRecvFunc pContext \<noteq> NULL
            then invoke cb (RecvCb (pClientRecvFunc pContext) (pClientArg pContext)
                   (take (nat len) (recvMsg pContext)) (word_of_int len)) s
            else s))"

definition streamClientRecvTask :: "'a application \<Rightarrow> tid \<Rightarrow> stream_client_ctx \<Rightarrow> 'a world \<Rightarrow>
    (stream_client_ctx \<times> 'a world) option" where
  "streamClientRecvTask cb t pContext s =
     map_option (\<lambda>(cancelled, pContext, s).
         (if cancelled then pContext else pContext\<lparr>running := 0\<rparr>, pthread_exit t s))
       (c_while (\<lambda>(pContext, s). running pContext \<noteq> 0) (streamClientRecvBody cb t) (pContext, s))"

section \<open>Life cycle\<close>

definition streamClientNewContext :: "sockaddr \<Rightarrow> fptr \<Rightarrow> fptr \<Rightarrow> addr \<Rightarrow> stream_client_ctx" where
  "streamClientNewContext addr recvFunc exitFunc arg =
     \<lparr>remoteAddr = None, localAddr = addr, fd = -1, pClientRecvFunc = recvFunc,
      pClientExitFunc = exitFunc, pClientArg = arg, thread = 0, running = 0, recvMsg = recv_buffer\<rparr>"

definition streamClientInit :: "sockaddr \<Rightarrow> fptr \<Rightarrow> fptr \<Rightarrow> addr \<Rightarrow> 'a world \<Rightarrow>
    stream_client_ctx handle \<times> 'a world" where
  "streamClientInit addr recvFunc exitFunc arg s =
     (let (p, s) = c_malloc s in
      if p = NULL then (None, s)
      else
        let (error, pContext, s) = streamInitClient (streamClientNewContext addr recvFunc exitFunc arg) s in
        if error \<noteq> 0 then (None, c_free p s)
        else (Some (p, pContext), s))"

definition streamClientUninit :: "stream_client_ctx handle \<Rightarrow> 'a world \<Rightarrow> 'a world" where
  "streamClientUninit handle s = (case handle of
       None \<Rightarrow> s
     | Some (p, pContext) \<Rightarrow>
         let (pContext, s) = (if running pContext \<noteq> 0
               then (pContext\<lparr>running := 0\<rparr>, pthread_cancel (thread pContext) s)
               else (pContext, s));
             (pContext, s) = streamUninitClient pContext s
         in c_free p s)"

section \<open>Connecting and sending\<close>

text \<open>
  Connecting returns the handle with the context it updated. The server's address has been read
  from the caller's text; a path is copied twice on the way.
\<close>

definition streamClientConnect :: "stream_client_ctx handle \<Rightarrow> sockaddr \<Rightarrow> 'a world \<Rightarrow>
    int \<times> stream_client_ctx handle \<times> 'a world" where
  "streamClientConnect handle servAddr s = (case handle of
       None \<Rightarrow> (-1, handle, s)
     | Some (p, pContext) \<Rightarrow>
         if fd pContext < 0 then (-1, handle, s)
         else
           let s = storeAddr servAddr s;
               pContext = pContext\<lparr>remoteAddr := Some servAddr\<rparr>;
               (error, s) = sys_connect (fd pContext) servAddr s in
           if error < 0 then (-1, Some (p, pContext), s)
           else
             let pContext = pContext\<lparr>running := 1\<rparr>;
                 (error, t, s) = pthread_create True s;
                 pContext = pContext\<lparr>thread := t\<rparr> in
             if error \<noteq> 0 then (-1, Some (p, pContext\<lparr>running := 0\<rparr>), s)
             else (0, Some (p, pContext), s))"

definition streamClientSend :: "stream_client_ctx handle \<Rightarrow> u8 list option \<Rightarrow> u16 \<Rightarrow> 'a world \<Rightarrow> int \<times> 'a world" where
  "streamClientSend handle pData dataSize s = (case handle of
       None \<Rightarrow> (-1, s)
     | Some (p, pContext) \<Rightarrow>
         if fd pContext < 0 then (-1, s)
         else (case pData of
             None \<Rightarrow> (-1, s)
           | Some bs \<Rightarrow>
               if dataSize = 0 then (-1, s)
               else sys_send (fd pContext) (take (unat dataSize) bs) s))"

section \<open>Life cycle\<close>

lemma streamInitClient_adds:
  assumes "streamInitClient c t = (e, c', u)" "adds s t F P T" "fits (localAddr c)"
  shows "e \<noteq> 0 \<and> adds s u F P T \<or>
    e = 0 \<and> 0 \<le> fd c' \<and> fd c' \<notin> F \<and> fd c' \<notin> fds s \<and> c' = c\<lparr>fd := fd c'\<rparr> \<and>
      adds s u (insert (fd c') F) P T"
proof -
  obtain n t1 where 1: "streamOpen (localAddr c) t = (n, t1)" by fastforce
  from streamOpen_adds [OF assms(2) 1 assms(3)] assms(1) show ?thesis
    by (auto simp: streamInitClient_def 1 split: if_splits)
qed

lemma streamUninitClient_rule:
  assumes "streamUninitClient c s = (c', s')" "wf_world s"
  shows "quiet s s' \<and> wf_world s' \<and> heap s' = heap s \<and> threads s' = threads s \<and>
    fds s' = (if 0 < fd c then fds s - {fd c} else fds s)"
  using assms streamClose_rule [OF assms(2), of "localAddr c" "fd c"] by (auto simp: streamUninitClient_def split: if_splits)

lemma streamClientInit_adds:
  assumes i: "streamClientInit la f x a s = (h, s')" and w: "wf_world s" and l: "fits la"
  shows "case h of None \<Rightarrow> adds s s' {} {} {}
    | Some (p, c) \<Rightarrow> p \<noteq> NULL \<and> p \<notin> heap s \<and> 0 \<le> fd c \<and> fd c \<notin> fds s \<and> adds s s' {fd c} {p} {} \<and>
        c = (streamClientNewContext la f x a)\<lparr>fd := fd c\<rparr>"
proof -
  obtain p s1 where 1: "c_malloc s = (p, s1)" by fastforce
  note a1 = adds_malloc [OF adds_refl [OF w] 1]
  show ?thesis
  proof (cases "p = NULL")
    case True
    with a1 i 1 show ?thesis by (auto simp: streamClientInit_def)
  next
    case False
    with a1 have p: "p \<notin> heap s" "adds s s1 {} {p} {}" by simp_all
    obtain e c s2 where 2: "streamInitClient (streamClientNewContext la f x a) s1 = (e, c, s2)"
      by (metis prod_cases3)
    have "fits (localAddr (streamClientNewContext la f x a))" using l by (simp add: streamClientNewContext_def)
    note a2 = streamInitClient_adds [OF 2 p(2) this]
    show ?thesis
    proof (cases "e = 0")
      case True
      with a2 i 1 2 False p show ?thesis by (auto simp: streamClientInit_def)
    next
      case e: False
      with a2 have "adds s s2 {} {p} {}" by simp
      from adds_free [OF this, of p] i 1 2 False e show ?thesis by (auto simp: streamClientInit_def)
    qed
  qed
qed

lemma streamClientUninit_rule:
  assumes w: "wf_world s" and p: "p \<in> heap s"
  shows "wf_world (streamClientUninit (Some (p, c)) s) \<and> faults (streamClientUninit (Some (p, c)) s) = faults s \<and>
    calls (streamClientUninit (Some (p, c)) s) = calls s \<and>
    fds (streamClientUninit (Some (p, c)) s) = (if 0 < fd c then fds s - {fd c} else fds s) \<and>
    heap (streamClientUninit (Some (p, c)) s) = heap s - {p} \<and>
    threads (streamClientUninit (Some (p, c)) s) = threads s"
proof -
  obtain s1 where s1: "s1 = (if running c \<noteq> 0 then pthread_cancel (thread c) s else s)" by simp
  note w1 = cancel_if_rule [OF s1 w]
  let ?c = "if running c \<noteq> 0 then c\<lparr>running := 0\<rparr> else c"
  obtain c2 s2 where 2: "streamUninitClient ?c s1 = (c2, s2)" by fastforce
  from w1 have "wf_world s1" by simp
  note w2 = streamUninitClient_rule [OF 2 this]
  have "streamClientUninit (Some (p, c)) s = c_free p s2"
    using 2 by (auto simp: streamClientUninit_def s1 split: if_splits)
  with c_free_rule [of s2 p] w1 w2 p show ?thesis by (simp add: quiet_def)
qed

interpretation stream_client: transport "\<lambda>(la, f, x, a). fits la" "\<lambda>(la, f, x, a). streamClientInit la f x a"
  streamClientUninit fd "\<lambda>_. {}" "\<lambda>_. {}" "\<lambda>_ _. True"
proof
  fix x :: "sockaddr \<times> fptr \<times> fptr \<times> addr" and s s' :: "'a world" and p c
  obtain la f e a where x: "x = (la, f, e, a)" by (metis prod_cases4)
  show "adds s s' {} {} {}"
    if "(case x of (la, f, x, a) \<Rightarrow> streamClientInit la f x a) s = (None, s')" "case x of (la, f, x, a) \<Rightarrow> fits la"
      "wf_world s" "0 \<in> fds s"
    using streamClientInit_adds [of la f e a s None s'] that by (simp add: x)
  show "0 < fd c \<and> True \<and> adds s s' {fd c} {p} {}"
    if "(case x of (la, f, x, a) \<Rightarrow> streamClientInit la f x a) s = (Some (p, c), s')"
      "case x of (la, f, x, a) \<Rightarrow> fits la" "wf_world s" "0 \<in> fds s"
    using streamClientInit_adds [of la f e a s "Some (p, c)" s'] that order_le_less [of 0 "fd c"]
    by (auto simp: x adds_def)
  show "streamClientUninit None s = s" by (simp add: streamClientUninit_def)
  show "wf_world (streamClientUninit (Some (p, c)) s) \<and> faults (streamClientUninit (Some (p, c)) s) = faults s \<and>
      fds (streamClientUninit (Some (p, c)) s) = (if 0 < fd c then fds s - {fd c} else fds s) \<and>
      heap (streamClientUninit (Some (p, c)) s) = heap s - {p} \<and>
      threads (streamClientUninit (Some (p, c)) s) = threads s - {}"
    if "wf_world s" "True" "{p} \<subseteq> heap s"
    using streamClientUninit_rule [of s p c] that by simp
qed

section \<open>The receive thread\<close>

definition client_key :: "stream_client_ctx \<times> 'a world \<Rightarrow> client_key" where
  "client_key st = (case st of (c, s) \<Rightarrow> (fd c, pClientRecvFunc c, pClientExitFunc c, pClientArg c))"

definition client_ready :: "tid \<Rightarrow> stream_client_ctx \<times> 'a world \<Rightarrow> bool" where
  "client_ready t st = (case st of (c, s) \<Rightarrow> running c \<noteq> 0 \<and> fd c \<in> fds s \<and> t \<notin> cancels s)"

interpretation stream_client_thread: recv_loop "\<lambda>(pContext, s). running pContext \<noteq> 0"
  "streamClientRecvBody (pure_app f) t" snd client_key "client_ready t" payload recv_calls f "hang_up f"
  "\<lambda>k st. client_key st = (-1, snd k)" for f t
proof
  fix st :: "stream_client_ctx \<times> 'a world"
  obtain c s where st: "st = (c, s)" by fastforce
  assume r: "client_ready t st"
  then show "case st of (pContext, s) \<Rightarrow> running pContext \<noteq> 0" by (simp add: st client_ready_def)
  show "\<exists>st'. streamClientRecvBody (pure_app f) t st = (Next, st') \<and> client_ready t st' \<and> client_key st' = client_key st \<and>
      snd st' = deliver f (recv_calls (client_key st) r) ((snd st)\<lparr>script := rs\<rparr>)"
    if e: "script (snd st) = r # rs" and g: "payload r" for r rs
  proof -
    obtain bs src where d: "r = Data bs src" "bs \<noteq> []" using g by (cases r) auto
    then have "take COMM_BUF_SIZE bs \<noteq> []" by (simp add: COMM_BUF_SIZE_def)
    then show ?thesis
      using r e d by (auto simp: st client_ready_def client_key_def streamClientRecvBody_def
          pthread_testcancel_def sys_recv_def sys_recvfrom_def pop_def Let_def invoke_deliver)
  qed
  show "\<exists>st'. streamClientRecvBody (pure_app f) t st = (Break, st') \<and>
      client_key st' = (-1, snd (client_key st)) \<and> snd st' = hang_up f (client_key st) (snd st)"
    if e: "takeWhile payload (script (snd st)) = []"
  proof -
    obtain len bs s' where u: "sys_recv (fd c) COMM_BUF_SIZE s = (len, bs, s')" by (metis prod_cases3)
    have "len \<le> 0" using sys_recv_stop [OF u] r e stop_code_le [OF e] by (auto simp: st client_ready_def)
    with u r show ?thesis
      by (auto simp: st client_ready_def client_key_def streamClientRecvBody_def pthread_testcancel_def hang_up_def
          Let_def invoke_deliver)
  qed
qed

section \<open>Properties\<close>

lemma streamClientRecvTask_run:
  assumes "running c \<noteq> 0" "fd c \<in> fds s" "t \<notin> cancels s"
  shows "\<exists>c' s'. streamClientRecvTask (pure_app f) t c s = Some (c', s') \<and> running c' = 0 \<and>
    client_key (c', s') = (-1, snd (client_key (c, s))) \<and>
    s' = pthread_exit t (hang_up f (client_key (c, s))
      (deliver f (concat (map (recv_calls (client_key (c, s))) (takeWhile payload (script s))))
        (s\<lparr>script := dropWhile payload (script s)\<rparr>)))"
proof -
  have r: "client_ready t (c, s)" using assms by (simp add: client_ready_def)
  from stream_client_thread.run [OF r, of f] obtain a b where
    "c_while (\<lambda>(pContext, s). running pContext \<noteq> 0) (streamClientRecvBody (pure_app f) t) (c, s) = Some (False, a, b)"
    "client_key (a, b) = (-1, snd (client_key (c, s)))"
    "b = hang_up f (client_key (c, s))
      (deliver f (concat (map (recv_calls (client_key (c, s))) (takeWhile payload (script s))))
        (s\<lparr>script := dropWhile payload (script s)\<rparr>))"
    by auto
  then show ?thesis
    by (intro exI [of _ "a\<lparr>running := 0\<rparr>"] exI [of _ "pthread_exit t b"])
      (simp add: streamClientRecvTask_def client_key_def)
qed

text \<open>
  C22. A stream client's receive thread ends however often the kernel delivers data. By then it
  has handed over the data of every receive, in order and with its exact size (at most 8191
  bytes), closed the descriptor, and called the exit callback exactly once, last, with 0 when
  the server ended the connection and -1 on an error.
\<close>

theorem stream_client_thread_delivers:
  assumes "running c \<noteq> 0" "fd c \<in> fds s" "t \<notin> cancels s"
  shows "\<exists>c' s'. streamClientRecvTask (pure_app f) t c s = Some (c', s') \<and> running c' = 0 \<and> fd c' = -1 \<and>
    calls s' = calls s @ concat (map (recv_calls (client_key (c, s))) (takeWhile payload (script s))) @
      exit_calls (client_key (c, s)) (stop_code (dropWhile payload (script s))) \<and>
    fds s' = fds s - {fd c} \<and> threads s' = threads s - {t} \<and> heap s' = heap s \<and> faults s' = faults s"
proof -
  let ?k = "client_key (c, s)"
  let ?s = "deliver f (concat (map (recv_calls ?k) (takeWhile payload (script s))))
    (s\<lparr>script := dropWhile payload (script s)\<rparr>)"
  obtain c' s' where run: "streamClientRecvTask (pure_app f) t c s = Some (c', s')" "running c' = 0"
    "client_key (c', s') = (-1, snd ?k)" "s' = pthread_exit t (hang_up f ?k ?s)"
    using streamClientRecvTask_run [OF assms] by blast
  have "fst ?k \<in> fds ?s" "takeWhile payload (script ?s) = []"
    using assms(2) by (simp_all add: client_key_def takeWhile_dropWhile_nil)
  from hang_up_rule [OF this, of f] run show ?thesis
    by (simp add: client_key_def pthread_exit_def)
qed

text \<open>A connected client with thread 4 on descriptor 5, for the examples.\<close>

definition sample_client :: stream_client_ctx where
  "sample_client = \<lparr>remoteAddr = None, localAddr = Sockaddr_in 0 0, fd = 5, pClientRecvFunc = 9,
     pClientExitFunc = 8, pClientArg = 3, thread = 4, running = 1, recvMsg = []\<rparr>"

theorem stream_client_thread_delivers_witness:
  "\<exists>c' s'. streamClientRecvTask (pure_app (\<lambda>c n. n + (1::nat))) 4 sample_client
      ((boot 0 [Data [1, 2] (Sockaddr_in 1 1), Done])\<lparr>fds := {5}\<rparr>) = Some (c', s') \<and>
    calls s' = [RecvCb 9 3 [1, 2] 2, ExitCb 8 3 0] \<and> fds s' = {} \<and> fd c' = -1"
  using stream_client_thread_delivers [of sample_client "(boot 0 [Data [1, 2] (Sockaddr_in 1 1), Done])\<lparr>fds := {5}\<rparr>"
      4 "\<lambda>c n. n + (1::nat)"]
  by (auto simp: sample_client_def client_key_def COMM_BUF_SIZE_def)

lemma streamClientConnect_rule:
  assumes "streamClientConnect (Some (p, c)) sa s = (r, h', s')" "wf_world s" "fits sa"
  shows "\<exists>c'. h' = Some (p, c') \<and> fd c' = fd c \<and>
    (if fd c < 0 then r = -1 \<and> c' = c \<and> s' = s
     else remoteAddr c' = Some (sa) \<and>
       (r = -1 \<and> adds s s' {} {} {} \<or>
        r = 0 \<and> running c' = 1 \<and> thread c' \<notin> threads s \<and> thread c' \<notin> cancels s' \<and>
        adds s s' {} {} {thread c'} \<and>
        trace s' = trace s @ [EConnect (fd c) (sa), ECreate (thread c') True]))"
proof (cases "fd c < 0")
  case True
  with assms show ?thesis by (simp add: streamClientConnect_def)
next
  case False
  note sf = storeAddr_fits [OF assms(3), of s]
  obtain e s1 where 1: "sys_connect (fd c) sa s = (e, s1)" by fastforce
  have a1: "adds s s1 {} {} {}" using adds_connect [OF adds_refl [OF assms(2)] 1] .
  show ?thesis
  proof (cases "e < 0")
    case True
    with assms(1) False 1 a1 show ?thesis by (auto simp: streamClientConnect_def sf)
  next
    case e: False
    have t1: "trace s1 = trace s @ [EConnect (fd c) sa]"
      using 1 e by (auto simp: sys_connect_def status_def pop_def split: if_splits list.splits reply.splits prod.splits)
    obtain e2 t s2 where 2: "pthread_create True s1 = (e2, t, s2)" by (metis prod_cases3)
    note a2 = adds_create [OF a1 2]
    show ?thesis
    proof (cases "e2 = 0")
      case True
      have "trace s2 = trace s1 @ [ECreate t True]" "cancels s2 = cancels s1"
        using 2 True by (auto simp: pthread_create_def pop_def EAGAIN_def split: if_splits list.splits reply.splits)
      with True a2 t1 assms(1) False 1 2 e show ?thesis by (auto simp: streamClientConnect_def sf)
    next
      case f: False
      with a2 assms(1) False 1 2 e show ?thesis by (auto simp: streamClientConnect_def sf)
    qed
  qed
qed

text \<open>
  Connecting: refused without effect on a null or closed handle; otherwise the server's
  address is recorded, and either -1 is returned and nothing was acquired, or 0 is returned
  and exactly one detached receive thread was started after the connection was made.
\<close>

theorem stream_client_connect_effect:
  assumes "streamClientConnect (Some (p, c)) sa s = (r, h', s')" "wf_world s" "fits sa"
  shows "\<exists>c'. h' = Some (p, c') \<and> fd c' = fd c \<and>
    (if fd c < 0 then r = -1 \<and> c' = c \<and> s' = s
     else remoteAddr c' = Some (sa) \<and>
       (r = -1 \<and> adds s s' {} {} {} \<or>
        r = 0 \<and> running c' = 1 \<and> thread c' \<notin> threads s \<and> thread c' \<notin> cancels s' \<and>
        adds s s' {} {} {thread c'} \<and>
        trace s' = trace s @ [EConnect (fd c) (sa), ECreate (thread c') True]))"
  by (rule streamClientConnect_rule [OF assms])

theorem stream_client_connect_effect_witness:
  "\<exists>r h s'. streamClientConnect
      (Some (1, sample_client)) (Sockaddr_in 80 7) ((boot () [Done, Done])\<lparr>fds := {0, 5}\<rparr>) = (r, h, s') \<and> r = 0 \<and>
    (\<exists>c'. h = Some (1, c') \<and> running c' = 1 \<and> thread c' = 1)"
proof -
  let ?s = "(boot () [Done, Done])\<lparr>fds := {0, 5}\<rparr>"
  have w: "wf_world ?s" by (simp add: boot_def wf_world_def)
  obtain r h s' where e: "streamClientConnect
      (Some (1, sample_client)) (Sockaddr_in 80 7) ?s = (r, h, s')" and r: "r = 0"
    and h: "h = Some (1, sample_client\<lparr>remoteAddr := Some (Sockaddr_in 80 7), thread := 1\<rparr>)"
    by (simp add: streamClientConnect_def sample_client_def posix_eval Let_def)
  from stream_client_connect_effect [OF e w _] r e h show ?thesis by (simp add: sample_client_def)
qed

text \<open>
  C21. A complete session (initialise, connect, receive until the server hangs up,
  un-initialise) gives back every descriptor, block and thread, with no invalid \<^verbatim>\<open>free\<close>,
  whatever the kernel answers and whatever the application computes in its callbacks.
\<close>

theorem stream_client_session:
  assumes i: "streamClientInit la rf xf arg s = (Some (p, c), s1)"
    and k: "streamClientConnect (Some (p, c)) sa s1 = (0, Some (p, c2), s2)"
    and w: "wf_world s" and l: "fits la" "fits sa"
  shows "\<exists>c3 s3. streamClientRecvTask (pure_app f) (thread c2) c2 s2 = Some (c3, s3) \<and>
    res (streamClientUninit (Some (p, c3)) s3) = res s \<and> faults (streamClientUninit (Some (p, c3)) s3) = faults s"
proof -
  have a1: "p \<notin> heap s" "0 \<le> fd c" "fd c \<notin> fds s" "adds s s1 {fd c} {p} {}"
    using streamClientInit_adds [OF i w l(1)] by simp_all
  then have w1: "wf_world s1" by (simp add: adds_def)
  from streamClientConnect_rule [OF k w1 l(2)] a1(2) have c2: "fd c2 = fd c" "running c2 = 1"
    "thread c2 \<notin> threads s1" "thread c2 \<notin> cancels s2" "adds s1 s2 {} {} {thread c2}" by simp_all
  from a1 c2 have f2: "fd c2 \<in> fds s2" by (simp add: adds_def)
  have "running c2 \<noteq> 0" using c2 by simp
  from streamClientRecvTask_run [OF this f2 c2(4), of f] obtain c3 s3 where
    run: "streamClientRecvTask (pure_app f) (thread c2) c2 s2 = Some (c3, s3)"
    and k3: "client_key (c3, s3) = (-1, snd (client_key (c2, s2)))"
    and s3: "s3 = pthread_exit (thread c2) (hang_up f (client_key (c2, s2))
      (deliver f (concat (map (recv_calls (client_key (c2, s2))) (takeWhile payload (script s2))))
        (s2\<lparr>script := dropWhile payload (script s2)\<rparr>)))" by blast
  let ?s = "deliver f (concat (map (recv_calls (client_key (c2, s2))) (takeWhile payload (script s2))))
        (s2\<lparr>script := dropWhile payload (script s2)\<rparr>)"
  have "fst (client_key (c2, s2)) \<in> fds ?s" "takeWhile payload (script ?s) = []"
    using f2 by (simp_all add: client_key_def takeWhile_dropWhile_nil)
  note h = hang_up_rule [OF this, of f]
  have w3: "wf_world s3" using h c2 unfolding s3 by (intro wf_exit) (simp add: adds_def)
  have r3: "fd c3 = -1" "fds s3 = fds s" "heap s3 = insert p (heap s)" "threads s3 = threads s" "faults s3 = faults s"
    using k3 h a1 c2 by (simp_all add: s3 client_key_def pthread_exit_def adds_def quiet_def)
  have "res (streamClientUninit (Some (p, c3)) s3) = res s \<and> faults (streamClientUninit (Some (p, c3)) s3) = faults s"
    using streamClientUninit_rule [OF w3, of p c3] r3 a1(1) by (simp add: res_def)
  with run show ?thesis by blast
qed
theorem stream_client_session_witness:
  "\<exists>p c s1 c2 s2 c3 s3. streamClientInit (Sockaddr_in 0 0) 9 8 3 (boot (0::nat) [Done, Val 5, Done, Done, Done,
        Data [1] (Sockaddr_in 1 1), Done]) = (Some (p, c), s1) \<and>
     streamClientConnect (Some (p, c)) (Sockaddr_in 80 7) s1 =
       (0, Some (p, c2), s2) \<and>
     streamClientRecvTask (pure_app (\<lambda>c n. n + 1)) (thread c2) c2 s2 = Some (c3, s3) \<and>
     res (streamClientUninit (Some (p, c3)) s3) = ({0, 1, 2}, {}, {0})"
proof -
  let ?s = "boot (0::nat) [Done, Val 5, Done, Done, Done, Data [1] (Sockaddr_in 1 1), Done]"
  obtain p c s1 where i: "streamClientInit (Sockaddr_in 0 0) 9 8 3 ?s = (Some (p, c), s1)"
    and s1: "fd c = 5" "fds s1 = {5, 0, 1, 2}" "script s1 = [Done, Done, Data [1] (Sockaddr_in 1 1), Done]"
    by (simp add: streamClientInit_def streamInitClient_def tcpOpen_def streamClientNewContext_def posix_eval)
  obtain c2 s2 where k: "streamClientConnect
      (Some (p, c)) (Sockaddr_in 80 7) s1 = (0, Some (p, c2), s2)"
    using s1 by (simp add: streamClientConnect_def posix_eval Let_def)
  from stream_client_session [OF i k wf_boot _ _, of "\<lambda>c n. n + 1"] i k show ?thesis
    by (auto simp: res_def)
qed

text \<open>
  Sending on a connection: refused with -1 and no effect, or one \<^verbatim>\<open>send\<close> of a prefix of
  the buffer whose length is the result, at most the given size.
\<close>

theorem stream_client_send_effect:
  assumes "streamClientSend handle pData n s = (r, s')"
  shows "quiet s s' \<and> res s' = res s \<and>
    (r = -1 \<and> trace s' = trace s \<or>
     (\<exists>p c bs. handle = Some (p, c) \<and> 0 \<le> fd c \<and> pData = Some bs \<and> n \<noteq> 0 \<and> 0 \<le> r \<and>
        nat r \<le> unat n \<and> trace s' = trace s @ [ESend (fd c) (take (nat r) bs) None]))"
proof (cases "\<exists>p c bs. handle = Some (p, c) \<and> 0 \<le> fd c \<and> pData = Some bs \<and> n \<noteq> 0")
  case False
  with assms show ?thesis by (auto simp: streamClientSend_def not_less split: option.splits if_splits)
next
  case True
  then obtain p c bs where h: "handle = Some (p, c)" "0 \<le> fd c" "pData = Some bs" "n \<noteq> 0" by blast
  from assms h have "sys_sendto (fd c) (take (unat n) bs) None s = (r, s')"
    by (simp add: streamClientSend_def sys_send_def)
  from sys_sendto_prefix [OF this] h show ?thesis by auto
qed

theorem stream_client_send_effect_witness:
  "\<exists>r s'. streamClientSend (Some (1, sample_client)) (Some [1, 2, 3]) 2 ((boot () [Val 1])\<lparr>fds := {5}\<rparr>) = (r, s') \<and>
    r = 1 \<and> trace s' = [ESend 5 [1] None] \<and> fds s' = {5}"
proof -
  obtain r s' where e: "streamClientSend (Some (1, sample_client)) (Some [1, 2, 3]) 2
      ((boot () [Val 1])\<lparr>fds := {5}\<rparr>) = (r, s')" and r: "r = 1"
    by (simp add: streamClientSend_def sample_client_def posix_eval)
  from stream_client_send_effect [OF e] r have "trace s' = [ESend 5 [1] None] \<and> fds s' = {5}"
    by (simp add: sample_client_def res_def)
  with e r show ?thesis by blast
qed

text \<open>
  Un-initialising a connected client frees its context while the receive thread that works
  on it is still there: the thread is only asked to stop, it is detached and not waited for.
\<close>

theorem stream_client_uninit_leaves_thread:
  assumes k: "streamClientConnect (Some (p, c)) sa s = (0, Some (p, c2), s2)"
    and w: "wf_world s" "fits sa" and p: "p \<in> heap s" and n: "0 \<le> fd c"
  shows "p \<notin> heap (streamClientUninit (Some (p, c2)) s2) \<and>
    thread c2 \<in> threads (streamClientUninit (Some (p, c2)) s2) \<and> ECreate (thread c2) True \<in> set (trace s2)"
proof -
  from streamClientConnect_rule [OF k w] n have a: "adds s s2 {} {} {thread c2}"
    and t: "ECreate (thread c2) True \<in> set (trace s2)" by auto
  then have "wf_world s2" "p \<in> heap s2" "thread c2 \<in> threads s2" using p by (simp_all add: adds_def)
  with streamClientUninit_rule [of s2 p c2] t show ?thesis by simp
qed

theorem stream_client_uninit_leaves_thread_witness:
  "\<exists>c2 s2. streamClientConnect (Some (1, sample_client))
      (Sockaddr_in 80 7) ((boot () [Done, Done])\<lparr>fds := {0, 5}, heap := {1}, brk := 2\<rparr>) = (0, Some (1, c2), s2) \<and>
    1 \<notin> heap (streamClientUninit (Some (1, c2)) s2) \<and> thread c2 \<in> threads (streamClientUninit (Some (1, c2)) s2)"
proof -
  let ?s = "(boot () [Done, Done])\<lparr>fds := {0, 5}, heap := {1}, brk := 2\<rparr>"
  have w: "wf_world ?s" "fits (Sockaddr_in 80 7)" "1 \<in> heap ?s" "0 \<le> fd sample_client"
    by (simp_all add: boot_def wf_world_def sample_client_def)
  obtain c2 s2 where k: "streamClientConnect
      (Some (1, sample_client)) (Sockaddr_in 80 7) ?s = (0, Some (1, c2), s2)"
    by (simp add: streamClientConnect_def sample_client_def posix_eval Let_def)
  from stream_client_uninit_leaves_thread [OF k w] k show ?thesis by blast
qed

end
