(* ===== verification/User_Table.thy ===== *)
theory User_Table
  imports Comm_If
begin

text \<open>
  The table of connected users that the TCP server and the UNIX domain stream server keep: an
  array of pointers of which the first \<open>maxUserNum\<close> slots are used, and a counter. The table
  is a bounded set of user blocks; locale \<open>bounded_set\<close> states that contract, and what holds
  after any sequence of additions and removals.
\<close>

section \<open>A bounded set of pointers\<close>

datatype user_op = Add addr | Del addr

locale bounded_set =
  fixes ok :: "'t \<Rightarrow> addr set \<Rightarrow> bool"
    and add :: "addr \<Rightarrow> 't \<Rightarrow> 't option"
    and del :: "addr \<Rightarrow> 't \<Rightarrow> 't"
    and num :: "'t \<Rightarrow> int"
    and cap :: "'t \<Rightarrow> nat"
  assumes add_some: "ok t U \<Longrightarrow> p \<noteq> NULL \<Longrightarrow> p \<notin> U \<Longrightarrow> add p t = Some t' \<Longrightarrow>
      ok t' (insert p U) \<and> cap t' = cap t"
    and add_none: "ok t U \<Longrightarrow> add p t = None \<longleftrightarrow> card U = cap t"
    and del_ok: "ok t U \<Longrightarrow> p \<noteq> NULL \<Longrightarrow> ok (del p t) (U - {p}) \<and> cap (del p t) = cap t"
    and ok_num: "ok t U \<Longrightarrow> finite U \<and> NULL \<notin> U \<and> num t = int (card U) \<and> card U \<le> cap t"
begin

text \<open>Running a sequence of operations; an addition to a full table, or of a member, is dropped.\<close>

fun run :: "user_op list \<Rightarrow> 't \<Rightarrow> 't" where
  "run [] t = t"
| "run (Add p # ops) t = run ops (case add p t of None \<Rightarrow> t | Some t' \<Rightarrow> t')"
| "run (Del p # ops) t = run ops (del p t)"

text \<open>The same on sets.\<close>

fun spec :: "nat \<Rightarrow> user_op list \<Rightarrow> addr set \<Rightarrow> addr set" where
  "spec n [] U = U"
| "spec n (Add p # ops) U = spec n ops (if card U = n then U else insert p U)"
| "spec n (Del p # ops) U = spec n ops (U - {p})"

fun fresh :: "nat \<Rightarrow> user_op list \<Rightarrow> addr set \<Rightarrow> bool" where
  "fresh n [] U \<longleftrightarrow> True"
| "fresh n (Add p # ops) U \<longleftrightarrow> p \<noteq> NULL \<and> p \<notin> U \<and> fresh n ops (if card U = n then U else insert p U)"
| "fresh n (Del p # ops) U \<longleftrightarrow> p \<noteq> NULL \<and> fresh n ops (U - {p})"

lemma run_spec:
  "ok t U \<Longrightarrow> fresh (cap t) ops U \<Longrightarrow> ok (run ops t) (spec (cap t) ops U) \<and> cap (run ops t) = cap t"
proof (induction ops arbitrary: t U)
  case Nil
  then show ?case by simp
next
  case (Cons op ops)
  show ?case
  proof (cases op)
    case (Add p)
    show ?thesis
    proof (cases "add p t")
      case None
      with Cons Add add_none [of t U p] show ?thesis by simp
    next
      case (Some t')
      with Cons.prems Add add_none [of t U p] add_some [of t U p t'] Cons.IH [of t' "insert p U"]
      show ?thesis by simp
    qed
  next
    case (Del p)
    with Cons.prems del_ok [of t U p] Cons.IH [of "del p t" "U - {p}"] show ?thesis by simp
  qed
qed

lemma run_num: "ok t U \<Longrightarrow> fresh (cap t) ops U \<Longrightarrow> 0 \<le> num (run ops t) \<and> num (run ops t) \<le> int (cap t)"
  using run_spec [of t U ops] ok_num [of "run ops t"] by fastforce

end

section \<open>The slots\<close>

text \<open>\<^verbatim>\<open>for (i=0; i<maxUserNum; i++) if (pUser[i] == p) ...\<close>: the first such slot.\<close>

definition find_slot :: "addr \<Rightarrow> int \<Rightarrow> addr list \<Rightarrow> nat option" where
  "find_slot p maxUserNum tbl = find (\<lambda>i. tbl ! i = p) [0..<nat maxUserNum]"

record slots =
  tbl :: "addr list"
  num :: int
  cap :: int

definition put_slot :: "addr \<Rightarrow> slots \<Rightarrow> slots option" where
  "put_slot p t = (if cap t \<le> num t then None
     else (case find_slot NULL (cap t) (tbl t) of
         None \<Rightarrow> None
       | Some i \<Rightarrow> Some (t\<lparr>tbl := (tbl t)[i := p], num := num t + 1\<rparr>)))"

definition clear_slot :: "addr \<Rightarrow> slots \<Rightarrow> slots" where
  "clear_slot p t = (case find_slot p (cap t) (tbl t) of
       None \<Rightarrow> t
     | Some i \<Rightarrow> t\<lparr>tbl := (tbl t)[i := NULL], num := if 0 < num t then num t - 1 else num t\<rparr>)"

definition slots_ok :: "slots \<Rightarrow> addr set \<Rightarrow> bool" where
  "slots_ok t U \<longleftrightarrow> finite U \<and> NULL \<notin> U \<and> card U \<le> length (tbl t) \<and> nat (cap t) \<le> length (tbl t) \<and>
     mset (tbl t) = mset_set U + replicate_mset (length (tbl t) - card U) NULL \<and>
     num t = int (card U) \<and> (\<forall>i. nat (cap t) \<le> i \<longrightarrow> i < length (tbl t) \<longrightarrow> tbl t ! i = NULL)"

lemma find_slot_Some:
  "find_slot p m xs = Some i \<Longrightarrow> i < nat m \<and> xs ! i = p \<and> (\<forall>j<i. xs ! j \<noteq> p)"
  by (auto simp: find_slot_def find_Some_iff)

lemma find_slot_None: "find_slot p m xs = None \<longleftrightarrow> (\<forall>i<nat m. xs ! i \<noteq> p)"
  by (auto simp: find_slot_def find_None_iff)

lemma slots_free:
  assumes "slots_ok t U"
  shows "count (mset (take (nat (cap t)) (tbl t))) NULL + card U = nat (cap t)"
proof -
  let ?c = "nat (cap t)" let ?N = "length (tbl t)"
  have c: "?c \<le> ?N" "card U \<le> ?N" and n: "NULL \<notin> U" using assms by (simp_all add: slots_ok_def)
  have "drop ?c (tbl t) = replicate (?N - ?c) NULL"
    using assms by (intro nth_equalityI) (simp_all add: slots_ok_def)
  then have "count (mset (drop ?c (tbl t))) NULL = ?N - ?c" by simp
  moreover have "count (mset (tbl t)) NULL =
      count (mset (take ?c (tbl t))) NULL + count (mset (drop ?c (tbl t))) NULL"
    by (simp flip: count_union mset_append)
  moreover have "count (mset (tbl t)) NULL = ?N - card U"
    using assms n by (simp add: slots_ok_def)
  ultimately show ?thesis using c by linarith
qed

lemma find_free:
  assumes "slots_ok t U"
  shows "find_slot NULL (cap t) (tbl t) = None \<longleftrightarrow> card U = nat (cap t)"
proof -
  have c: "nat (cap t) \<le> length (tbl t)" using assms by (simp add: slots_ok_def)
  have "find_slot NULL (cap t) (tbl t) = None \<longleftrightarrow> NULL \<notin> set (take (nat (cap t)) (tbl t))"
    using c by (auto simp: find_slot_None in_set_conv_nth)
  also have "\<dots> \<longleftrightarrow> count (mset (take (nat (cap t)) (tbl t))) NULL = 0"
    by (simp add: count_eq_zero_iff)
  also have "\<dots> \<longleftrightarrow> card U = nat (cap t)"
    using slots_free [OF assms] by (intro iffI) linarith+
  finally show ?thesis .
qed

lemma slots_card: "slots_ok t U \<Longrightarrow> card U \<le> nat (cap t)"
  using slots_free [of t U] by linarith

lemma put_at:
  assumes o: "slots_ok t U" and i: "i < nat (cap t)" "tbl t ! i = NULL" and p: "p \<noteq> NULL" "p \<notin> U"
  shows "slots_ok (t\<lparr>tbl := (tbl t)[i := p], num := num t + 1\<rparr>) (insert p U)"
proof -
  let ?N = "length (tbl t)"
  have f: "finite U" "mset (tbl t) = mset_set U + replicate_mset (?N - card U) NULL" "i < ?N"
    using o i by (auto simp: slots_ok_def)
  have "NULL \<in># mset (tbl t)" using i f(3) by (metis nth_mem set_mset_mset)
  with f(2) o have "0 < ?N - card U" by (cases "?N - card U") (auto simp: slots_ok_def)
  then obtain k where k: "?N - card U = Suc k" by (cases "?N - card U") auto
  have "mset ((tbl t)[i := p]) = add_mset p (mset (tbl t) - {#NULL#})"
    using f(3) i(2) by (simp add: mset_update)
  then have "mset ((tbl t)[i := p]) = mset_set (insert p U) + replicate_mset k NULL"
    using f k p(2) by simp
  moreover have "k = ?N - card (insert p U)" using k f(1) p(2) by simp
  ultimately show ?thesis
    using o i p f k by (auto simp: slots_ok_def nth_list_update)
qed

lemma clear_at:
  assumes o: "slots_ok t U" and i: "i < nat (cap t)" "tbl t ! i = p" and p: "p \<noteq> NULL"
  shows "p \<in> U \<and> slots_ok (t\<lparr>tbl := (tbl t)[i := NULL], num := num t - 1\<rparr>) (U - {p}) \<and> 0 < num t"
proof -
  let ?N = "length (tbl t)"
  have f: "finite U" "mset (tbl t) = mset_set U + replicate_mset (?N - card U) NULL" "i < ?N" "card U \<le> ?N"
    using o i by (auto simp: slots_ok_def)
  have "p \<in># mset (tbl t)" using i f(3) by (metis nth_mem set_mset_mset)
  with f(1,2) p have pU: "p \<in> U" by (auto split: if_splits)
  then have c: "0 < card U" using f(1) card_gt_0_iff by blast
  have "mset ((tbl t)[i := NULL]) = add_mset NULL (mset (tbl t) - {#p#})"
    using f(3) i(2) by (simp add: mset_update)
  also have "\<dots> = mset_set (U - {p}) + replicate_mset (Suc (?N - card U)) NULL"
    using f(1,2) pU by (simp add: mset_set.remove)
  also have "Suc (?N - card U) = ?N - card (U - {p})" using f(1,4) pU c by (simp add: Suc_diff_le)
  finally show ?thesis
    using o i p f pU c by (auto simp: slots_ok_def nth_list_update of_nat_diff)
qed

lemma find_member:
  assumes o: "slots_ok t U" and p: "p \<in> U"
  shows "find_slot p (cap t) (tbl t) \<noteq> None"
proof
  assume n: "find_slot p (cap t) (tbl t) = None"
  have "p \<noteq> NULL" using o p unfolding slots_ok_def by metis
  have "p \<in># mset (tbl t)" using o p by (simp add: slots_ok_def)
  then obtain i where i: "i < length (tbl t)" "tbl t ! i = p" by (auto simp: in_set_conv_nth)
  with n o \<open>p \<noteq> NULL\<close> show False by (cases "i < nat (cap t)") (auto simp: find_slot_None slots_ok_def)
qed

interpretation user_slots: bounded_set slots_ok put_slot clear_slot num "\<lambda>t. nat (cap t)"
proof
  fix t t' :: slots and U :: "addr set" and p :: addr
  assume o: "slots_ok t U"
  show "slots_ok t' (insert p U) \<and> nat (cap t') = nat (cap t)"
    if "p \<noteq> NULL" "p \<notin> U" "put_slot p t = Some t'"
    using that put_at [OF o _ _ that(1,2)] by (auto simp: put_slot_def split: if_splits option.splits dest!: find_slot_Some)
  show "put_slot p t = None \<longleftrightarrow> card U = nat (cap t)"
    using find_free [OF o] slots_card [OF o] o by (auto simp: put_slot_def slots_ok_def split: option.splits)
  show "slots_ok (clear_slot p t) (U - {p}) \<and> nat (cap (clear_slot p t)) = nat (cap t)" if "p \<noteq> NULL"
  proof (cases "find_slot p (cap t) (tbl t)")
    case None
    then have "p \<notin> U" using find_member [OF o] by blast
    with None o show ?thesis by (simp add: clear_slot_def)
  next
    case (Some i)
    with clear_at [OF o _ _ that] show ?thesis by (auto simp: clear_slot_def dest!: find_slot_Some)
  qed
  show "finite U \<and> NULL \<notin> U \<and> num t = int (card U) \<and> card U \<le> nat (cap t)"
    using o slots_card [OF o] by (simp add: slots_ok_def)
qed

lemma slots_empty:
  assumes "nat m \<le> n"
  shows "slots_ok \<lparr>tbl = replicate n NULL, num = 0, cap = m\<rparr> {}"
  using assms by (simp add: slots_ok_def)

end
