(* ===== verification/Stream_Server.thy ===== *)
theory Stream_Server
  imports User_Table Stream_Socket
begin

text \<open>
  The stream server of \<^verbatim>\<open>source/comm_tcp_server.c\<close> (IPv4 and IPv6) and of
  \<^verbatim>\<open>source/comm_ipc_stream.c\<close> (UNIX domain): three copies of the same code, which differ in the
  kind of their addresses. A joinable listen thread accepts connections into a table of at most
  32 users; every user has a heap block, a descriptor and a detached receive thread, which takes
  the user out of the table and frees the block when the connection ends. \<open>localAddr\<close> and
  \<open>user_addr\<close> are \<^verbatim>\<open>localPath\<close> and \<^verbatim>\<open>fileName\<close> of the UNIX domain copy.
\<close>

section \<open>Context and users\<close>

text \<open>
  \<open>table\<close> groups \<^verbatim>\<open>pUser\<close>, \<^verbatim>\<open>userNum\<close> and \<^verbatim>\<open>maxUserNum\<close>. The users are heap blocks reached by
  pointers from several places, so their contents are kept in a store: a map from the address
  of a live block to its contents. \<open>clitAddr\<close> is the listen thread's local variable of that
  name, which a UNIX domain server keeps from one connection to the next.
\<close>

record stream_server_ctx =
  localAddr :: sockaddr
  fd :: int
  table :: slots
  pServerAcptFunc :: fptr
  pServerExitFunc :: fptr
  pServerRecvFunc :: fptr
  pServerArg :: addr
  thread :: tid
  running :: int
  clitAddr :: name_buf

record stream_user =
  pServer :: addr
  user_addr :: sockaddr
  user_fd :: int
  user_thread :: tid
  user_recvMsg :: "u8 list"

type_synonym user_store = "addr \<rightharpoonup> stream_user"

definition USER_NUM :: nat where
  "USER_NUM = 32"

definition streamInitServer :: "stream_server_ctx \<Rightarrow> 'a world \<Rightarrow> int \<times> stream_server_ctx \<times> 'a world" where
  "streamInitServer pContext s =
     (let (n, s) = streamOpen (localAddr pContext) s in
      if n < 0 then (-1, pContext, s) else (0, pContext\<lparr>fd := n\<rparr>, s))"

definition streamUninitServer :: "stream_server_ctx \<Rightarrow> 'a world \<Rightarrow> stream_server_ctx \<times> 'a world" where
  "streamUninitServer pContext s =
     (if 0 < fd pContext then pContext\<lparr>fd := -1\<rparr> else pContext, streamClose (localAddr pContext) (fd pContext) s)"

section \<open>Accepting and disconnecting a client\<close>

text \<open>
  Accepting has two halves. The first finds a free slot, allocates the user, starts its thread
  and tells the application; the second enters the user in the table. The user's thread runs
  from the first half on. Only the TCP copies set an option of the connection. The name of a
  UNIX domain client comes from an array of 108 bytes, so its copy into 256 bytes fits.
\<close>

definition streamAcceptCreate :: "'a application \<Rightarrow> addr \<Rightarrow> stream_server_ctx \<Rightarrow> user_store \<Rightarrow> sockaddr \<Rightarrow> int \<Rightarrow>
    'a world \<Rightarrow> (nat \<times> addr) option \<times> user_store \<times> 'a world" where
  "streamAcceptCreate cb pc pContext us pAddr n s =
     (if cap (table pContext) \<le> num (table pContext) then (None, us, s)
      else (case find_slot NULL (cap (table pContext)) (tbl (table pContext)) of
          None \<Rightarrow> (None, us, s)
        | Some i \<Rightarrow>
            let (p, s) = c_malloc s in
            if p = NULL then (None, us, s)
            else
              let s = (if is_unix pAddr then s else sys_setsockopt n ''TCP_NODELAY'' s);
                  (error, t, s) = pthread_create True s in
              if error \<noteq> 0 then (None, us, c_free p s)
              else
                let us = us(p \<mapsto> \<lparr>pServer = pc, user_addr = pAddr, user_fd = n, user_thread = t,
                      user_recvMsg = recv_buffer\<rparr>);
                    s = (if pServerAcptFunc pContext \<noteq> NULL
                         then invoke cb (AcptCb (pServerAcptFunc pContext) (pServerArg pContext) p) s
                         else s)
                in (Some (i, p), us, s)))"

definition streamAcceptRegister :: "nat \<Rightarrow> addr \<Rightarrow> stream_server_ctx \<Rightarrow> stream_server_ctx" where
  "streamAcceptRegister i p pContext = pContext\<lparr>table := (table pContext)
     \<lparr>tbl := (tbl (table pContext))[i := p], num := num (table pContext) + 1\<rparr>\<rparr>"

definition streamAcceptClient :: "'a application \<Rightarrow> addr \<Rightarrow> stream_server_ctx \<Rightarrow> user_store \<Rightarrow> sockaddr \<Rightarrow> int \<Rightarrow>
    'a world \<Rightarrow> addr \<times> stream_server_ctx \<times> user_store \<times> 'a world" where
  "streamAcceptClient cb pc pContext us pAddr n s =
     (case streamAcceptCreate cb pc pContext us pAddr n s of
        (None, us, s) \<Rightarrow> (NULL, pContext, us, s)
      | (Some (i, p), us, s) \<Rightarrow> (p, streamAcceptRegister i p pContext, us, s))"

text \<open>A user whose block is gone is a use after free, and freeing it again a double free.\<close>

definition streamDisconnectClient :: "addr \<Rightarrow> stream_server_ctx \<times> user_store \<times> 'a world \<Rightarrow>
    stream_server_ctx \<times> user_store \<times> 'a world" where
  "streamDisconnectClient p st = (case st of (pContext, us, s) \<Rightarrow>
     if p = NULL then st
     else
       let pContext = pContext\<lparr>table := clear_slot p (table pContext)\<rparr> in
       (case us p of
          None \<Rightarrow> (pContext, us, c_free p (fault (Use_After_Free p) s))
        | Some u \<Rightarrow>
            let s = (if 0 < user_fd u
                     then sys_close (user_fd u) (pthread_cancel (user_thread u) s) else s)
            in (pContext, us(p := None), c_free p s)))"

section \<open>The threads\<close>

text \<open>One turn of a user's receive thread, on the user's block and the world.\<close>

definition streamServerRecvBody :: "'a application \<Rightarrow> tid \<Rightarrow> stream_server_ctx \<Rightarrow> addr \<Rightarrow> stream_user \<times> 'a world \<Rightarrow>
    flow \<times> stream_user \<times> 'a world" where
  "streamServerRecvBody cb t pContext p st = (case st of (u, s) \<Rightarrow>
     if pthread_testcancel t s then (Cancel, st)
     else
       let (len, bs, s) = sys_recv (user_fd u) COMM_BUF_SIZE s;
           u = u\<lparr>user_recvMsg := fill (user_recvMsg u) bs\<rparr>
       in if recv_stops (localAddr pContext) len
          then
            let s = sys_close (user_fd u) s;
                u = u\<lparr>user_fd := -1\<rparr>;
                s = (if pServerExitFunc pContext \<noteq> NULL
                     then invoke cb (UserExitCb (pServerExitFunc pContext) (pServerArg pContext) p) s
                     else s)
            in (Break, u, s)
          else if pthread_testcancel t s then (Cancel, u, s)
          else (Next, u,
            if pServerRecvFunc pContext \<noteq> NULL
            then invoke cb (UserRecvCb (pServerRecvFunc pContext) (pServerArg pContext) p
                   (take (nat len) (user_recvMsg u)) (word_of_int len)) s
            else s))"

definition streamServerRecvTask :: "'a application \<Rightarrow> tid \<Rightarrow> addr \<Rightarrow> stream_server_ctx \<times> user_store \<times> 'a world \<Rightarrow>
    (stream_server_ctx \<times> user_store \<times> 'a world) option" where
  "streamServerRecvTask cb t p st = (case st of (pContext, us, s) \<Rightarrow>
     (case us p of
        None \<Rightarrow> Some (pContext, us, pthread_exit t (fault (Use_After_Free p) s))
      | Some u \<Rightarrow>
          map_option (\<lambda>(cancelled, u, s).
              if cancelled then (pContext, us(p \<mapsto> u), pthread_exit t s)
              else
                let (pContext, us, s) = streamDisconnectClient p (pContext, us(p \<mapsto> u), s)
                in (pContext, us, pthread_exit t s))
            (c_while (\<lambda>(u, s). 0 < user_fd u) (streamServerRecvBody cb t pContext p) (u, s))))"

text \<open>The listen thread; \<open>pc\<close> is the address of the server's context.\<close>

definition accept_addr :: "stream_server_ctx \<Rightarrow> sockaddr option \<Rightarrow> sockaddr \<times> stream_server_ctx" where
  "accept_addr pContext a =
     (if is_unix (localAddr pContext)
      then let nb = get_name a (clitAddr pContext) in (Sockaddr_un (peer_name nb), pContext\<lparr>clitAddr := nb\<rparr>)
      else (the a, pContext))"

definition streamListenBody :: "'a application \<Rightarrow> tid \<Rightarrow> addr \<Rightarrow> stream_server_ctx \<times> user_store \<times> 'a world \<Rightarrow>
    flow \<times> stream_server_ctx \<times> user_store \<times> 'a world" where
  "streamListenBody cb t pc st = (case st of (pContext, us, s) \<Rightarrow>
     if pthread_testcancel t s then (Cancel, st)
     else
       let (n, a, s) = sys_accept (fd pContext) s in
       if n < 0 then (Break, pContext, us, s)
       else
         let (pAddr, pContext) = accept_addr pContext a in
         if pthread_testcancel t s then (Cancel, pContext, us, s)
         else
         let (p, pContext, us, s) = streamAcceptClient cb pc pContext us pAddr n s
         in (Next, pContext, us, if p = NULL then sys_close n s else s))"

definition streamServerListenTask :: "'a application \<Rightarrow> tid \<Rightarrow> addr \<Rightarrow> stream_server_ctx \<times> user_store \<times> 'a world \<Rightarrow>
    (stream_server_ctx \<times> user_store \<times> 'a world) option" where
  "streamServerListenTask cb t pc st = (case st of (pContext, us, s) \<Rightarrow>
     let (r, s) = sys_listen (fd pContext) (int (2 * USER_NUM)) s in
     if r < 0
     then Some (pContext\<lparr>fd := -1\<rparr>, us, pthread_exit t (sys_close (fd pContext) s))
     else
       map_option (\<lambda>(cancelled, pContext, us, s).
           (if cancelled then pContext else pContext\<lparr>running := 0\<rparr>, us, pthread_exit t s))
         (c_while (\<lambda>(pContext, us, s). running pContext \<noteq> 0) (streamListenBody cb t pc) (pContext, us, s)))"

section \<open>Life cycle\<close>

definition streamServerNewContext :: "sockaddr \<Rightarrow> int \<Rightarrow> fptr \<Rightarrow> fptr \<Rightarrow> fptr \<Rightarrow> addr \<Rightarrow> stream_server_ctx" where
  "streamServerNewContext addr maxUserNum acptFunc exitFunc recvFunc arg =
     \<lparr>localAddr = addr, fd = -1,
      table = \<lparr>tbl = replicate USER_NUM NULL, num = 0,
        cap = (if maxUserNum = 0 \<or> int USER_NUM < maxUserNum then int USER_NUM else maxUserNum)\<rparr>,
      pServerAcptFunc = acptFunc, pServerExitFunc = exitFunc, pServerRecvFunc = recvFunc,
      pServerArg = arg, thread = 0, running = 0, clitAddr = new_name\<rparr>"

definition streamServerInit :: "sockaddr \<Rightarrow> int \<Rightarrow> fptr \<Rightarrow> fptr \<Rightarrow> fptr \<Rightarrow> addr \<Rightarrow> 'a world \<Rightarrow>
    stream_server_ctx handle \<times> 'a world" where
  "streamServerInit addr maxUserNum acptFunc exitFunc recvFunc arg s =
     (let (pc, s) = c_malloc s in
      if pc = NULL then (None, s)
      else
        let (error, pContext, s) =
          streamInitServer (streamServerNewContext addr maxUserNum acptFunc exitFunc recvFunc arg) s in
        if error \<noteq> 0 then (None, c_free pc s)
        else
          let pContext = pContext\<lparr>running := 1\<rparr>;
              (error, t, s) = pthread_create False s;
              pContext = pContext\<lparr>thread := t\<rparr>
          in if error \<noteq> 0
             then let (pContext, s) = streamUninitServer pContext s in (None, c_free pc s)
             else (Some (pc, pContext), s))"

text \<open>\<^verbatim>\<open>for (i=0; i<maxUserNum; i++) DisconnectClient(pContext, pContext->pUser[i])\<close>\<close>

fun streamDisconnectSlots :: "nat \<Rightarrow> stream_server_ctx \<times> user_store \<times> 'a world \<Rightarrow>
    stream_server_ctx \<times> user_store \<times> 'a world" where
  "streamDisconnectSlots 0 st = st"
| "streamDisconnectSlots (Suc i) st =
     (let st = streamDisconnectSlots i st in streamDisconnectClient (tbl (table (fst st)) ! i) st)"

definition streamServerUninit :: "stream_server_ctx handle \<Rightarrow> user_store \<Rightarrow> 'a world \<Rightarrow> user_store \<times> 'a world" where
  "streamServerUninit handle us s = (case handle of
       None \<Rightarrow> (us, s)
     | Some (pc, pContext) \<Rightarrow>
         let s = pthread_cancel (thread pContext) s;
             pContext = pContext\<lparr>running := 0, table := (table pContext)\<lparr>num := 0\<rparr>\<rparr>;
             (pContext, us, s) = streamDisconnectSlots (nat (cap (table pContext))) (pContext, us, s);
             (pContext, s) = streamUninitServer pContext s;
             s = pthread_join (thread pContext) s
         in (us, c_free pc s))"

section \<open>Sending\<close>

definition streamServerSend :: "addr \<Rightarrow> user_store \<Rightarrow> u8 list option \<Rightarrow> u16 \<Rightarrow> 'a world \<Rightarrow> int \<times> 'a world" where
  "streamServerSend p us pData dataSize s =
     (if p = NULL then (-1, s)
      else (case us p of
          None \<Rightarrow> (-1, fault (Use_After_Free p) s)
        | Some u \<Rightarrow>
            if user_fd u < 0 then (-1, s)
            else (case pData of
                None \<Rightarrow> (-1, s)
              | Some bs \<Rightarrow>
                  if dataSize = 0 then (-1, s)
                  else sys_send (user_fd u) (take (unat dataSize) bs) s)))"

text \<open>Unlike the other operations, the next two read the handle without a null test.\<close>

definition streamSendSlot :: "user_store \<Rightarrow> u8 list \<Rightarrow> addr \<Rightarrow> 'a world \<Rightarrow> 'a world" where
  "streamSendSlot us bs p s =
     (if p = NULL then s
      else (case us p of
          None \<Rightarrow> fault (Use_After_Free p) s
        | Some u \<Rightarrow> if 0 < user_fd u then snd (sys_send (user_fd u) bs s) else s))"

definition streamServerSendAllClient :: "stream_server_ctx handle \<Rightarrow> user_store \<Rightarrow> u8 list option \<Rightarrow> u16 \<Rightarrow>
    'a world \<Rightarrow> 'a world" where
  "streamServerSendAllClient handle us pData dataSize s = (case handle of
       None \<Rightarrow> fault Null_Deref s
     | Some (pc, pContext) \<Rightarrow>
         if num (table pContext) = 0 then s
         else (case pData of
             None \<Rightarrow> s
           | Some bs \<Rightarrow>
               if dataSize = 0 then s
               else fold (\<lambda>i. streamSendSlot us (take (unat dataSize) bs) (tbl (table pContext) ! i))
                 [0..<nat (cap (table pContext))] s))"

definition streamServerGetClientNum :: "stream_server_ctx handle \<Rightarrow> ub + int" where
  "streamServerGetClientNum handle = (case handle of
       None \<Rightarrow> Inl Null_Deref
     | Some (pc, pContext) \<Rightarrow> Inr (num (table pContext)))"

section \<open>Life cycle\<close>

lemma streamInitServer_adds:
  assumes "streamInitServer c t = (e, c', u)" "adds s t F P T" "fits (localAddr c)"
  shows "e \<noteq> 0 \<and> adds s u F P T \<or>
    e = 0 \<and> 0 \<le> fd c' \<and> fd c' \<notin> F \<and> fd c' \<notin> fds s \<and> c' = c\<lparr>fd := fd c'\<rparr> \<and>
      adds s u (insert (fd c') F) P T"
proof -
  obtain n t1 where 1: "streamOpen (localAddr c) t = (n, t1)" by fastforce
  from streamOpen_adds [OF assms(2) 1 assms(3)] assms(1) show ?thesis
    by (auto simp: streamInitServer_def 1 split: if_splits)
qed

lemma streamUninitServer_rule:
  assumes "streamUninitServer c s = (c', s')" "wf_world s"
  shows "quiet s s' \<and> wf_world s' \<and> heap s' = heap s \<and> threads s' = threads s \<and>
    fds s' = (if 0 < fd c then fds s - {fd c} else fds s) \<and> thread c' = thread c"
  using assms streamClose_rule [OF assms(2), of "localAddr c" "fd c"] by (auto simp: streamUninitServer_def split: if_splits)

lemma streamUninitServer_adds:
  assumes "streamUninitServer c t = (c', u)" "adds s t F P T" "0 < fd c" "fd c \<in> F"
  shows "adds s u (F - {fd c}) P T"
  using assms streamClose_adds [OF assms(2-4), of "localAddr c"] by (simp add: streamUninitServer_def)

lemma streamServerInit_adds:
  assumes i: "streamServerInit la m af xf rf a s = (h, s')" and w: "wf_world s" and z: "0 \<in> fds s" and l: "fits la"
  shows "case h of None \<Rightarrow> adds s s' {} {} {}
    | Some (pc, c) \<Rightarrow> pc \<noteq> NULL \<and> pc \<notin> heap s \<and> 0 < fd c \<and> fd c \<notin> fds s \<and> thread c \<notin> threads s \<and>
        thread c \<notin> cancels s' \<and>
        adds s s' {fd c} {pc} {thread c} \<and>
        c = (streamServerNewContext la m af xf rf a)\<lparr>fd := fd c, running := 1, thread := thread c\<rparr>"
proof -
  let ?new = "streamServerNewContext la m af xf rf a"
  obtain pc s1 where 1: "c_malloc s = (pc, s1)" by fastforce
  note a1 = adds_malloc [OF adds_refl [OF w] 1]
  show ?thesis
  proof (cases "pc = NULL")
    case True
    with a1 i 1 show ?thesis by (auto simp: streamServerInit_def)
  next
    case False
    with a1 have p: "pc \<notin> heap s" "adds s s1 {} {pc} {}" by simp_all
    obtain e c s2 where 2: "streamInitServer ?new s1 = (e, c, s2)" by (metis prod_cases3)
    have "fits (localAddr ?new)" using l by (simp add: streamServerNewContext_def)
    note a2 = streamInitServer_adds [OF 2 p(2) this]
    show ?thesis
    proof (cases "e = 0")
      case e: False
      with a2 have "adds s s2 {} {pc} {}" by simp
      from adds_free [OF this, of pc] i 1 2 False e show ?thesis by (auto simp: streamServerInit_def)
    next
      case e: True
      with a2 have c: "0 \<le> fd c" "fd c \<notin> fds s" "c = ?new\<lparr>fd := fd c\<rparr>" "adds s s2 {fd c} {pc} {}" by simp_all
      with z have pos: "0 < fd c" using order_le_less [of 0 "fd c"] by auto
      obtain e3 t s3 where 3: "pthread_create False s2 = (e3, t, s3)" by (metis prod_cases3)
      note a3 = adds_create [OF c(4) 3]
      let ?c = "c\<lparr>running := 1, thread := t\<rparr>"
      show ?thesis
      proof (cases "e3 = 0")
        case True
        with i 1 2 3 False e have h: "h = Some (pc, ?c)" "s' = s3" by (simp_all add: streamServerInit_def)
        have "cancels s3 = cancels s2" using a3 c(4) True by (simp add: adds_def quiet_def)
        moreover have "?c = ?new\<lparr>fd := fd c, running := 1, thread := t\<rparr>"
          using arg_cong [OF c(3), of "\<lambda>x. x\<lparr>running := 1, thread := t\<rparr>"] by simp
        ultimately have f: "thread ?c \<notin> cancels s3" "?c = ?new\<lparr>fd := fd ?c, running := 1, thread := thread ?c\<rparr>"
          using a3 True by simp_all
        have "pc \<noteq> NULL \<and> pc \<notin> heap s \<and> 0 < fd ?c \<and> fd ?c \<notin> fds s \<and> thread ?c \<notin> threads s \<and>
            adds s s3 {fd ?c} {pc} {thread ?c}"
          using a3 True False p(1) c(2) pos by simp
        with f show ?thesis unfolding h option.case prod.case by blast
      next
        case f: False
        obtain c4 s4 where 4: "streamUninitServer ?c s3 = (c4, s4)" by fastforce
        from a3 f have "adds s s3 {fd c} {pc} {}" by simp
        from streamUninitServer_adds [OF 4 this] pos have "adds s s4 {} {pc} {}" by simp
        from adds_free [OF this, of pc] i 1 2 3 4 False e f show ?thesis by (simp add: streamServerInit_def)
      qed
    qed
  qed
qed

section \<open>The server's invariant\<close>

text \<open>
  \<open>H\<close> and \<open>F\<close> are the heap blocks and descriptors of the rest of the process. The server
  owns its context, the blocks of the users in the table, its own descriptor and the users'
  descriptors, each once, and nothing else. A user whose connection has ended, but whose thread
  has not yet taken it out of the table, has descriptor -1.
\<close>

definition user_fds :: "user_store \<Rightarrow> int set" where
  "user_fds us = {n. 0 < n \<and> (\<exists>p u. us p = Some u \<and> user_fd u = n)}"

text \<open>No user has descriptor 0, and no two users share an open descriptor.\<close>

definition users_ok :: "user_store \<Rightarrow> bool" where
  "users_ok us \<longleftrightarrow> (\<forall>p u. us p = Some u \<longrightarrow> user_fd u \<noteq> 0) \<and>
     (\<forall>p q u w. us p = Some u \<longrightarrow> us q = Some w \<longrightarrow> 0 < user_fd u \<longrightarrow> user_fd u = user_fd w \<longrightarrow> p = q)"

lemma users_okD:
  "users_ok us \<Longrightarrow> us p = Some u \<Longrightarrow> user_fd u \<noteq> 0"
  "users_ok us \<Longrightarrow> us p = Some u \<Longrightarrow> us q = Some w \<Longrightarrow> 0 < user_fd u \<Longrightarrow> user_fd u = user_fd w \<Longrightarrow> p = q"
  by (simp_all add: users_ok_def)

lemma users_okI:
  assumes "\<And>p u. us p = Some u \<Longrightarrow> user_fd u \<noteq> 0"
    and "\<And>p q u w. us p = Some u \<Longrightarrow> us q = Some w \<Longrightarrow> 0 < user_fd u \<Longrightarrow> user_fd u = user_fd w \<Longrightarrow> p = q"
  shows "users_ok us"
  unfolding users_ok_def by (intro conjI allI impI) (rule assms; assumption)+

definition server_core :: "addr set \<Rightarrow> int set \<Rightarrow> addr \<Rightarrow> stream_server_ctx \<Rightarrow> user_store \<Rightarrow> 'a world \<Rightarrow> bool" where
  "server_core H F pc c us s \<longleftrightarrow> wf_world s \<and> 0 \<in> F \<and>
     slots_ok ((table c)\<lparr>num := int (card (dom us))\<rparr>) (dom us) \<and>
     heap s = insert pc (dom us \<union> H) \<and> pc \<notin> dom us \<and> pc \<notin> H \<and> dom us \<inter> H = {} \<and>
     0 < fd c \<and> fds s = insert (fd c) (user_fds us \<union> F) \<and> fd c \<notin> user_fds us \<and> fd c \<notin> F \<and>
     user_fds us \<inter> F = {} \<and>
     users_ok us"

definition server_inv :: "addr set \<Rightarrow> int set \<Rightarrow> addr \<Rightarrow> stream_server_ctx \<Rightarrow> user_store \<Rightarrow> 'a world \<Rightarrow> bool" where
  "server_inv H F pc c us s \<longleftrightarrow> server_core H F pc c us s \<and> num (table c) = int (card (dom us))"

lemma user_fds_None: "user_fds Map.empty = {}"
  by (simp add: user_fds_def)

lemma user_fds_add:
  assumes "p \<notin> dom us" "0 < user_fd u"
  shows "user_fds (us(p \<mapsto> u)) = insert (user_fd u) (user_fds us)"
  using assms by (auto simp: user_fds_def set_eq_iff)

lemma user_fds_del:
  assumes "us p = Some u" and d: "users_ok us"
  shows "user_fds (us(p := None)) = user_fds us - {user_fd u}"
proof (rule set_eqI)
  fix n
  show "n \<in> user_fds (us(p := None)) \<longleftrightarrow> n \<in> user_fds us - {user_fd u}"
  proof
    assume "n \<in> user_fds (us(p := None))"
    then obtain q w where q: "q \<noteq> p" "us q = Some w" "user_fd w = n" "0 < n"
      by (auto simp: user_fds_def split: if_splits)
    then have "n \<noteq> user_fd u" using users_okD(2) [OF d q(2) assms(1)] q by auto
    with q show "n \<in> user_fds us - {user_fd u}" by (auto simp: user_fds_def)
  next
    assume "n \<in> user_fds us - {user_fd u}"
    then obtain q w where "us q = Some w" "user_fd w = n" "0 < n" "n \<noteq> user_fd u"
      by (auto simp: user_fds_def)
    moreover from this have "q \<noteq> p" using assms(1) by auto
    ultimately show "n \<in> user_fds (us(p := None))" by (auto simp: user_fds_def)
  qed
qed

lemma users_ok_del: "users_ok us \<Longrightarrow> users_ok (us(p := None))"
  by (rule users_okI) (auto simp: users_okD split: if_splits)

lemma users_ok_add:
  assumes "users_ok us" "0 < user_fd u" "\<forall>q w. us q = Some w \<longrightarrow> user_fd w \<noteq> user_fd u"
  shows "users_ok (us(p \<mapsto> u))"
  by (rule users_okI) (use assms users_okD [OF assms(1)] in \<open>auto split: if_splits\<close>)

lemma users_ok_upd:
  assumes o: "users_ok us" and u: "us p = Some u" and k: "user_fd u' = user_fd u \<or> user_fd u' = -1"
  shows "users_ok (us(p \<mapsto> u'))"
proof -
  let ?us = "us(p \<mapsto> u')"
  have v: "\<exists>v. us q = Some v \<and> (user_fd w = user_fd v \<or> user_fd w = -1)" if "?us q = Some w" for q w
    using that u k by (cases "q = p") auto
  have "p1 = p2" if a: "?us p1 = Some u1" "?us p2 = Some u2" "0 < user_fd u1" "user_fd u1 = user_fd u2" for p1 p2 u1 u2
  proof -
    obtain v1 v2 where "us p1 = Some v1" "user_fd v1 = user_fd u1" "us p2 = Some v2" "user_fd v2 = user_fd u2"
      using v [OF a(1)] v [OF a(2)] a(3,4) by auto
    with a(3,4) users_okD(2) [OF o] show ?thesis by metis
  qed
  moreover have "user_fd w \<noteq> 0" if a: "?us q = Some w" for q w
  proof -
    obtain v1 where "us q = Some v1" "user_fd w = user_fd v1 \<or> user_fd w = -1" using v [OF a] by blast
    with users_okD(1) [OF o] show ?thesis by auto
  qed
  ultimately show ?thesis by (rule users_okI [rotated])
qed

lemma user_fds_closed:
  assumes "us p = Some u" "user_fd u' \<le> 0"
  shows "user_fds (us(p \<mapsto> u')) = user_fds (us(p := None))"
  using assms by (auto simp: user_fds_def set_eq_iff)

text \<open>Disconnecting a user that is in the table.\<close>

lemma streamDisconnectClient_core:
  assumes core: "server_core H F pc c us s" and u: "us p = Some u"
    and d: "streamDisconnectClient p (c, us, s) = (c', us', s')"
  shows "server_core H F pc c' us' s' \<and> us' = us(p := None) \<and> faults s' = faults s \<and> calls s' = calls s \<and>
    fd c' = fd c \<and> c' = c\<lparr>table := clear_slot p (table c)\<rparr>"
proof -
  let ?t = "(table c)\<lparr>num := int (card (dom us))\<rparr>"
  have ok: "slots_ok ?t (dom us)" and w: "wf_world s" using core by (simp_all add: server_core_def)
  have p: "p \<noteq> NULL" "p \<in> heap s" "p \<in> dom us"
    using user_slots.ok_num [OF ok] u core by (auto simp: server_core_def)
  obtain s1 where s1: "s1 = (if 0 < user_fd u then sys_close (user_fd u) (pthread_cancel (user_thread u) s) else s)"
    by simp
  have 1: "wf_world s1" "faults s1 = faults s" "calls s1 = calls s" "heap s1 = heap s"
    "fds s1 = (if 0 < user_fd u then fds s - {user_fd u} else fds s)"
    using sys_close_rule [of "pthread_cancel (user_thread u) s" "user_fd u"]
      pthread_cancel_rule [of "user_thread u" s] w by (simp_all add: s1 quiet_def res_def)
  have e: "c' = c\<lparr>table := clear_slot p (table c)\<rparr>" "us' = us(p := None)" "s' = c_free p s1"
    using d u p(1) by (simp_all add: streamDisconnectClient_def s1)
  have p1: "p \<in> heap s1" using p 1 by simp
  note f = c_free_rule [OF 1(1) p1]
  have t: "slots_ok ((table c')\<lparr>num := int (card (dom us'))\<rparr>) (dom us')"
  proof -
    from find_member [OF ok p(3)] obtain i where i: "find_slot p (cap (table c)) (tbl (table c)) = Some i" by auto
    from find_slot_Some [OF this] clear_at [OF ok _ _ p(1), of i]
    have "slots_ok (?t\<lparr>tbl := (tbl ?t)[i := NULL], num := num ?t - 1\<rparr>) (dom us - {p})" by simp
    moreover have "int (card (dom us - {p})) = num ?t - 1"
    proof -
      have "Suc (card (dom us - {p})) = card (dom us)"
        using user_slots.ok_num [OF ok] p(3) by (intro card_Suc_Diff1) simp_all
      moreover have "num ?t = int (card (dom us))" by simp
      ultimately show ?thesis by linarith
    qed
    ultimately show ?thesis by (simp add: e clear_slot_def i)
  qed
  have fd: "fds s' = insert (fd c) (user_fds us' \<union> F) \<and> fd c \<notin> user_fds us' \<and> user_fds us' \<inter> F = {}"
  proof -
    have del: "user_fds us' = user_fds us - {user_fd u}"
      unfolding e(2) by (rule user_fds_del [where us = us, OF u]) (use core in \<open>simp add: server_core_def\<close>)
    have "0 < user_fd u \<Longrightarrow> user_fd u \<in> user_fds us" "\<not> 0 < user_fd u \<Longrightarrow> user_fd u \<notin> user_fds us"
      using u by (auto simp: user_fds_def)
    then show ?thesis
      using core f 1 unfolding server_core_def del e(3) by (auto simp: insert_Diff_if Un_Diff disjoint_iff)
  qed
  have h: "heap s' = insert pc (dom us' \<union> H) \<and> pc \<notin> dom us' \<and> dom us' \<inter> H = {}"
    using core f 1 p(3) unfolding server_core_def e by (auto simp: insert_Diff_if Un_Diff disjoint_iff)
  have uo: "users_ok us'" using core users_ok_del unfolding e(2) by (simp add: server_core_def)
  have c': "fd c' = fd c" by (simp add: e)
  have "server_core H F pc c' us' s'"
    using core t fd h f uo unfolding server_core_def c' e(3) by simp
  with f 1 e c' show ?thesis by (simp add: quiet_def)
qed

lemma slots_num_id: "num t = k \<Longrightarrow> t\<lparr>num := k\<rparr> = t"
  by (cases t) simp

lemma server_inv_slots:
  assumes "server_inv H F pc c us s"
  shows "slots_ok (table c) (dom us)"
proof -
  have "num (table c) = int (card (dom us))" "slots_ok ((table c)\<lparr>num := int (card (dom us))\<rparr>) (dom us)"
    using assms by (simp_all add: server_inv_def server_core_def)
  then show ?thesis by (simp only: slots_num_id)
qed

lemma server_inv_frame:
  assumes "server_inv H F pc c us s" "wf_world s'" "fds s' = fds s" "heap s' = heap s"
  shows "server_inv H F pc c us s'"
  using assms by (simp add: server_inv_def server_core_def)

lemma server_core_fresh:
  assumes "server_core H (insert n F) pc c us s" "0 < n"
  shows "n \<noteq> fd c \<and> (\<forall>p u. us p = Some u \<longrightarrow> user_fd u \<noteq> n)"
proof -
  have "n \<notin> user_fds us" "n \<noteq> fd c" using assms by (auto simp: server_core_def)
  then show ?thesis using assms(2) by (auto simp: user_fds_def)
qed

lemma streamAcceptClient_inv:
  assumes inv: "server_inv H (insert n F) pc c us s" and n: "n \<notin> F" "0 < n"
    and a: "streamAcceptClient (pure_app f) pc c us addr n s = (p, c', us', s')"
  shows "faults s' = faults s \<and>
    (if p = NULL then c' = c \<and> us' = us \<and> server_inv H (insert n F) pc c us s'
     else server_inv H F pc c' us' s' \<and> p \<notin> dom us \<and>
       (\<exists>u. us' = us(p \<mapsto> u) \<and> user_fd u = n \<and> user_addr u = addr \<and> pServer u = pc))"
proof -
  note ok = server_inv_slots [OF inv]
  have w: "wf_world s" using inv by (simp add: server_inv_def server_core_def)
  show ?thesis
  proof (cases "cap (table c) \<le> num (table c)")
    case True
    with a inv show ?thesis by (auto simp: streamAcceptClient_def streamAcceptCreate_def)
  next
    case nf: False
    with ok have "find_slot NULL (cap (table c)) (tbl (table c)) \<noteq> None"
      using find_free [OF ok] user_slots.ok_num [OF ok] by auto
    then obtain i where i: "find_slot NULL (cap (table c)) (tbl (table c)) = Some i" by blast
    obtain q s1 where 1: "c_malloc s = (q, s1)" by fastforce
    note a1 = adds_malloc [OF adds_refl [OF w] 1]
    show ?thesis
    proof (cases "q = NULL")
      case True
      with a1 have "adds s s1 {} {} {}" by simp
      with True nf i 1 a inv show ?thesis
        by (auto simp: streamAcceptClient_def streamAcceptCreate_def adds_def quiet_def intro: server_inv_frame)
    next
      case q: False
      let ?s1 = "if is_unix addr then s1 else sys_setsockopt n ''TCP_NODELAY'' s1"
      have q1: "q \<notin> heap s" "adds s ?s1 {} {q} {}" using a1 q adds_setsockopt [of s s1] by simp_all
      obtain e t s2 where 2: "pthread_create True ?s1 = (e, t, s2)"
        by (metis prod_cases3)
      note a2 = adds_create [OF q1(2) 2]
      show ?thesis
      proof (cases "e = 0")
        case False
        with a2 have "adds s (c_free q s2) {} {} {}" using adds_free [of s s2 "{}" "{q}" "{}" q] by simp
        with False q nf i 1 2 a inv show ?thesis
          by (auto simp: streamAcceptClient_def streamAcceptCreate_def adds_def quiet_def intro: server_inv_frame)
      next
        case True
        with a2 have s2: "adds s s2 {} {q} {t}" by simp
        obtain u :: stream_user where u: "u = \<lparr>pServer = pc, user_addr = addr, user_fd = n, user_thread = t,
            user_recvMsg = recv_buffer\<rparr>" by simp
        obtain s3 where s3: "s3 = (if pServerAcptFunc c \<noteq> NULL
            then invoke (pure_app f) (AcptCb (pServerAcptFunc c) (pServerArg c) q) s2 else s2)" by simp
        have w3: "wf_world s3 \<and> fds s3 = fds s \<and> heap s3 = insert q (heap s) \<and> faults s3 = faults s"
          using s2 by (simp add: s3 adds_def quiet_def invoke_deliver)
        have r: "p = q" "c' = streamAcceptRegister i q c" "us' = us(q \<mapsto> u)" "s' = s3"
        proof -
          have "streamAcceptClient (pure_app f) pc c us addr n s = (q, streamAcceptRegister i q c, us(q \<mapsto> u), s3)"
            using nf i 1 2 q True by (simp add: streamAcceptClient_def streamAcceptCreate_def u s3)
          with a show "p = q" "c' = streamAcceptRegister i q c" "us' = us(q \<mapsto> u)" "s' = s3" by auto
        qed
        have d: "q \<notin> dom us" "q \<noteq> pc" "q \<notin> H" "finite (dom us)"
          using inv q1(1) ok by (auto simp: server_inv_def server_core_def slots_ok_def)
        have t: "slots_ok (table c') (insert q (dom us))"
          using put_at [OF ok _ _ q d(1), of i] find_slot_Some [OF i] by (simp add: r streamAcceptRegister_def)
        note m = user_slots.ok_num [OF t]
        have dom: "dom us' = insert q (dom us)" by (simp add: r)
        have e: "user_fds us' = insert n (user_fds us)"
          using user_fds_add [OF d(1), of u] n(2) by (simp add: r u)
        have c': "fd c' = fd c" by (simp add: r streamAcceptRegister_def)
        have core: "server_core H (insert n F) pc c us s" using inv by (simp add: server_inv_def)
        have uniq: "users_ok us'"
          using core server_core_fresh [OF core n(2)] n(2) unfolding r(3)
          by (intro users_ok_add) (simp_all add: u server_core_def)
        have "server_core H F pc c' us' s'"
          unfolding server_core_def c' dom e
        proof (intro conjI)
          show "slots_ok ((table c')\<lparr>num := int (card (insert q (dom us)))\<rparr>) (insert q (dom us))"
            using t m by (simp only: slots_num_id)
          show "heap s' = insert pc (insert q (dom us) \<union> H)" using core w3 by (simp add: r server_core_def insert_commute)
          show "insert q (dom us) \<inter> H = {}" using core d by (simp add: server_core_def)
          show "insert n (user_fds us) \<inter> F = {}" using core n by (simp add: server_core_def)
          show "fds s' = insert (fd c) (insert n (user_fds us) \<union> F)" using core w3 by (simp add: r server_core_def)
          show "wf_world s'" using w3 by (simp add: r)
          show "0 \<in> F" using core n(2) by (simp add: server_core_def)
          show "pc \<notin> insert q (dom us)" "pc \<notin> H" "0 < fd c" "fd c \<notin> F" "fd c \<notin> insert n (user_fds us)"
            using core d(2) by (simp_all add: server_core_def)
        qed (rule uniq)
        then have "server_inv H F pc c' us' s'" using m dom by (simp add: server_inv_def)
        with r d w3 q show ?thesis by (auto simp: u)
      qed
    qed
  qed
qed

lemma server_core_take:
  assumes inv: "server_inv H F pc c us s" and n: "n \<notin> fds s"
    and w: "wf_world s1" "heap s1 = heap s" "fds s1 = insert n (fds s)"
  shows "server_inv H (insert n F) pc c us s1"
proof -
  have core: "server_core H F pc c us s" using inv by (simp add: server_inv_def)
  have d: "n \<notin> F" "n \<noteq> fd c" "n \<notin> user_fds us" using n core by (auto simp: server_core_def)
  have "server_core H (insert n F) pc c us s1"
    unfolding server_core_def
  proof (intro conjI)
    show "user_fds us \<inter> insert n F = {}" "fds s1 = insert (fd c) (user_fds us \<union> insert n F)"
      using core d w by (simp_all add: server_core_def insert_commute)
  qed (use core d w in \<open>simp_all add: server_core_def\<close>)
  then show ?thesis using inv by (simp add: server_inv_def)
qed

lemma server_core_drop:
  assumes inv: "server_inv H (insert n F) pc c us s" and n: "n \<notin> F" "n \<noteq> 0"
    and w: "wf_world s1" "heap s1 = heap s" "fds s1 = fds s - {n}"
  shows "server_inv H F pc c us s1"
proof -
  have core: "server_core H (insert n F) pc c us s" using inv by (simp add: server_inv_def)
  have d: "n \<noteq> fd c" "n \<notin> user_fds us" using core by (auto simp: server_core_def)
  have "server_core H F pc c us s1"
    unfolding server_core_def
  proof (intro conjI)
    show "fds s1 = insert (fd c) (user_fds us \<union> F)"
    proof -
      have "fds s = insert (fd c) (user_fds us \<union> insert n F)" using core by (simp add: server_core_def)
      with w(3) d n show ?thesis by (auto simp: set_eq_iff)
    qed
  qed (use core d w n in \<open>simp_all add: server_core_def\<close>)
  then show ?thesis using inv by (simp add: server_inv_def)
qed

text \<open>The listen thread's local variable plays no part in the invariant.\<close>

lemma accept_addr_ctx:
  assumes "accept_addr c a = (pa, c')"
  obtains nb where "c' = c\<lparr>clitAddr := nb\<rparr>"
proof (cases "is_unix (localAddr c)")
  case True
  with assms have "c' = c\<lparr>clitAddr := get_name a (clitAddr c)\<rparr>" by (auto simp: accept_addr_def Let_def)
  then show thesis by (rule that)
next
  case False
  with assms have "c' = c\<lparr>clitAddr := clitAddr c\<rparr>" by (simp add: accept_addr_def)
  then show thesis by (rule that)
qed

lemma server_inv_clit: "server_inv H F pc (c\<lparr>clitAddr := nb\<rparr>) us s = server_inv H F pc c us s"
  by (simp add: server_inv_def server_core_def)

lemma streamListenBody_inv:
  assumes inv: "server_inv H F pc c us s"
    and b: "streamListenBody (pure_app f) t pc (c, us, s) = (fl, c', us', s')"
  shows "server_inv H F pc c' us' s' \<and> faults s' = faults s \<and> (\<exists>tb nb. c' = c\<lparr>table := tb, clitAddr := nb\<rparr> \<and> cap tb = cap (table c))"
proof (cases "pthread_testcancel t s")
  case True
  have "\<exists>tb nb. c = c\<lparr>table := tb, clitAddr := nb\<rparr> \<and> cap tb = cap (table c)"
    by (rule exI [of _ "table c"], rule exI [of _ "clitAddr c"]) simp
  with True b inv show ?thesis by (auto simp: streamListenBody_def)
next
  case False
  have w: "wf_world s" "0 \<in> fds s" using inv by (auto simp: server_inv_def server_core_def)
  obtain n a s1 where 1: "sys_accept (fd c) s = (n, a, s1)" by (metis prod_cases3)
  note w1 = sys_accept_rule [OF 1 w(1)]
  show ?thesis
  proof (cases "n < 0")
    case True
    with w1 have "server_inv H F pc c us s1" using server_inv_frame [OF inv] by auto
    moreover have "\<exists>tb nb. c = c\<lparr>table := tb, clitAddr := nb\<rparr> \<and> cap tb = cap (table c)"
      by (rule exI [of _ "table c"], rule exI [of _ "clitAddr c"]) simp
    ultimately show ?thesis using True False b 1 w1 by (auto simp: streamListenBody_def quiet_def)
  next
    case n: False
    with w1 have n1: "0 \<le> n" "n \<notin> fds s" "fds s1 = insert n (fds s)" "heap s1 = heap s" "wf_world s1"
      "faults s1 = faults s" "cancels s1 = cancels s" by (auto simp: quiet_def)
    with w(2) have pos: "0 < n" using order_le_less [of 0 n] by auto
    have nF: "n \<notin> F" using n1(2) inv by (auto simp: server_inv_def server_core_def)
    have inv1: "server_inv H (insert n F) pc c us s1" using server_core_take [OF inv n1(2,5,4,3)] .
    have nc: "\<not> pthread_testcancel t s1" using False n1 by (simp add: pthread_testcancel_def)
    obtain pa ca where ca: "accept_addr c a = (pa, ca)" by fastforce
    then obtain nb where nb: "ca = c\<lparr>clitAddr := nb\<rparr>" by (rule accept_addr_ctx)
    have inv2: "server_inv H (insert n F) pc ca us s1" using inv1 by (simp add: nb server_inv_clit)
    obtain p c2 us2 s2 where 2: "streamAcceptClient (pure_app f) pc ca us pa n s1 = (p, c2, us2, s2)"
      by (metis prod_cases4)
    note a2 = streamAcceptClient_inv [OF inv2 nF pos 2]
    have r: "c' = c2" "us' = us2" "s' = (if p = NULL then sys_close n s2 else s2)"
      using b False 1 n nc 2 ca by (auto simp: streamListenBody_def)
    obtain tb where "c2 = ca\<lparr>table := tb\<rparr>" "cap tb = cap (table ca)"
      using 2 by (auto simp: streamAcceptClient_def streamAcceptRegister_def intro: that [of "table ca"]
          split: prod.splits option.splits)
    then have "c2 = c\<lparr>table := tb, clitAddr := nb\<rparr>" "cap tb = cap (table c)" by (simp_all add: nb)
    then have tb: "\<exists>tb nb. c2 = c\<lparr>table := tb, clitAddr := nb\<rparr> \<and> cap tb = cap (table c)" by blast
    show ?thesis
    proof (cases "p = NULL")
      case True
      with a2 have i2: "server_inv H (insert n F) pc ca us s2" "c2 = ca" "us2 = us" "faults s2 = faults s1" by simp_all
      then have "wf_world s2" by (simp add: server_inv_def server_core_def)
      with server_core_drop [OF i2(1) nF _, of "sys_close n s2"] sys_close_rule [of s2 n] pos i2 r True tb n1
      show ?thesis by (simp add: quiet_def)
    next
      case False
      with a2 r tb n1 show ?thesis by simp
    qed
  qed
qed

lemma server_inv_user:
  assumes inv: "server_inv H F pc c us s" and u: "us p = Some u"
    and w: "wf_world s'" "heap s' = heap s"
    and k: "user_fd u' = user_fd u \<and> fds s' = fds s \<or>
      0 < user_fd u \<and> user_fd u' = -1 \<and> fds s' = fds s - {user_fd u}"
  shows "server_inv H F pc c (us(p \<mapsto> u')) s'"
proof -
  have core: "server_core H F pc c us s" using inv by (simp add: server_inv_def)
  have dom: "dom (us(p \<mapsto> u')) = dom us" using u by (simp add: insert_absorb domI)
  let ?us = "us(p \<mapsto> u')"
  have ok: "users_ok us" "users_ok ?us" using core users_ok_upd [of us p u u'] u k by (auto simp: server_core_def)
  from k have "server_core H F pc c ?us s'"
  proof
    assume k: "user_fd u' = user_fd u \<and> fds s' = fds s"
    have e: "user_fds ?us = user_fds us"
      using u k unfolding user_fds_def set_eq_iff mem_Collect_eq fun_upd_apply by (metis option.inject)
    show ?thesis using core w k ok unfolding server_core_def dom e by simp
  next
    assume k: "0 < user_fd u \<and> user_fd u' = -1 \<and> fds s' = fds s - {user_fd u}"
    have e: "user_fds ?us = user_fds us - {user_fd u}"
      using user_fds_closed [of us p u u'] user_fds_del [where us = us, OF u ok(1)] u k by simp
    have m: "user_fd u \<in> user_fds us" using u k by (auto simp: user_fds_def)
    have "fds s' = insert (fd c) ((user_fds us - {user_fd u}) \<union> F)"
    proof -
      have "user_fd u \<noteq> fd c" "user_fd u \<notin> F" "fds s = insert (fd c) (user_fds us \<union> F)"
        using core m by (auto simp: server_core_def)
      with k show ?thesis by (auto simp: set_eq_iff)
    qed
    moreover have "(user_fds us - {user_fd u}) \<inter> F = {}" using core by (auto simp: server_core_def disjoint_iff)
    ultimately show ?thesis using core w ok unfolding server_core_def dom e by simp
  qed
  with inv dom show ?thesis by (simp add: server_inv_def)
qed

lemma streamServerRecvBody_inv:
  assumes inv: "server_inv H F pc c us s" and u: "us p = Some u" "0 < user_fd u"
    and b: "streamServerRecvBody (pure_app f) t c p (u, s) = (fl, u', s')"
  shows "server_inv H F pc c (us(p \<mapsto> u')) s' \<and> faults s' = faults s \<and>
    user_fd u' = (if fl = Break then -1 else user_fd u)"
proof (cases "pthread_testcancel t s")
  case True
  with b inv u show ?thesis by (auto simp: streamServerRecvBody_def fun_upd_idem)
next
  case False
  have w: "wf_world s" using inv by (simp add: server_inv_def server_core_def)
  obtain len bs s1 where 1: "sys_recv (user_fd u) COMM_BUF_SIZE s = (len, bs, s1)" by (metis prod_cases3)
  note w1 = sys_recv_rule [OF 1 w]
  show ?thesis
  proof (cases "recv_stops (localAddr c) len")
    case True
    with b False 1 have r: "fl = Break" "user_fd u' = -1" "s' = deliver f
        (if pServerExitFunc c \<noteq> NULL then [UserExitCb (pServerExitFunc c) (pServerArg c) p] else [])
        (sys_close (user_fd u) s1)"
      by (auto simp: streamServerRecvBody_def Let_def invoke_deliver)
    have "wf_world s'" "heap s' = heap s" "fds s' = fds s - {user_fd u}" "faults s' = faults s"
      using w1 sys_close_rule [of s1 "user_fd u"] by (simp_all add: r quiet_def res_def)
    with server_inv_user [OF inv u(1), of s' u'] u(2) r show ?thesis by simp
  next
    case nz: False
    with b False 1 have r: "fl \<noteq> Break" "user_fd u' = user_fd u"
      "\<exists>cs. s' = deliver f cs s1"
      by (auto simp: streamServerRecvBody_def Let_def invoke_deliver intro: exI [of _ "[]"] split: if_splits)
    then have "wf_world s'" "heap s' = heap s" "fds s' = fds s" "faults s' = faults s"
      using w1 by (auto simp: quiet_def res_def)
    with server_inv_user [OF inv u(1), of s' u'] r show ?thesis by simp
  qed
qed

lemma streamDisconnectClient_inv:
  assumes inv: "server_inv H F pc c us s" and u: "us p = Some u"
    and d: "streamDisconnectClient p (c, us, s) = (c', us', s')"
  shows "server_inv H F pc c' us' s' \<and> us' = us(p := None) \<and> faults s' = faults s \<and>
    c' = c\<lparr>table := clear_slot p (table c)\<rparr>"
proof -
  have core: "server_core H F pc c us s" using inv by (simp add: server_inv_def)
  note c1 = streamDisconnectClient_core [OF core u d]
  have ok: "slots_ok (table c) (dom us)" using server_inv_slots [OF inv] .
  have "p \<noteq> NULL" using user_slots.ok_num [OF ok] u by auto
  from user_slots.del_ok [OF ok this] have "slots_ok (clear_slot p (table c)) (dom us - {p})" by simp
  from user_slots.ok_num [OF this] have "num (table c') = int (card (dom us'))" using c1 by simp
  with c1 show ?thesis unfolding server_inv_def by blast
qed

section \<open>The running server\<close>

text \<open>
  What can happen while a server runs, in any order: the listen thread makes a turn, the thread
  of a connected user makes a turn, the thread of a user whose connection has ended takes the
  user out of the table, the application sends. The initial contents of the listen thread's
  local variable are whatever its stack held. Accepting a connection is one turn here; the
  theory \<open>Server_Race\<close> looks inside it.
\<close>

inductive server_step :: "(callback \<Rightarrow> 'a \<Rightarrow> 'a) \<Rightarrow> addr \<Rightarrow> stream_server_ctx \<times> user_store \<times> 'a world \<Rightarrow>
    stream_server_ctx \<times> user_store \<times> 'a world \<Rightarrow> bool" for f pc where
  accept: "running c \<noteq> 0 \<Longrightarrow> streamListenBody (pure_app f) (thread c) pc (c, us, s) = (fl, c', us', s') \<Longrightarrow>
     server_step f pc (c, us, s) (c', us', s')"
| receive: "us p = Some u \<Longrightarrow> 0 < user_fd u \<Longrightarrow>
     streamServerRecvBody (pure_app f) (user_thread u) c p (u, s) = (fl, u', s') \<Longrightarrow>
     server_step f pc (c, us, s) (c, us(p \<mapsto> u'), s')"
| leave: "us p = Some u \<Longrightarrow> user_fd u \<le> 0 \<Longrightarrow> streamDisconnectClient p (c, us, s) = (c', us', s') \<Longrightarrow>
     server_step f pc (c, us, s) (c', us', s')"
| send: "p \<in> dom us \<union> {NULL} \<Longrightarrow> streamServerSend p us pData n s = (r, s') \<Longrightarrow>
     server_step f pc (c, us, s) (c, us, s')"
| stack: "server_step f pc (c, us, s) (c\<lparr>clitAddr := nb\<rparr>, us, s)"
| send_all: "server_step f pc (c, us, s) (c, us, streamServerSendAllClient (Some (pc, c)) us pData n s)"

inductive server_reach :: "(callback \<Rightarrow> 'a \<Rightarrow> 'a) \<Rightarrow> addr \<Rightarrow> stream_server_ctx \<times> user_store \<times> 'a world \<Rightarrow>
    stream_server_ctx \<times> user_store \<times> 'a world \<Rightarrow> bool" for f pc st where
  start: "server_reach f pc st st"
| step: "server_reach f pc st st' \<Longrightarrow> server_step f pc st' st'' \<Longrightarrow> server_reach f pc st st''"

inductive_cases server_stepE: "server_step f pc (c, us, s) (c', us', s')"

lemma streamServerSend_frame:
  assumes "streamServerSend p us pData n s = (r, s')" "p \<in> dom us \<union> {NULL}" "wf_world s"
  shows "quiet s s' \<and> wf_world s' \<and> res s' = res s"
proof -
  have q: "quiet s s' \<and> wf_world s' \<and> res s' = res s" if "sys_sendto m bs a s = (r, s')" for m bs a
    using sys_sendto_rule [OF that assms(3)] by simp
  show ?thesis
    using assms by (auto simp: streamServerSend_def sys_send_def split: if_splits option.splits dest: q)
qed

lemma streamSendSlot_frame:
  assumes "p \<in> dom us \<union> {NULL}" "wf_world s"
  shows "quiet s (streamSendSlot us bs p s) \<and> wf_world (streamSendSlot us bs p s) \<and> res (streamSendSlot us bs p s) = res s"
proof -
  have "quiet s (snd (sys_sendto m bs a s)) \<and> wf_world (snd (sys_sendto m bs a s)) \<and>
      res (snd (sys_sendto m bs a s)) = res s" for m a
    using sys_sendto_rule [of m bs a s "fst (sys_sendto m bs a s)" "snd (sys_sendto m bs a s)"] assms(2) by simp
  with assms show ?thesis by (auto simp: streamSendSlot_def sys_send_def split: option.splits)
qed

lemma slots_member:
  assumes "slots_ok t U" "i < length (tbl t)"
  shows "tbl t ! i \<in> U \<union> {NULL}"
proof -
  have m: "mset (tbl t) = mset_set U + replicate_mset (length (tbl t) - card U) NULL" "finite U"
    using assms(1) by (simp_all add: slots_ok_def)
  have "tbl t ! i \<in># mset (tbl t)" using assms(2) by simp
  then have "tbl t ! i \<in># mset_set U + replicate_mset (length (tbl t) - card U) NULL" by (simp only: m(1))
  then show ?thesis using m(2) by (auto split: if_splits)
qed

lemma send_slots_frame:
  assumes "\<forall>i\<in>set is. tbl t ! i \<in> dom us \<union> {NULL}" "wf_world s"
  shows "quiet s (fold (\<lambda>i. streamSendSlot us bs (tbl t ! i)) is s) \<and>
    wf_world (fold (\<lambda>i. streamSendSlot us bs (tbl t ! i)) is s) \<and>
    res (fold (\<lambda>i. streamSendSlot us bs (tbl t ! i)) is s) = res s"
  using assms
proof (induction "is" arbitrary: s)
  case Nil
  then show ?case by simp
next
  case (Cons i "is")
  let ?s = "streamSendSlot us bs (tbl t ! i) s"
  have "tbl t ! i \<in> dom us \<union> {NULL}" using Cons.prems by simp
  from streamSendSlot_frame [OF this] Cons.prems have f: "quiet s ?s \<and> wf_world ?s \<and> res ?s = res s" by blast
  with Cons.IH [of ?s] Cons.prems quiet_trans [of s ?s] show ?case by simp
qed

lemma server_step_inv:
  assumes "server_step f pc (c, us, s) (c', us', s')" "server_inv H F pc c us s"
  shows "server_inv H F pc c' us' s' \<and> faults s' = faults s \<and> cap (table c') = cap (table c) \<and> thread c' = thread c"
proof -
  have w: "wf_world s" using assms(2) by (simp add: server_inv_def server_core_def)
  have ok: "slots_ok (table c) (dom us)" using server_inv_slots [OF assms(2)] .
  have frame: "server_inv H F pc c us s'" if "quiet s s' \<and> wf_world s' \<and> res s' = res s"
    using server_inv_frame [OF assms(2), of s'] that by (simp add: res_def)
  from assms(1) show ?thesis
  proof (rule server_stepE)
    fix fl assume "streamListenBody (pure_app f) (thread c) pc (c, us, s) = (fl, c', us', s')"
    from streamListenBody_inv [OF assms(2) this] show ?thesis by auto
  next
    fix p u fl u'
    assume "us p = Some u" "0 < user_fd u" "us' = us(p \<mapsto> u')" "c' = c"
      "streamServerRecvBody (pure_app f) (user_thread u) c p (u, s) = (fl, u', s')"
    with streamServerRecvBody_inv [OF assms(2)] show ?thesis by blast
  next
    fix p u assume "us p = Some u" "streamDisconnectClient p (c, us, s) = (c', us', s')"
    from streamDisconnectClient_inv [OF assms(2) this] show ?thesis
      by (auto simp: clear_slot_def split: option.splits)
  next
    fix p pData n r
    assume "us = us'" "c' = c" "p = NULL \<or> p \<in> dom us'" and s: "streamServerSend p us' pData n s = (r, s')"
    with streamServerSend_frame [OF s _ w] frame show ?thesis by (auto simp: quiet_def)
  next
    fix nb assume "c' = c\<lparr>clitAddr := nb\<rparr>" "us' = us" "s' = s"
    with assms(2) show ?thesis by (simp add: server_inv_clit)
  next
    fix pData n
    assume r: "c = c'" "us' = us" "s' = streamServerSendAllClient (Some (pc, c')) us pData n s"
    have "i < nat (cap (table c)) \<Longrightarrow> i < length (tbl (table c))" for i using ok by (auto simp: slots_ok_def)
    then have "\<forall>i\<in>set [0..<nat (cap (table c))]. tbl (table c) ! i \<in> dom us \<union> {NULL}"
      using slots_member [OF ok] by simp
    from send_slots_frame [OF this w] r have "quiet s s' \<and> wf_world s' \<and> res s' = res s"
      using w by (auto simp: streamServerSendAllClient_def split: option.splits)
    with frame r show ?thesis by (simp add: quiet_def)
  qed
qed

lemma server_reach_inv:
  assumes "server_reach f pc (c, us, s) st" "server_inv H F pc c us s"
  shows "case st of (c', us', s') \<Rightarrow>
    server_inv H F pc c' us' s' \<and> faults s' = faults s \<and> cap (table c') = cap (table c) \<and> thread c' = thread c"
  using assms(1)
proof induction
  case start
  with assms(2) show ?case by simp
next
  case (step st' st'')
  obtain c' us' s' where 1: "st' = (c', us', s')" by (metis prod_cases3)
  obtain c2 us2 s2 where 2: "st'' = (c2, us2, s2)" by (metis prod_cases3)
  from step 1 2 have "server_step f pc (c', us', s') (c2, us2, s2)" "server_inv H F pc c' us' s'" by simp_all
  from server_step_inv [OF this] step 1 2 show ?case by simp
qed

lemma streamServerInit_inv:
  assumes i: "streamServerInit la m af xf rf a s = (Some (pc, c), s')" and w: "wf_world s" and z: "0 \<in> fds s"
    and l: "fits la"
  shows "server_inv (heap s) (fds s) pc c Map.empty s' \<and> faults s' = faults s \<and>
    cap (table c) = (if m = 0 \<or> 32 < m then 32 else m) \<and> thread c \<in> threads s'"
proof -
  from streamServerInit_adds [OF i w z l] have a: "pc \<notin> heap s" "0 < fd c" "fd c \<notin> fds s"
    "adds s s' {fd c} {pc} {thread c}"
    and c: "c = (streamServerNewContext la m af xf rf a)\<lparr>fd := fd c, running := 1, thread := thread c\<rparr>"
    by simp_all
  from c have t: "table c = table (streamServerNewContext la m af xf rf a)"
    by (metis stream_server_ctx.select_convs(3) stream_server_ctx.surjective stream_server_ctx.update_convs(2,8,9))
  have "slots_ok (table c) {}"
    unfolding t streamServerNewContext_def stream_server_ctx.simps
    by (rule slots_empty) (auto simp: USER_NUM_def)
  moreover have n: "num (table c) = 0" by (simp add: t streamServerNewContext_def)
  ultimately have "slots_ok ((table c)\<lparr>num := 0\<rparr>) {}" by (simp only: slots_num_id)
  then have "server_inv (heap s) (fds s) pc c Map.empty s'"
    using a z n
    by (simp add: server_inv_def server_core_def adds_def user_fds_None users_ok_def)
  with a t show ?thesis by (simp add: streamServerNewContext_def USER_NUM_def adds_def quiet_def)
qed

text \<open>Un-initialisation walks over the slots.\<close>

lemma streamDisconnectSlots_inv:
  assumes "server_core H F pc c us s" "n \<le> nat (cap (table c))"
  shows "case streamDisconnectSlots n (c, us, s) of (c', us', s') \<Rightarrow>
    server_core H F pc c' us' s' \<and> (\<forall>i<n. tbl (table c') ! i = NULL) \<and>
    cap (table c') = cap (table c) \<and> fd c' = fd c \<and> thread c' = thread c \<and> faults s' = faults s \<and> calls s' = calls s"
  using assms(2)
proof (induction n)
  case 0
  with assms(1) show ?case by simp
next
  case (Suc n)
  obtain c1 us1 s1 where 1: "streamDisconnectSlots n (c, us, s) = (c1, us1, s1)" by (metis prod_cases3)
  with Suc have i1: "server_core H F pc c1 us1 s1" "\<forall>i<n. tbl (table c1) ! i = NULL"
    "cap (table c1) = cap (table c)" "fd c1 = fd c" "thread c1 = thread c" "faults s1 = faults s" "calls s1 = calls s"
    by simp_all
  let ?p = "tbl (table c1) ! n" and ?t = "(table c1)\<lparr>num := int (card (dom us1))\<rparr>"
  have ok: "slots_ok ?t (dom us1)" using i1 by (simp add: server_core_def)
  have n: "n < nat (cap (table c1))" "nat (cap (table c1)) \<le> length (tbl (table c1))"
    using Suc.prems i1(3) ok by (simp_all add: slots_ok_def)
  show ?case
  proof (cases "?p = NULL")
    case True
    with 1 i1 show ?thesis by (auto simp: streamDisconnectClient_def less_Suc_eq)
  next
    case False
    with slots_member [OF ok, of n] n obtain u where u: "us1 ?p = Some u" by auto
    obtain c2 us2 s2 where 2: "streamDisconnectClient ?p (c1, us1, s1) = (c2, us2, s2)" by (metis prod_cases3)
    note d = streamDisconnectClient_core [OF i1(1) u 2]
    have "find_slot ?p (cap (table c1)) (tbl (table c1)) \<noteq> None"
      using n by (auto simp: find_slot_None)
    then obtain k where k: "find_slot ?p (cap (table c1)) (tbl (table c1)) = Some k" by blast
    have "k = n"
      using find_slot_Some [OF k] i1(2) False by (metis linorder_neqE_nat)
    then have "tbl (table c2) = (tbl (table c1))[n := NULL]" "cap (table c2) = cap (table c1)"
      using d k by (auto simp: clear_slot_def)
    with 1 2 d i1 n show ?thesis by (auto simp: less_Suc_eq)
  qed
qed

lemma streamServerUninit_rule:
  assumes inv: "server_inv H F pc c us s"
    and u: "streamServerUninit (Some (pc, c)) us s = (us', s')"
  shows "us' = Map.empty \<and> fds s' = F \<and> heap s' = H \<and> faults s' = faults s \<and> calls s' = calls s \<and>
    thread c \<notin> threads s' \<and> wf_world s'"
proof -
  have core: "server_core H F pc c us s" using inv by (simp add: server_inv_def)
  obtain s1 where s1: "s1 = pthread_cancel (thread c) s" by simp
  obtain c1 where c1: "c1 = c\<lparr>running := 0, table := (table c)\<lparr>num := 0\<rparr>\<rparr>" by simp
  have w: "wf_world s1" "fds s1 = fds s" "heap s1 = heap s" "faults s1 = faults s" "calls s1 = calls s"
    using pthread_cancel_rule [of "thread c" s] core by (simp_all add: s1 server_core_def res_def)
  have core1: "server_core H F pc c1 us s1" using core w by (simp add: server_core_def c1)
  obtain c2 us2 s2 where 2: "streamDisconnectSlots (nat (cap (table c))) (c1, us, s1) = (c2, us2, s2)"
    by (metis prod_cases3)
  have "nat (cap (table c)) \<le> nat (cap (table c1))" by (simp add: c1)
  from streamDisconnectSlots_inv [OF core1 this] 2 have i2: "server_core H F pc c2 us2 s2"
    "\<forall>i<nat (cap (table c2)). tbl (table c2) ! i = NULL" "fd c2 = fd c" "thread c2 = thread c"
    "faults s2 = faults s" "calls s2 = calls s" using w by (simp_all add: c1)
  let ?t = "(table c2)\<lparr>num := int (card (dom us2))\<rparr>"
  have ok: "slots_ok ?t (dom us2)" using i2 by (simp add: server_core_def)
  have "dom us2 = {}"
  proof (rule ccontr)
    assume "dom us2 \<noteq> {}"
    then obtain p where p: "p \<in> dom us2" unfolding ex_in_conv [symmetric] by blast
    with user_slots.ok_num [OF ok] have "p \<noteq> NULL" by auto
    with find_member [OF ok p] i2(2) show False by (auto dest!: find_slot_Some)
  qed
  then have e: "us2 = Map.empty" by simp
  obtain c3 s3 where 3: "streamUninitServer c2 s2 = (c3, s3)" by fastforce
  have w2: "wf_world s2" "0 < fd c2" "pc \<in> heap s2" "heap s2 = insert pc H" "fds s2 = insert (fd c2) F"
    "fd c2 \<notin> F" "pc \<notin> H" using i2(1) by (simp_all add: server_core_def e user_fds_None)
  note u3 = streamUninitServer_rule [OF 3 w2(1)]
  obtain s4 where s4: "s4 = pthread_join (thread c) s3" by simp
  have w4: "wf_world s4" "heap s4 = heap s3" "fds s4 = fds s3" "faults s4 = faults s3" "calls s4 = calls s3"
    "thread c \<notin> threads s4" using pthread_join_rule [of "thread c" s3] u3 by (simp_all add: s4)
  have p4: "pc \<in> heap s4" using w4 u3 w2 by simp
  have "streamServerUninit (Some (pc, c)) us s = (us2, c_free pc s4)"
    using 2 3 u3 i2(4) by (simp add: streamServerUninit_def Let_def s1 c1 s4)
  with u have r: "us' = us2" "s' = c_free pc s4" by simp_all
  from c_free_rule [OF w4(1) p4] w4 u3 w2 i2 show ?thesis
    by (simp add: r e quiet_def)
qed

section \<open>A user's receive thread\<close>

definition user_key :: "stream_user \<times> 'a world \<Rightarrow> int" where
  "user_key st = user_fd (fst st)"

definition user_ready :: "tid \<Rightarrow> stream_user \<times> 'a world \<Rightarrow> bool" where
  "user_ready t st = (case st of (u, s) \<Rightarrow> 0 < user_fd u \<and> user_fd u \<in> fds s \<and> t \<notin> cancels s)"

definition user_calls :: "stream_server_ctx \<Rightarrow> addr \<Rightarrow> reply \<Rightarrow> callback list" where
  "user_calls c p r = (if pServerRecvFunc c = NULL then []
     else [UserRecvCb (pServerRecvFunc c) (pServerArg c) p (take COMM_BUF_SIZE (reply_data r))
       (word_of_nat (length (take COMM_BUF_SIZE (reply_data r))))])"

definition user_exit_calls :: "stream_server_ctx \<Rightarrow> addr \<Rightarrow> callback list" where
  "user_exit_calls c p = (if pServerExitFunc c = NULL then []
     else [UserExitCb (pServerExitFunc c) (pServerArg c) p])"

definition user_hang_up :: "(callback \<Rightarrow> 'a \<Rightarrow> 'a) \<Rightarrow> stream_server_ctx \<Rightarrow> addr \<Rightarrow> int \<Rightarrow> 'a world \<Rightarrow> 'a world" where
  "user_hang_up f c p n s = (let (len, bs, s) = sys_recv n COMM_BUF_SIZE s
     in deliver f (user_exit_calls c p) (sys_close n s))"

interpretation stream_server_thread: recv_loop "\<lambda>(u, s). 0 < user_fd u"
  "streamServerRecvBody (pure_app f) t c p" snd user_key "user_ready t" "server_good (localAddr c)" "\<lambda>_. user_calls c p" f
  "user_hang_up f c p" "\<lambda>k (u, s). user_fd u = -1" for f t c p
proof
  fix st :: "stream_user \<times> 'a world"
  obtain u s where st: "st = (u, s)" by fastforce
  assume r: "user_ready t st"
  then have m: "user_fd u \<in> fds s" "t \<notin> cancels s" by (simp_all add: st user_ready_def)
  from r show "case st of (u, s) \<Rightarrow> 0 < user_fd u" by (simp add: st user_ready_def)
  show "\<exists>st'. streamServerRecvBody (pure_app f) t c p st = (Next, st') \<and> user_ready t st' \<and>
      user_key st' = user_key st \<and> snd st' = deliver f (user_calls c p r) ((snd st)\<lparr>script := rs\<rparr>)"
    if e: "script (snd st) = r # rs" and g: "server_good (localAddr c) r" for r rs
  proof -
    have "script s = r # rs" using e by (simp add: st)
    note x = recv_good [OF m(1) this g]
    show ?thesis
      using r m x [THEN conjunct2] by (auto simp: st user_ready_def user_key_def streamServerRecvBody_def user_calls_def
          pthread_testcancel_def x [THEN conjunct1] Let_def invoke_deliver simp del: length_take)
  qed
  show "\<exists>st'. streamServerRecvBody (pure_app f) t c p st = (Break, st') \<and>
      (case st' of (u, s) \<Rightarrow> user_fd u = -1) \<and> snd st' = user_hang_up f c p (user_key st) (snd st)"
    if e: "takeWhile (server_good (localAddr c)) (script (snd st)) = []"
  proof -
    obtain len bs s' where v: "sys_recv (user_fd u) COMM_BUF_SIZE s = (len, bs, s')" by (metis prod_cases3)
    have "takeWhile (server_good (localAddr c)) (script s) = []" using e by (simp add: st)
    from recv_bad [OF v m(1) this] v m show ?thesis
      by (auto simp: st user_key_def streamServerRecvBody_def pthread_testcancel_def
          user_hang_up_def user_exit_calls_def Let_def invoke_deliver)
  qed
qed

lemma user_hang_up_rule:
  assumes "n \<in> fds s" "takeWhile (server_good a) (script s) = []" "wf_world s"
  shows "calls (user_hang_up f c p n s) = calls s @ user_exit_calls c p \<and>
    fds (user_hang_up f c p n s) = fds s - {n} \<and> heap (user_hang_up f c p n s) = heap s \<and>
    faults (user_hang_up f c p n s) = faults s \<and> wf_world (user_hang_up f c p n s)"
proof -
  obtain len bs s' where u: "sys_recv n COMM_BUF_SIZE s = (len, bs, s')" by (metis prod_cases3)
  from recv_bad [OF u assms(1,2)] sys_recv_rule [OF u assms(3)] sys_close_rule [of s' n] show ?thesis
    by (simp add: user_hang_up_def u quiet_def)
qed

section \<open>Properties\<close>

text \<open>
  C4. While a server runs, whatever its clients and the kernel do and in whatever order its
  threads make their turns: the client count is the number of users, it never exceeds the
  limit given to the initialisation nor 32, the table holds exactly the live user blocks, and
  no freed memory is touched.
\<close>

theorem stream_server_capacity:
  assumes i: "streamServerInit la m af xf rf a s = (Some (pc, c), s1)" and w: "wf_world s" "0 \<in> fds s" and l: "fits la"
    and r: "server_reach f pc (c, Map.empty, s1) (c', us', s')"
  shows "streamServerGetClientNum (Some (pc, c')) = Inr (int (card (dom us'))) \<and>
    card (dom us') \<le> 32 \<and> (m \<noteq> 0 \<longrightarrow> card (dom us') \<le> nat m) \<and>
    set (tbl (table c')) - {NULL} = dom us' \<and> dom us' \<subseteq> heap s' \<and> faults s' = faults s"
proof -
  from streamServerInit_inv [OF i w l] have i1: "server_inv (heap s) (fds s) pc c Map.empty s1" "faults s1 = faults s"
    "cap (table c) = (if m = 0 \<or> 32 < m then 32 else m)" by simp_all
  from server_reach_inv [OF r i1(1)] have i2: "server_inv (heap s) (fds s) pc c' us' s'" "faults s' = faults s1"
    "cap (table c') = cap (table c)" by simp_all
  have ok: "slots_ok (table c') (dom us')" using server_inv_slots [OF i2(1)] .
  have n: "num (table c') = int (card (dom us'))" "card (dom us') \<le> nat (cap (table c'))"
    using user_slots.ok_num [OF ok] by simp_all
  have m: "set_mset (mset (tbl (table c'))) - {NULL} = dom us'"
  proof -
    have "mset (tbl (table c')) = mset_set (dom us') + replicate_mset (length (tbl (table c')) - card (dom us')) NULL"
      "finite (dom us')" "NULL \<notin> dom us'" using ok by (simp_all add: slots_ok_def)
    then show ?thesis by (auto simp del: set_mset_mset split: if_splits)
  qed
  have "card (dom us') \<le> 32" "m \<noteq> 0 \<longrightarrow> card (dom us') \<le> nat m"
    using n(2) i1(3) i2(3) by (auto split: if_splits)
  moreover have "dom us' \<subseteq> heap s'" using i2(1) by (auto simp: server_inv_def server_core_def)
  ultimately show ?thesis using n m i1 i2 by (simp add: streamServerGetClientNum_def)
qed

text \<open>A server on descriptor 5 that accepted one client on descriptor 6, for the examples.\<close>

definition sample_kernel :: "reply list" where
  "sample_kernel = [Done, Val 5, Done, Done, Conn 6 (Sockaddr_in 1 1), Done, Done]"

definition sample_init :: "stream_server_ctx handle \<times> nat world" where
  "sample_init = streamServerInit (Sockaddr_in 80 0) 2 0 8 9 3 (boot 0 sample_kernel)"

definition sample_accept :: "flow \<times> stream_server_ctx \<times> user_store \<times> nat world" where
  "sample_accept = (case sample_init of (h, s) \<Rightarrow>
     streamListenBody (pure_app (\<lambda>c n. n + 1)) 1 1 (snd (the h), Map.empty, s))"

lemma sample_init:
  "\<exists>c s. sample_init = (Some (1, c), s) \<and> thread c = 1 \<and> running c = 1"
  by (simp add: sample_init_def sample_kernel_def streamServerInit_def streamInitServer_def tcpOpen_def
      streamServerNewContext_def posix_eval)

lemma sample_find: "find_slot NULL 2 (replicate 32 NULL) = Some 0"
  by (simp add: find_slot_def upt_rec numeral_2_eq_2)

lemma sample_accept:
  "\<exists>c us s. sample_accept = (Next, c, us, s) \<and> dom us = {2} \<and> num (table c) = 1 \<and>
     user_fd (the (us 2)) = 6 \<and> fds s = {6, 5, 0, 1, 2} \<and> script s = [] \<and> cap (table c) = 2 \<and>
     tbl (table c) = (replicate 32 NULL)[0 := 2] \<and> cancels s = {} \<and> user_thread (the (us 2)) = 2 \<and>
     pServerRecvFunc c = 9 \<and> pServerExitFunc c = 8 \<and> pServerArg c = 3 \<and> localAddr c = Sockaddr_in 80 0"
  by (simp add: sample_accept_def sample_init_def sample_kernel_def streamServerInit_def streamInitServer_def tcpOpen_def
      streamServerNewContext_def posix_eval streamListenBody_def accept_addr_def streamAcceptClient_def streamAcceptCreate_def
      streamAcceptRegister_def USER_NUM_def sample_find Let_def numeral_2_eq_2)

lemma sample_run:
  obtains c s1 c' us' s' where
    "streamServerInit (Sockaddr_in 80 0) 2 0 8 9 3 (boot (0::nat) sample_kernel) = (Some (1, c), s1)"
    "server_reach (\<lambda>c n. n + 1) 1 (c, Map.empty, s1) (c', us', s')"
    "sample_accept = (Next, c', us', s')" "dom us' = {2}"
proof -
  obtain c s1 where i: "sample_init = (Some (1, c), s1)" "thread c = 1" "running c = 1" using sample_init by blast
  obtain c' us' s' where a: "sample_accept = (Next, c', us', s')" "dom us' = {2}" using sample_accept by blast
  have l: "streamListenBody (pure_app (\<lambda>c n. n + 1)) (thread c) 1 (c, Map.empty, s1) = (Next, c', us', s')"
    using a(1) by (simp add: sample_accept_def i)
  have "server_reach (\<lambda>c n. n + 1) 1 (c, Map.empty, s1) (c', us', s')"
    using server_reach.step [OF server_reach.start server_step.accept [OF _ l]] i(3) by simp
  moreover have "streamServerInit (Sockaddr_in 80 0) 2 0 8 9 3 (boot (0::nat) sample_kernel) = (Some (1, c), s1)"
    using i(1) by (simp add: sample_init_def)
  ultimately show thesis using a that by blast
qed

text \<open>The sample server with its first user.\<close>

lemma sample_user:
  obtains c us s u where "sample_accept = (Next, c, us, s)" "server_inv {} {0, 1, 2} 1 c us s" "dom us = {2}" "us 2 = Some u"
    "user_fd u = 6" "user_thread u = 2" "cancels s = {}" "6 \<in> fds s" "pServerRecvFunc c = 9" "pServerExitFunc c = 8" "pServerArg c = 3"
    "localAddr c = Sockaddr_in 80 0"
proof -
  obtain c us s where a: "sample_accept = (Next, c, us, s)" "dom us = {2}" "user_fd (the (us 2)) = 6" "user_thread (the (us 2)) = 2"
    "cancels s = {}" "6 \<in> fds s" "pServerRecvFunc c = 9" "pServerExitFunc c = 8" "pServerArg c = 3" "localAddr c = Sockaddr_in 80 0"
    using sample_accept by auto
  obtain c0 s0 c' us' s' where i: "streamServerInit (Sockaddr_in 80 0) 2 0 8 9 3 (boot (0::nat) sample_kernel) = (Some (1, c0), s0)"
    and r: "server_reach (\<lambda>c n. n + 1) 1 (c0, Map.empty, s0) (c', us', s')" "sample_accept = (Next, c', us', s')" by (rule sample_run)
  from r(2) a(1) have "c' = c \<and> us' = us \<and> s' = s" by (metis prod.inject)
  with r(1) streamServerInit_inv [OF i] server_reach_inv [OF r(1)] have "server_inv {} {0, 1, 2} 1 c us s" by auto
  moreover obtain u where "us 2 = Some u" using a(2) by blast
  ultimately show thesis using that a by simp
qed

theorem stream_server_capacity_witness:
  "\<exists>c s1 c' us' s'. streamServerInit (Sockaddr_in 80 0) 2 0 8 9 3 (boot (0::nat) sample_kernel) = (Some (1, c), s1) \<and>
    server_reach (\<lambda>c n. n + 1) 1 (c, Map.empty, s1) (c', us', s') \<and>
    streamServerGetClientNum (Some (1, c')) = Inr 1 \<and> set (tbl (table c')) - {NULL} = {2}"
proof -
  obtain c s1 c' us' s' where s: "streamServerInit (Sockaddr_in 80 0) 2 0 8 9 3 (boot (0::nat) sample_kernel) = (Some (1, c), s1)"
    "server_reach (\<lambda>c n. n + 1) 1 (c, Map.empty, s1) (c', us', s')" "dom us' = {2}" by (rule sample_run)
  from stream_server_capacity [OF s(1) wf_boot _ _ s(2)] have "streamServerGetClientNum (Some (1, c')) = Inr (int (card (dom us')))"
    "set (tbl (table c')) - {NULL} = dom us'" by simp_all
  with s show ?thesis by auto
qed

text \<open>
  C3. However a server has run, un-initialising it ends every connection and gives back all it
  acquired: the process has the descriptors and heap blocks it had before the server was
  initialised, no user block is left, the listen thread is joined, and nothing was freed twice.
\<close>

theorem stream_server_lifecycle:
  assumes i: "streamServerInit la m af xf rf a s = (Some (pc, c), s1)" and w: "wf_world s" "0 \<in> fds s" and l: "fits la"
    and r: "server_reach f pc (c, Map.empty, s1) (c', us', s')"
    and u: "streamServerUninit (Some (pc, c')) us' s' = (us2, s2)"
  shows "us2 = Map.empty \<and> fds s2 = fds s \<and> heap s2 = heap s \<and> faults s2 = faults s \<and> thread c \<notin> threads s2"
proof -
  from streamServerInit_inv [OF i w l] have i1: "server_inv (heap s) (fds s) pc c Map.empty s1" "faults s1 = faults s"
    by simp_all
  from server_reach_inv [OF r i1(1)] have "server_inv (heap s) (fds s) pc c' us' s'" "faults s' = faults s1"
    "thread c' = thread c" by simp_all
  with streamServerUninit_rule [OF this(1) u] i1 show ?thesis by simp
qed

theorem stream_server_lifecycle_witness:
  "\<exists>c s1 c' us' s' us2 s2. streamServerInit (Sockaddr_in 80 0) 2 0 8 9 3 (boot (0::nat) sample_kernel) = (Some (1, c), s1) \<and>
    server_reach (\<lambda>c n. n + 1) 1 (c, Map.empty, s1) (c', us', s') \<and> dom us' = {2} \<and>
    streamServerUninit (Some (1, c')) us' s' = (us2, s2) \<and> us2 = Map.empty \<and> fds s2 = {0, 1, 2} \<and> heap s2 = {}"
proof -
  obtain c s1 c' us' s' where s: "streamServerInit (Sockaddr_in 80 0) 2 0 8 9 3 (boot (0::nat) sample_kernel) = (Some (1, c), s1)"
    "server_reach (\<lambda>c n. n + 1) 1 (c, Map.empty, s1) (c', us', s')" "dom us' = {2}" by (rule sample_run)
  obtain us2 s2 where u: "streamServerUninit (Some (1, c')) us' s' = (us2, s2)" by fastforce
  from stream_server_lifecycle [OF s(1) wf_boot _ _ s(2) u] have "us2 = Map.empty \<and> fds s2 = {0, 1, 2} \<and> heap s2 = {}" by simp
  with s u show ?thesis by blast
qed

section \<open>The abstract server\<close>

text \<open>
  To its application a server is a bounded set of users: clients join while there is room, and
  users leave.
\<close>

inductive member_step :: "nat \<Rightarrow> addr set \<Rightarrow> addr set \<Rightarrow> bool" for n where
  stay: "member_step n U U"
| join: "p \<notin> U \<Longrightarrow> card U < n \<Longrightarrow> member_step n U (insert p U)"
| leave: "p \<in> U \<Longrightarrow> member_step n U (U - {p})"

lemma streamAcceptClient_users:
  assumes "streamAcceptClient (pure_app f) pc c us addr n s = (p, c2, us2, s2)" "wf_world s"
  shows "us2 = us \<or> (\<exists>p u. us2 = us(p \<mapsto> u) \<and> p \<notin> heap s \<and> num (table c) < cap (table c))"
  using assms
  by (auto simp: streamAcceptClient_def streamAcceptCreate_def Let_def
      split: if_splits option.splits prod.splits dest!: c_malloc_rule)

lemma streamListenBody_member:
  assumes inv: "server_inv H F pc c us s"
    and b: "streamListenBody (pure_app f) t pc (c, us, s) = (fl, c', us', s')"
  shows "member_step (nat (cap (table c))) (dom us) (dom us')"
proof -
  have ok: "slots_ok (table c) (dom us)" using server_inv_slots [OF inv] .
  have w: "wf_world s" "dom us \<subseteq> heap s" using inv by (auto simp: server_inv_def server_core_def)
  have "us' = us \<or> (\<exists>p u. us' = us(p \<mapsto> u) \<and> p \<notin> heap s \<and> num (table c) < cap (table c))"
  proof -
    obtain n a s1 where 1: "sys_accept (fd c) s = (n, a, s1)" by (metis prod_cases3)
    have h1: "heap s1 = heap s" "wf_world s1" using sys_accept_rule [OF 1 w(1)] by simp_all
    obtain pa ca where ca: "accept_addr c a = (pa, ca)" by fastforce
    then obtain nb where nb: "ca = c\<lparr>clitAddr := nb\<rparr>" by (rule accept_addr_ctx)
    obtain p c2 us2 s2 where 2: "streamAcceptClient (pure_app f) pc ca us pa n s1 = (p, c2, us2, s2)"
      by (metis prod_cases4)
    have "us' = us \<or> us' = us2"
      using b by (auto simp: streamListenBody_def 1 2 ca split: if_splits)
    with streamAcceptClient_users [OF 2 h1(2)] h1(1) show ?thesis by (auto simp: nb)
  qed
  then show ?thesis
  proof
    assume "us' = us"
    then show ?thesis by (simp add: member_step.stay)
  next
    assume "\<exists>p u. us' = us(p \<mapsto> u) \<and> p \<notin> heap s \<and> num (table c) < cap (table c)"
    then obtain p u where p: "us' = us(p \<mapsto> u)" "p \<notin> dom us" "num (table c) < cap (table c)" using w(2) by blast
    have "card (dom us) < nat (cap (table c))" using user_slots.ok_num [OF ok] p(3) by simp
    from member_step.join [OF p(2) this] p(1) show ?thesis by simp
  qed
qed

lemma server_step_member:
  assumes st: "server_step f pc (c, us, s) (c', us', s')" and inv: "server_inv H F pc c us s"
  shows "member_step (nat (cap (table c))) (dom us) (dom us')"
  using st
proof (rule server_stepE)
  fix fl assume "streamListenBody (pure_app f) (thread c) pc (c, us, s) = (fl, c', us', s')"
  from streamListenBody_member [OF inv this] show ?thesis .
next
  fix p u fl u' assume "us p = Some u" "us' = us(p \<mapsto> u')"
  then show ?thesis by (simp add: insert_absorb domI member_step.stay)
next
  fix p u assume u: "us p = Some u" and d: "streamDisconnectClient p (c, us, s) = (c', us', s')"
  have "us' = us(p := None)" using streamDisconnectClient_inv [OF inv u d] by simp
  with member_step.leave [of p "dom us"] u show ?thesis by auto
next
  assume "us = us'"
  then show ?thesis by (simp add: member_step.stay)
next
  fix nb assume "us' = us"
  then show ?thesis by (simp add: member_step.stay)
next
  assume "us' = us"
  then show ?thesis by (simp add: member_step.stay)
qed

text \<open>
  C8. The server implements a bounded set of users: every turn of any of its threads, from any
  reachable state, is a step of the abstract server on the set of user blocks (one client
  joins and only while there is room, one user leaves, or nothing changes).
\<close>

theorem stream_server_refines_bounded_set:
  assumes i: "streamServerInit la m af xf rf a s = (Some (pc, c), s1)" and w: "wf_world s" "0 \<in> fds s" and l: "fits la"
    and r: "server_reach f pc (c, Map.empty, s1) (c1, us1, s2)"
    and st: "server_step f pc (c1, us1, s2) (c2, us2, s3)"
  shows "member_step (if m = 0 \<or> 32 < m then 32 else nat m) (dom us1) (dom us2)"
proof -
  from streamServerInit_inv [OF i w l] have i1: "server_inv (heap s) (fds s) pc c Map.empty s1"
    "cap (table c) = (if m = 0 \<or> 32 < m then 32 else m)" by simp_all
  from server_reach_inv [OF r i1(1)] have i2: "server_inv (heap s) (fds s) pc c1 us1 s2" "cap (table c1) = cap (table c)"
    by simp_all
  from server_step_member [OF st i2(1)] i1(2) i2(2) show ?thesis by (auto split: if_splits)
qed

theorem stream_server_refines_bounded_set_witness:
  "\<exists>c s1 c' us' s'. streamServerInit (Sockaddr_in 80 0) 2 0 8 9 3 (boot (0::nat) sample_kernel) = (Some (1, c), s1) \<and>
    server_step (\<lambda>c n. n + 1) 1 (c, Map.empty, s1) (c', us', s') \<and> dom us' = {2} \<and> member_step 2 {} {2}"
proof -
  obtain c s1 where i: "sample_init = (Some (1, c), s1)" "thread c = 1" "running c = 1" using sample_init by blast
  obtain c' us' s' where a: "sample_accept = (Next, c', us', s')" "dom us' = {2}" using sample_accept by blast
  have l: "streamListenBody (pure_app (\<lambda>c n. n + 1)) (thread c) 1 (c, Map.empty, s1) = (Next, c', us', s')"
    using a(1) by (simp add: sample_accept_def i)
  have st: "server_step (\<lambda>c n. n + 1) 1 (c, Map.empty, s1) (c', us', s')"
    using server_step.accept [OF _ l] i(3) by simp
  have i1: "streamServerInit (Sockaddr_in 80 0) 2 0 8 9 3 (boot (0::nat) sample_kernel) = (Some (1, c), s1)"
    using i(1) by (simp add: sample_init_def)
  from stream_server_refines_bounded_set [OF i1 wf_boot _ _ server_reach.start st] a(2) have "member_step 2 {} {2}" by simp
  with i1 st a(2) show ?thesis by blast
qed

text \<open>
  C29. When the table is full, a new connection is accepted by the kernel, then closed: no
  memory, thread or descriptor stays behind, no callback runs, and the users are untouched.
\<close>

theorem stream_server_full_refuses:
  assumes inv: "server_inv H F pc c us s" and n: "card (dom us) = nat (cap (table c))"
    and t: "t \<notin> cancels s" and k: "script s = Conn m addr # rs" "0 \<le> m" "m \<notin> fds s"
  shows "\<exists>s' nb. streamListenBody cb t pc (c, us, s) = (Next, c\<lparr>clitAddr := nb\<rparr>, us, s') \<and> res s' = res s \<and> calls s' = calls s \<and>
    script s' = rs \<and> trace s' = trace s @ [EAccept (fd c) m addr, EClose m]"
proof -
  have ok: "slots_ok (table c) (dom us)" using server_inv_slots [OF inv] .
  have f: "find_slot NULL (cap (table c)) (tbl (table c)) = None" using find_free [OF ok] n by simp
  have fd: "fd c \<in> fds s" using inv by (simp add: server_inv_def server_core_def)
  obtain pa ca where ca: "accept_addr c (Some addr) = (pa, ca)" by fastforce
  then obtain nb where nb: "ca = c\<lparr>clitAddr := nb\<rparr>" by (rule accept_addr_ctx)
  let ?s' = "sys_close m (emit (EAccept (fd c) m addr) (s\<lparr>script := rs, fds := insert m (fds s)\<rparr>))"
  have "streamListenBody cb t pc (c, us, s) = (Next, c\<lparr>clitAddr := nb\<rparr>, us, ?s')"
    using fd f t k by (simp add: streamListenBody_def pthread_testcancel_def sys_accept_def pop_def ca nb
        streamAcceptClient_def streamAcceptCreate_def)
  moreover have "res ?s' = res s" "calls ?s' = calls s" "script ?s' = rs"
    "trace ?s' = trace s @ [EAccept (fd c) m addr, EClose m]"
    using k by (simp_all add: sys_close_def res_def calls_emit insert_Diff_if)
  ultimately show ?thesis by blast
qed

theorem stream_server_full_refuses_witness:
  "\<exists>c s1 s' nb. streamServerInit (Sockaddr_in 80 0) (-1) 0 8 9 3
      (boot () [Done, Val 5, Done, Done, Conn 6 (Sockaddr_in 1 1), Done]) = (Some (1, c), s1) \<and>
    streamListenBody (pure_app (\<lambda>c n. n)) 1 1 (c, Map.empty, s1) = (Next, c\<lparr>clitAddr := nb\<rparr>, Map.empty, s') \<and>
    fds s' = {5, 0, 1, 2} \<and> script s' = [Done]"
proof -
  obtain c s1 where i: "streamServerInit (Sockaddr_in 80 0) (-1) 0 8 9 3
      (boot () [Done, Val 5, Done, Done, Conn 6 (Sockaddr_in 1 1), Done]) = (Some (1, c), s1)"
    and s: "1 \<notin> cancels s1" "script s1 = Conn 6 (Sockaddr_in 1 1) # [Done]" "fds s1 = {5, 0, 1, 2}"
    by (simp add: streamServerInit_def streamInitServer_def tcpOpen_def streamServerNewContext_def posix_eval USER_NUM_def)
  from streamServerInit_inv [OF i] have inv: "server_inv {} {0, 1, 2} 1 c Map.empty s1" "cap (table c) = -1" by simp_all
  from stream_server_full_refuses [OF inv(1) _ s(1,2), of "pure_app (\<lambda>c n. n)"] i inv(2) s(3) show ?thesis
    by (auto simp: res_def)
qed

text \<open>
  A negative user limit makes a server that accepts nobody: whatever happens, no user ever
  enters the table (the initialisation only replaces 0 and limits above 32 by 32).
\<close>

theorem stream_server_negative_limit:
  assumes i: "streamServerInit la m af xf rf a s = (Some (pc, c), s1)" and w: "wf_world s" "0 \<in> fds s" and l: "fits la"
    and m: "m < 0" and r: "server_reach f pc (c, Map.empty, s1) (c', us', s')"
  shows "us' = Map.empty"
proof -
  from streamServerInit_inv [OF i w l] m have i1: "server_inv (heap s) (fds s) pc c Map.empty s1" "cap (table c) = m" by simp_all
  from server_reach_inv [OF r i1(1)] have i2: "server_inv (heap s) (fds s) pc c' us' s'" "cap (table c') = m"
    using i1(2) by simp_all
  from user_slots.ok_num [OF server_inv_slots [OF i2(1)]] i2(2) m
  have "finite (dom us')" "card (dom us') = 0" by simp_all
  then show ?thesis by simp
qed

theorem stream_server_negative_limit_witness:
  "\<exists>c s1. streamServerInit (Sockaddr_in 80 0) (-1) 0 8 9 3 (boot () [Done, Val 5, Done, Done]) = (Some (1, c), s1) \<and>
    (\<forall>c' us' s'. server_reach (\<lambda>c n. n) 1 (c, Map.empty, s1) (c', us', s') \<longrightarrow> us' = Map.empty)"
proof -
  obtain c s1 where i: "streamServerInit (Sockaddr_in 80 0) (-1) 0 8 9 3 (boot () [Done, Val 5, Done, Done]) = (Some (1, c), s1)"
    by (simp add: streamServerInit_def streamInitServer_def tcpOpen_def streamServerNewContext_def posix_eval USER_NUM_def)
  from stream_server_negative_limit [OF i wf_boot] i show ?thesis by auto
qed

lemma streamServerRecvTask_run:
  assumes inv: "server_inv H F pc c us s" and u: "us p = Some u" "0 < user_fd u" and t: "t \<notin> cancels s"
  shows "\<exists>c' us' s'. streamServerRecvTask (pure_app f) t p (c, us, s) = Some (c', us', s') \<and>
    us' = us(p := None) \<and> server_inv H F pc c' us' s' \<and> faults s' = faults s \<and> t \<notin> threads s' \<and>
    calls s' = calls s @ concat (map (user_calls c p) (takeWhile (server_good (localAddr c)) (script s))) @ user_exit_calls c p"
proof -
  have w: "wf_world s" and m: "user_fd u \<in> fds s" using inv u
    by (auto simp: server_inv_def server_core_def user_fds_def)
  have r: "user_ready t (u, s)" using u m t by (simp add: user_ready_def)
  let ?s = "deliver f (concat (map (user_calls c p) (takeWhile (server_good (localAddr c)) (script s))))
    (s\<lparr>script := dropWhile (server_good (localAddr c)) (script s)\<rparr>)"
  obtain u1 s1 where run: "c_while (\<lambda>(u, s). 0 < user_fd u) (streamServerRecvBody (pure_app f) t c p) (u, s) =
      Some (False, u1, s1)" and e: "user_fd u1 = -1" "s1 = user_hang_up f c p (user_fd u) ?s"
    using stream_server_thread.run [OF r, of f c p] by (auto simp: user_key_def)
  have "user_fd u \<in> fds ?s" "takeWhile (server_good (localAddr c)) (script ?s) = []" "wf_world ?s"
    using m w by (simp_all add: takeWhile_dropWhile_nil)
  note h = user_hang_up_rule [OF this, of f c p]
  have inv1: "server_inv H F pc c (us(p \<mapsto> u1)) s1"
    using server_inv_user [OF inv u(1), of s1 u1] h e u by simp
  obtain c2 us2 s2 where d: "streamDisconnectClient p (c, us(p \<mapsto> u1), s1) = (c2, us2, s2)" by (metis prod_cases3)
  have u1: "(us(p \<mapsto> u1)) p = Some u1" by simp
  note i2 = streamDisconnectClient_inv [OF inv1 u1 d]
  have core1: "server_core H F pc c (us(p \<mapsto> u1)) s1" using inv1 by (simp add: server_inv_def)
  have c2: "calls s2 = calls s1" using streamDisconnectClient_core [OF core1 u1 d] by simp
  have "streamServerRecvTask (pure_app f) t p (c, us, s) = Some (c2, us2, pthread_exit t s2)"
    using u run d by (simp add: streamServerRecvTask_def)
  moreover have "server_inv H F pc c2 us2 (pthread_exit t s2)"
  proof (rule server_inv_frame)
    show inv2: "server_inv H F pc c2 us2 s2" using i2 by blast
    then show "wf_world (pthread_exit t s2)" by (simp add: wf_exit server_inv_def server_core_def)
  qed (simp_all add: pthread_exit_def)
  moreover have "us2 = us(p := None)" "faults (pthread_exit t s2) = faults s" "t \<notin> threads (pthread_exit t s2)"
    "calls (pthread_exit t s2) = calls s @ concat (map (user_calls c p) (takeWhile (server_good (localAddr c)) (script s))) @ user_exit_calls c p"
    using i2 h e c2 by (simp_all add: pthread_exit_def)
  ultimately show ?thesis by blast
qed

text \<open>
  C9. The thread of a connected user ends however often the kernel delivers data. By then it
  has handed the user's data to the application in order and with exact sizes, called the exit
  callback once, last, and taken the user out of the table: the block is freed, the
  descriptor closed, and the server's invariant holds with one user less.
\<close>

theorem stream_server_user_thread:
  assumes inv: "server_inv H F pc c us s" and u: "us p = Some u" "0 < user_fd u" and t: "t \<notin> cancels s"
  shows "\<exists>c' us' s'. streamServerRecvTask (pure_app f) t p (c, us, s) = Some (c', us', s') \<and>
    us' = us(p := None) \<and> server_inv H F pc c' us' s' \<and> faults s' = faults s \<and> t \<notin> threads s' \<and>
    calls s' = calls s @ concat (map (user_calls c p) (takeWhile (server_good (localAddr c)) (script s))) @ user_exit_calls c p"
  by (rule streamServerRecvTask_run [OF assms])

theorem stream_server_user_thread_witness:
  "\<exists>c us s c' us' s'. sample_accept = (Next, c, us, s) \<and>
    streamServerRecvTask (pure_app (\<lambda>c n. n + 1)) 2 2 (c, us, s\<lparr>script := [Data [7, 8] (Sockaddr_in 1 1), Done]\<rparr>) =
      Some (c', us', s') \<and> us' = Map.empty \<and>
    calls s' = calls s @ [UserRecvCb 9 3 2 [7, 8] 2, UserExitCb 8 3 2]"
proof -
  obtain c us s u where a: "sample_accept = (Next, c, us, s)" "server_inv {} {0, 1, 2} 1 c us s" "dom us = {2}" "us 2 = Some u"
    "user_fd u = 6" "cancels s = {}" "pServerRecvFunc c = 9" "pServerExitFunc c = 8" "pServerArg c = 3" "localAddr c = Sockaddr_in 80 0"
    by (rule sample_user) blast
  let ?s = "s\<lparr>script := [Data [7, 8] (Sockaddr_in 1 1), Done]\<rparr>"
  have "server_inv {} {0, 1, 2} 1 c us ?s"
    using a(2) by (intro server_inv_frame [OF a(2)]) (simp_all add: server_inv_def server_core_def)
  from stream_server_user_thread [OF this a(4), of 2 "\<lambda>c n. n + 1"] a obtain c2 us2 s2 where
    "streamServerRecvTask (pure_app (\<lambda>c n. n + 1)) 2 2 (c, us, ?s) = Some (c2, us2, s2)"
    "us2 = us(2 := None)" "calls s2 = calls s @ [UserRecvCb 9 3 2 [7, 8] 2, UserExitCb 8 3 2]"
    by (auto simp: user_exit_calls_def user_calls_def server_good_def COMM_BUF_SIZE_def)
  moreover have "us(2 := None) = Map.empty" using a(3) by (simp flip: dom_eq_empty_conv)
  ultimately show ?thesis using a(1) by metis
qed

section \<open>Broadcast\<close>

lemma send_slots_trace:
  assumes "\<forall>i\<in>set is. tbl t ! i \<noteq> NULL \<longrightarrow> (\<exists>u. us (tbl t ! i) = Some u \<and> (0 < user_fd u \<longrightarrow> user_fd u \<in> fds s))"
    "script s = replicate k Done" "length is \<le> k"
  shows "trace (fold (\<lambda>i. streamSendSlot us bs (tbl t ! i)) is s) = trace s @
    map (\<lambda>i. ESend (user_fd (the (us (tbl t ! i)))) bs None)
      (filter (\<lambda>i. tbl t ! i \<noteq> NULL \<and> 0 < user_fd (the (us (tbl t ! i)))) is)"
  using assms
proof (induction "is" arbitrary: s k)
  case Nil
  then show ?case by simp
next
  case (Cons i "is")
  let ?s = "streamSendSlot us bs (tbl t ! i) s" let ?p = "tbl t ! i"
  show ?case
  proof (cases "?p \<noteq> NULL \<and> 0 < user_fd (the (us ?p))")
    case False
    then have "?s = s" using Cons.prems(1) by (auto simp: streamSendSlot_def)
    with False Cons.IH [of s k] Cons.prems show ?thesis by auto
  next
    case True
    then obtain u where u: "us ?p = Some u" "0 < user_fd u" "user_fd u \<in> fds s" using Cons.prems(1) by auto
    obtain k' where k: "k = Suc k'" using Cons.prems(3) by (cases k) auto
    have s1: "?s = emit (ESend (user_fd u) bs None) (s\<lparr>script := replicate k' Done\<rparr>)"
      using u True Cons.prems(2) k by (simp add: streamSendSlot_def sys_send_def sys_sendto_def pop_def)
    with Cons.IH [of ?s k'] Cons.prems k u True show ?thesis by simp
  qed
qed

text \<open>
  A broadcast reaches exactly the connected users: when the kernel takes every message, the
  call makes one send of the first \<open>n\<close> bytes for each slot whose user is connected, in the
  order of the slots, and none for a user whose connection has ended; with no user, a null
  buffer or size 0 it sends nothing.
\<close>

theorem stream_server_broadcast:
  assumes inv: "server_inv H F pc c us s" and k: "script s = replicate 32 Done" "cap (table c) \<le> 32"
  shows "trace (streamServerSendAllClient (Some (pc, c)) us pData n s) = trace s @
    (if us = Map.empty \<or> pData = None \<or> n = 0 then []
     else map (\<lambda>i. ESend (user_fd (the (us (tbl (table c) ! i)))) (take (unat n) (the pData)) None)
       (filter (\<lambda>i. tbl (table c) ! i \<noteq> NULL \<and> 0 < user_fd (the (us (tbl (table c) ! i))))
         [0..<nat (cap (table c))]))"
proof -
  have ok: "slots_ok (table c) (dom us)" using server_inv_slots [OF inv] .
  have e: "num (table c) = 0 \<longleftrightarrow> us = Map.empty"
    using user_slots.ok_num [OF ok] by simp
  have l: "nat (cap (table c)) \<le> length (tbl (table c))" using ok by (simp add: slots_ok_def)
  have "\<exists>u. us (tbl (table c) ! i) = Some u \<and> (0 < user_fd u \<longrightarrow> user_fd u \<in> fds s)"
    if i: "i < nat (cap (table c))" "tbl (table c) ! i \<noteq> NULL" for i
  proof -
    have "i < length (tbl (table c))" using i l by simp
    from slots_member [OF ok this] i(2) obtain u where u: "us (tbl (table c) ! i) = Some u" by auto
    then have "0 < user_fd u \<Longrightarrow> user_fd u \<in> user_fds us" by (auto simp: user_fds_def)
    with u inv show ?thesis by (auto simp: server_inv_def server_core_def)
  qed
  with send_slots_trace [of "[0..<nat (cap (table c))]" "table c" us s 32 "take (unat n) (the pData)"] k e
  show ?thesis by (auto simp: streamServerSendAllClient_def split: option.splits)
qed

theorem stream_server_broadcast_witness:
  "\<exists>c us s. sample_accept = (Next, c, us, s) \<and>
    trace (streamServerSendAllClient (Some (1, c)) us (Some [1, 2]) 2 (s\<lparr>script := replicate 32 Done\<rparr>)) =
      trace s @ [ESend 6 [1, 2] None]"
proof -
  obtain c s1 c' us' s' where i: "streamServerInit (Sockaddr_in 80 0) 2 0 8 9 3 (boot (0::nat) sample_kernel) = (Some (1, c), s1)"
    and r: "server_reach (\<lambda>c n. n + 1) 1 (c, Map.empty, s1) (c', us', s')"
    and a: "sample_accept = (Next, c', us', s')" "dom us' = {2}" by (rule sample_run)
  obtain c1 us1 s2 where z: "sample_accept = (Next, c1, us1, s2)" "user_fd (the (us1 2)) = 6" "cap (table c1) = 2"
    "tbl (table c1) = (replicate 32 NULL)[0 := 2]" using sample_accept by blast
  from trans [OF a(1) [symmetric] z(1)] have e: "c' = c1" "us' = us1" "s' = s2" by simp_all
  from streamServerInit_inv [OF i] have i1: "server_inv {} {0, 1, 2} 1 c Map.empty s1" by simp
  from server_reach_inv [OF r i1] have inv: "server_inv {} {0, 1, 2} 1 c' us' s'" by simp
  let ?s = "s'\<lparr>script := replicate 32 Done\<rparr>"
  from inv have "wf_world ?s" by (simp add: server_inv_def server_core_def)
  from server_inv_frame [OF inv this] have inv2: "server_inv {} {0, 1, 2} 1 c' us' ?s" by simp
  have "us' \<noteq> Map.empty" using a(2) by auto
  moreover have upto2: "[0..<2] = [0, 1::nat]" by (simp add: upt_rec)
  ultimately have "trace (streamServerSendAllClient (Some (1, c')) us' (Some [1, 2]) 2 ?s) = trace s' @ [ESend 6 [1, 2] None]"
    using stream_server_broadcast [OF inv2, of "Some [1, 2]" 2] z e by (simp add: upto2)
  with a(1) show ?thesis by blast
qed

end
