(* ===== verification/Tcp.thy ===== *)
theory Tcp
  imports Stream_Client Stream_Server
begin

text \<open>
  The functions of \<^verbatim>\<open>source/comm_tcp_client.c\<close> and \<^verbatim>\<open>source/comm_tcp_server.c\<close>, as instances of
  the stream client and the stream server: the IPv4 and the IPv6 half of either file.
\<close>

section \<open>comm_tcp_client.c\<close>

definition comm_tcpIpv4ClientInit where "comm_tcpIpv4ClientInit portNum = streamClientInit (any_addr IPv4 portNum)"
definition comm_tcpIpv4ClientUninit where "comm_tcpIpv4ClientUninit = streamClientUninit"
definition comm_tcpIpv4ClientConnect where "comm_tcpIpv4ClientConnect net handle pAddr port = streamClientConnect handle (dest_addr net IPv4 pAddr port)"
definition comm_tcpIpv4ClientSend where "comm_tcpIpv4ClientSend = streamClientSend"

definition tcpIpv6InitClient where "tcpIpv6InitClient = streamInitClient"
definition tcpIpv6UninitClient where "tcpIpv6UninitClient = streamUninitClient"
definition tcpIpv6ClientRecvTask where "tcpIpv6ClientRecvTask = streamClientRecvTask"
definition comm_tcpIpv6ClientInit where "comm_tcpIpv6ClientInit portNum = streamClientInit (any_addr IPv6 portNum)"
definition comm_tcpIpv6ClientUninit where "comm_tcpIpv6ClientUninit = streamClientUninit"
definition comm_tcpIpv6ClientConnect where "comm_tcpIpv6ClientConnect net handle pAddr port = streamClientConnect handle (dest_addr net IPv6 pAddr port)"
definition comm_tcpIpv6ClientSend where "comm_tcpIpv6ClientSend = streamClientSend"

section \<open>comm_tcp_server.c\<close>

definition comm_tcpIpv4ServerInit where "comm_tcpIpv4ServerInit portNum = streamServerInit (any_addr IPv4 portNum)"
definition comm_tcpIpv4ServerUninit where "comm_tcpIpv4ServerUninit = streamServerUninit"
definition comm_tcpIpv4ServerSend where "comm_tcpIpv4ServerSend = streamServerSend"
definition comm_tcpIpv4ServerSendAllClient where "comm_tcpIpv4ServerSendAllClient = streamServerSendAllClient"
definition comm_tcpIpv4ServerGetClientNum where "comm_tcpIpv4ServerGetClientNum = streamServerGetClientNum"

definition tcpIpv6InitServer where "tcpIpv6InitServer = streamInitServer"
definition tcpIpv6UninitServer where "tcpIpv6UninitServer = streamUninitServer"
definition tcpIpv6ServerRecvTask where "tcpIpv6ServerRecvTask = streamServerRecvTask"
definition tcpIpv6ServerListenTask where "tcpIpv6ServerListenTask = streamServerListenTask"
definition tcpIpv6AcceptClient where "tcpIpv6AcceptClient = streamAcceptClient"
definition tcpIpv6DisconnectClient where "tcpIpv6DisconnectClient = streamDisconnectClient"
definition comm_tcpIpv6ServerInit where "comm_tcpIpv6ServerInit portNum = streamServerInit (any_addr IPv6 portNum)"
definition comm_tcpIpv6ServerUninit where "comm_tcpIpv6ServerUninit = streamServerUninit"
definition comm_tcpIpv6ServerSend where "comm_tcpIpv6ServerSend = streamServerSend"
definition comm_tcpIpv6ServerSendAllClient where "comm_tcpIpv6ServerSendAllClient = streamServerSendAllClient"
definition comm_tcpIpv6ServerGetClientNum where "comm_tcpIpv6ServerGetClientNum = streamServerGetClientNum"

section \<open>Properties\<close>

text \<open>
  A successful connect goes to the address the caller's text names, with the port in network
  byte order, and then starts one detached receive thread. The IPv6 half does not look at the
  result of \<^verbatim>\<open>inet_pton\<close>: a text that is no address makes it connect to the unspecified address.
\<close>

theorem tcp_connect_address:
  assumes w: "wf_world s"
  shows "(comm_tcpIpv4ClientConnect net (Some (p, c)) addr port s = (0, h, s') \<longrightarrow>
      (\<exists>t. trace s' = trace s @ [EConnect (stream_client_ctx.fd c) (Sockaddr_in (htons port) (inet_addr net addr)), ECreate t True])) \<and>
    (comm_tcpIpv6ClientConnect net (Some (p, c)) addr port s = (0, h, s') \<longrightarrow>
      (\<exists>t. trace s' = trace s @ [EConnect (stream_client_ctx.fd c) (Sockaddr_in6 (htons port)
        (case inet_pton6 net addr of None \<Rightarrow> replicate 16 0 | Some a \<Rightarrow> a)), ECreate t True]))"
proof -
  have "\<exists>t. trace s' = trace s @ [EConnect (stream_client_ctx.fd c) sa, ECreate t True]"
    if "streamClientConnect (Some (p, c)) sa s = (0, h, s')" "fits sa" for sa
    using streamClientConnect_rule [OF that(1) w that(2)] by (auto split: if_splits)
  then show ?thesis by (simp add: comm_tcpIpv4ClientConnect_def comm_tcpIpv6ClientConnect_def)
qed

theorem tcp_connect_address_witness:
  "\<exists>h s'. comm_tcpIpv6ClientConnect \<lparr>inet_addr = (\<lambda>_. 7), inet_pton6 = (\<lambda>_. None)\<rparr> (Some (1, sample_client))
      ''nonsense'' 80 ((boot () [Done, Done])\<lparr>fds := {0, 5}\<rparr>) = (0, h, s') \<and>
    (\<exists>t. trace s' = [EConnect 5 (Sockaddr_in6 (htons 80) (replicate 16 0)), ECreate t True])"
proof -
  let ?s = "(boot () [Done, Done])\<lparr>fds := {0, 5}\<rparr>" and ?net = "\<lparr>inet_addr = (\<lambda>_. 7), inet_pton6 = (\<lambda>_. None)\<rparr>"
  have w: "wf_world ?s" by (simp add: boot_def wf_world_def)
  obtain h s' where e: "comm_tcpIpv6ClientConnect ?net (Some (1, sample_client)) ''nonsense'' 80 ?s = (0, h, s')"
    by (simp add: comm_tcpIpv6ClientConnect_def streamClientConnect_def sample_client_def posix_eval Let_def)
  from tcp_connect_address [OF w, of ?net 1 sample_client "''nonsense''" 80 h s'] e show ?thesis
    by (auto simp: sample_client_def)
qed

end
