(* ===== verification/Ipc_Stream.thy ===== *)
theory Ipc_Stream
  imports Stream_Client Stream_Server
begin

text \<open>
  The functions of \<^verbatim>\<open>source/comm_ipc_stream.c\<close>, as instances of the stream client and the stream
  server over the names of UNIX domain sockets, and what is particular to them: names that do
  not fit, names that are cut, and a server whose threads do not notice the end of a connection.
\<close>

section \<open>The functions\<close>

definition comm_ipcStreamClientInit where "comm_ipcStreamClientInit pFileName = streamClientInit (Sockaddr_un (c_strncpy 255 pFileName))"
definition comm_ipcStreamClientUninit where "comm_ipcStreamClientUninit = streamClientUninit"
definition comm_ipcStreamClientConnect where "comm_ipcStreamClientConnect handle pFileName = streamClientConnect handle (Sockaddr_un pFileName)"
definition comm_ipcStreamClientSend where "comm_ipcStreamClientSend = streamClientSend"
definition ipcStreamInitClient where "ipcStreamInitClient = streamInitClient"
definition ipcStreamUninitClient where "ipcStreamUninitClient = streamUninitClient"
definition ipcStreamClientRecvTask where "ipcStreamClientRecvTask = streamClientRecvTask"

definition comm_ipcStreamInitServer where "comm_ipcStreamInitServer pFileName = streamServerInit (Sockaddr_un (c_strncpy 255 pFileName))"
definition comm_ipcStreamUninitServer where "comm_ipcStreamUninitServer = streamServerUninit"
definition comm_ipcStreamServerSend where "comm_ipcStreamServerSend = streamServerSend"
definition comm_ipcStreamServerSendAllClient where "comm_ipcStreamServerSendAllClient = streamServerSendAllClient"
definition comm_ipcStreamServerGetClientNum where "comm_ipcStreamServerGetClientNum = streamServerGetClientNum"
definition ipcStreamInitServer where "ipcStreamInitServer = streamInitServer"
definition ipcStreamUninitServer where "ipcStreamUninitServer = streamUninitServer"
definition ipcStreamServerRecvTask where "ipcStreamServerRecvTask = streamServerRecvTask"
definition ipcStreamServerListenTask where "ipcStreamServerListenTask = streamServerListenTask"
definition ipcStreamAcceptClient where "ipcStreamAcceptClient = streamAcceptClient"
definition ipcStreamDisconnectClient where "ipcStreamDisconnectClient = streamDisconnectClient"

section \<open>Properties\<close>

text \<open>
  C31. The thread of a UNIX domain user does not take the end of the connection for one: after
  the peer has closed, each receive returns 0 bytes at once, and the thread hands the application
  an empty message for every one of them, until a receive fails.
\<close>

theorem ipc_stream_ignores_end_of_file:
  assumes inv: "server_inv H F pc c us s" and u: "us p = Some u" "0 < user_fd u" and t: "t \<notin> cancels s"
    and l: "localAddr c = Sockaddr_un path" and k: "script s = replicate n Done @ Fail e # rs"
  shows "\<exists>c' us' s'. ipcStreamServerRecvTask (pure_app f) t p (c, us, s) = Some (c', us', s') \<and> us' = us(p := None) \<and>
    calls s' = calls s @ (if pServerRecvFunc c = NULL then []
        else replicate n (UserRecvCb (pServerRecvFunc c) (pServerArg c) p [] 0)) @ user_exit_calls c p"
proof -
  have g: "server_good (localAddr c) = answered" by (simp add: l server_good_def)
  have "takeWhile answered (replicate n Done @ Fail e # rs) = replicate n Done" by (simp add: takeWhile_append)
  moreover have "concat (map (user_calls c p) (replicate n Done)) = (if pServerRecvFunc c = NULL then []
      else replicate n (UserRecvCb (pServerRecvFunc c) (pServerArg c) p [] 0))"
    by (induction n) (simp_all add: user_calls_def)
  ultimately show ?thesis
    using streamServerRecvTask_run [OF inv u t, of f] k by (auto simp: g ipcStreamServerRecvTask_def)
qed

text \<open>A turn of the listen thread that accepts a client, when there is room and memory.\<close>

lemma ipc_accept_turn:
  assumes inv: "server_inv H F pc c us s" and l: "localAddr c = Sockaddr_un path" and n: "num (table c) < cap (table c)"
    and t: "t \<notin> cancels s" and k: "script s = Conn m a # Done # Done # rs" "0 \<le> m" "m \<notin> fds s"
  shows "\<exists>i u s'. streamListenBody (pure_app f) t pc (c, us, s) =
      (Next, streamAcceptRegister i (brk s) (c\<lparr>clitAddr := get_name (Some a) (clitAddr c)\<rparr>), us(brk s \<mapsto> u), s') \<and>
    user_fd u = m \<and> user_addr u = Sockaddr_un (peer_name (get_name (Some a) (clitAddr c))) \<and> cancels s' = cancels s"
proof -
  have ok: "slots_ok (table c) (dom us)" using server_inv_slots [OF inv] .
  have w: "wf_world s" "fd c \<in> fds s" using inv by (simp_all add: server_inv_def server_core_def)
  have "card (dom us) \<noteq> nat (cap (table c))" using user_slots.ok_num [OF ok] n by linarith
  with find_free [OF ok] obtain i where i: "find_slot NULL (cap (table c)) (tbl (table c)) = Some i" by auto
  let ?nb = "get_name (Some a) (clitAddr c)"
  have a: "accept_addr c (Some a) = (Sockaddr_un (peer_name ?nb), c\<lparr>clitAddr := ?nb\<rparr>)"
    by (simp add: accept_addr_def l Let_def)
  let ?u = "\<lparr>pServer = pc, user_addr = Sockaddr_un (peer_name ?nb), user_fd = m, user_thread = next_tid s,
    user_recvMsg = recv_buffer\<rparr>"
  have b: "0 < brk s" using w(1) by (simp add: wf_world_def)
  have "\<exists>s'. streamListenBody (pure_app f) t pc (c, us, s) =
      (Next, streamAcceptRegister i (brk s) (c\<lparr>clitAddr := ?nb\<rparr>), us(brk s \<mapsto> ?u), s') \<and> cancels s' = cancels s"
    using w(2) n t k i b by (simp add: streamListenBody_def pthread_testcancel_def sys_accept_def pop_def a
        streamAcceptClient_def streamAcceptCreate_def c_malloc_def pthread_create_def Let_def invoke_deliver)
  then obtain s' where "streamListenBody (pure_app f) t pc (c, us, s) =
      (Next, streamAcceptRegister i (brk s) (c\<lparr>clitAddr := ?nb\<rparr>), us(brk s \<mapsto> ?u), s')" "cancels s' = cancels s" by blast
  then show ?thesis by (intro exI [of _ i] exI [of _ ?u] exI [of _ s']) simp
qed

text \<open>A server on descriptor 5 that accepted the client \<^verbatim>\<open>/c\<close> on descriptor 6, for the examples.\<close>

lemma ipc_sample_init:
  "\<exists>c s. comm_ipcStreamInitServer ''/s'' 2 0 8 9 3
       (boot (0::nat) [Done, Val 5, Done, Done, Conn 6 (Sockaddr_un ''/c''), Done, Done]) = (Some (1, c), s) \<and>
     thread c = 1 \<and> running c = 1 \<and> localAddr c = Sockaddr_un ''/s'' \<and> fd c = 5 \<and> cap (table c) = 2 \<and>
     tbl (table c) = replicate 32 NULL \<and> num (table c) = 0 \<and> clitAddr c = new_name \<and>
     pServerRecvFunc c = 9 \<and> pServerExitFunc c = 8 \<and> pServerArg c = 3 \<and> pServerAcptFunc c = 0 \<and>
     script s = [Conn 6 (Sockaddr_un ''/c''), Done, Done] \<and> fds s = {5, 0, 1, 2} \<and> cancels s = {} \<and> brk s = 2"
  by (simp add: comm_ipcStreamInitServer_def streamServerInit_def streamInitServer_def unixOpen_def c_strcpy_def
      SUN_PATH_def c_strncpy_def streamServerNewContext_def USER_NUM_def posix_eval)

text \<open>
  The name the application gets for a UNIX domain client. The listen thread sets the size of
  the address once: while a client's name is not longer than what the client before it had, the
  name is right; a longer one is cut to the size that client left, followed by whatever the array
  still held there.
\<close>

theorem ipc_stream_user_name:
  assumes inv: "server_inv H F pc c us s" and l: "localAddr c = Sockaddr_un path" and n: "num (table c) < cap (table c)"
    and t: "t \<notin> cancels s" and k: "script s = Conn m (Sockaddr_un name) # Done # Done # rs" "0 \<le> m" "m \<notin> fds s"
    and v: "valid_name name" "2 \<le> snd (clitAddr c)"
  shows "\<exists>p c' us' s' u. streamListenBody (pure_app f) t pc (c, us, s) = (Next, c', us', s') \<and>
    us' = us(p \<mapsto> u) \<and> user_fd u = m \<and> snd (clitAddr c') = length name + 3 \<and>
    user_addr u = Sockaddr_un (if length name + 3 \<le> snd (clitAddr c) then name
      else take (snd (clitAddr c) - 2) name @ c_string (drop (snd (clitAddr c) - 2) (fst (clitAddr c))))"
proof -
  let ?nb = "get_name (Some (Sockaddr_un name)) (clitAddr c)"
  have name: "peer_name ?nb = (if length name + 3 \<le> snd (clitAddr c) then name
      else take (snd (clitAddr c) - 2) name @ c_string (drop (snd (clitAddr c) - 2) (fst (clitAddr c))))"
    using get_name_fits [OF v(1)] get_name_cut [OF v(1) _ v(2)] by (auto simp: not_le)
  have size: "snd ?nb = length name + 3" using v(1) by (simp add: get_name_def valid_name_def Let_def)
  from ipc_accept_turn [OF inv l n t k, of f] obtain i u s' where
    "streamListenBody (pure_app f) t pc (c, us, s) =
      (Next, streamAcceptRegister i (brk s) (c\<lparr>clitAddr := ?nb\<rparr>), us(brk s \<mapsto> u), s')"
    "user_fd u = m" "user_addr u = Sockaddr_un (peer_name ?nb)" by blast
  moreover have "clitAddr (streamAcceptRegister i (brk s) (c\<lparr>clitAddr := ?nb\<rparr>)) = ?nb"
    by (simp add: streamAcceptRegister_def)
  ultimately show ?thesis unfolding name [symmetric] using size by metis
qed

theorem ipc_stream_user_name_witness:
  "\<exists>p c s c' us' s' u. comm_ipcStreamInitServer ''/s'' 2 0 8 9 3
       (boot (0::nat) [Done, Val 5, Done, Done, Conn 6 (Sockaddr_un ''/c''), Done, Done]) = (Some (1, c), s) \<and>
    streamListenBody (pure_app (\<lambda>c n. n + 1)) 1 1 (c, Map.empty, s) = (Next, c', us', s') \<and>
    us' = [p \<mapsto> u] \<and> user_addr u = Sockaddr_un ''/c'' \<and> snd (clitAddr c') = 5"
proof -
  let ?s = "boot (0::nat) [Done, Val 5, Done, Done, Conn 6 (Sockaddr_un ''/c''), Done, Done]"
  obtain c s where i: "comm_ipcStreamInitServer ''/s'' 2 0 8 9 3 ?s = (Some (1, c), s)"
    and q: "localAddr c = Sockaddr_un ''/s''" "num (table c) < cap (table c)" "clitAddr c = new_name"
    "script s = [Conn 6 (Sockaddr_un ''/c''), Done, Done]" "fds s = {5, 0, 1, 2}" "cancels s = {}"
    using ipc_sample_init by auto
  have "streamServerInit (Sockaddr_un ''/s'') 2 0 8 9 3 ?s = (Some (1, c), s)"
    using i by (simp add: comm_ipcStreamInitServer_def c_strncpy_def)
  from streamServerInit_inv [OF this] have inv: "server_inv {} {0, 1, 2} 1 c Map.empty s" by (simp add: SUN_PATH_def)
  have v: "valid_name ''/c''" by (simp add: valid_name_def SUN_PATH_def)
  from ipc_stream_user_name [OF inv q(1,2) _ q(4) _ _ v, of 1 "\<lambda>c n. n + 1"] q(3,5,6) i show ?thesis
    by (fastforce simp: new_name_def SUN_PATH_def)
qed

lemma ipc_sample_accept:
  obtains c us s u where "server_inv {} {0, 1, 2} 1 c us s" "us 2 = Some u" "user_fd u = 6" "2 \<notin> cancels s"
    "localAddr c = Sockaddr_un ''/s''" "pServerRecvFunc c = 9" "pServerExitFunc c = 8" "pServerArg c = 3" "app s = (0::nat)"
proof -
  let ?s = "boot (0::nat) [Done, Val 5, Done, Done, Conn 6 (Sockaddr_un ''/c''), Done, Done]"
  obtain c s where i: "comm_ipcStreamInitServer ''/s'' 2 0 8 9 3 ?s = (Some (1, c), s)"
    and q: "localAddr c = Sockaddr_un ''/s''" "num (table c) < cap (table c)" "script s = [Conn 6 (Sockaddr_un ''/c''), Done, Done]"
    "fds s = {5, 0, 1, 2}" "cancels s = {}" "pServerRecvFunc c = 9" "pServerExitFunc c = 8" "pServerArg c = 3"
    "brk s = 2"
    using ipc_sample_init by auto
  have "streamServerInit (Sockaddr_un ''/s'') 2 0 8 9 3 ?s = (Some (1, c), s)"
    using i by (simp add: comm_ipcStreamInitServer_def c_strncpy_def)
  from streamServerInit_inv [OF this] have inv: "server_inv {} {0, 1, 2} 1 c Map.empty s" by (simp add: SUN_PATH_def)
  have "1 \<notin> cancels s" "(0::int) \<le> 6" "6 \<notin> fds s" using q by simp_all
  from ipc_accept_turn [OF inv q(1,2) this(1) q(3) this(2,3), of "\<lambda>c n. 0"]
  obtain k s' u where r: "streamListenBody (pure_app (\<lambda>c n. 0)) 1 1 (c, Map.empty, s) =
      (Next, streamAcceptRegister k (brk s) (c\<lparr>clitAddr := get_name (Some (Sockaddr_un ''/c'')) (clitAddr c)\<rparr>),
        [brk s \<mapsto> u], s')" and u: "user_fd u = 6" "cancels s' = cancels s"
    by blast
  let ?c = "streamAcceptRegister k 2 (c\<lparr>clitAddr := get_name (Some (Sockaddr_un ''/c'')) (clitAddr c)\<rparr>)"
  let ?t = "s'\<lparr>app := 0\<rparr>"
  from streamListenBody_inv [OF inv r] q have i1: "server_inv {} {0, 1, 2} 1 ?c [2 \<mapsto> u] s'" by simp
  then have "wf_world ?t" by (simp add: server_inv_def server_core_def wf_world_def)
  from server_inv_frame [OF i1 this] have "server_inv {} {0, 1, 2} 1 ?c [2 \<mapsto> u] ?t" by simp
  from that [OF this] u q show thesis by (simp add: streamAcceptRegister_def)
qed

theorem ipc_stream_ignores_end_of_file_witness:
  "\<exists>c us s c' us' s'. ipcStreamServerRecvTask (pure_app (\<lambda>c n. n + (1::nat))) 2 2
      (c, us, s\<lparr>script := [Done, Done, Fail 104]\<rparr>) = Some (c', us', s') \<and>
    calls s' = calls s @ [UserRecvCb 9 3 2 [] 0, UserRecvCb 9 3 2 [] 0, UserExitCb 8 3 2]"
proof -
  obtain c us s u where inv: "server_inv {} {0, 1, 2} 1 c us s" and u: "us 2 = Some u" "user_fd u = 6" "2 \<notin> cancels s"
    "localAddr c = Sockaddr_un ''/s''" "pServerRecvFunc c = 9" "pServerExitFunc c = 8" "pServerArg c = 3" "app s = (0::nat)"
    by (rule ipc_sample_accept)
  let ?s = "s\<lparr>script := replicate 2 Done @ [Fail 104]\<rparr>"
  have "wf_world ?s" using inv by (simp add: server_inv_def server_core_def)
  from server_inv_frame [OF inv this] have i2: "server_inv {} {0, 1, 2} 1 c us ?s" by simp
  from ipc_stream_ignores_end_of_file [OF i2 u(1) _ _ u(4), of 2 2 104 "[]" "\<lambda>c n. n + (1::nat)"] u
  show ?thesis by (force simp: user_exit_calls_def numeral_2_eq_2)
qed

lemma faults_more:
  "set (faults s) \<subseteq> set (faults (c_free p s))" "pthread_create d s = (e, t, s') \<Longrightarrow> faults s' = faults s"
  "faults (unixClose n path s) = faults s"
  by (auto simp: c_free_def pthread_create_def pop_def unixClose_def sys_unlink_def sys_close_def
      split: list.splits reply.splits)

text \<open>Opening a socket under a name that is too long, on the way to a handle.\<close>

lemma unixOpen_long:
  assumes w: "wf_world s" and l: "SUN_PATH \<le> length path" and k: "script s = Val n # rs" "0 \<le> n" "n \<notin> fds s"
    and o: "unixOpen SOCK_STREAM path s = (m, u)"
  shows "Buffer_Overflow SUN_PATH (length path) \<in> set (faults u)"
proof -
  obtain t where t: "sys_socket AF_UNIX SOCK_STREAM (sys_unlink path s) = (n, t)"
    using k by (simp add: sys_socket_def new_fd_def pop_def sys_unlink_def)
  from unixOpen_overflow [OF t k(2) l w o] show ?thesis by simp
qed

lemma long_name_init:
  assumes w: "wf_world s" and l: "SUN_PATH \<le> length path" and k: "script s = Done # Val n # rs" "0 \<le> n" "n \<notin> fds s"
  shows "Buffer_Overflow SUN_PATH (length path) \<in> set (faults (snd (streamClientInit (Sockaddr_un path) f x a s)))"
    and "Buffer_Overflow SUN_PATH (length path) \<in> set (faults (snd (streamServerInit (Sockaddr_un path) m af xf rf a s)))"
proof -
  obtain p s1 where 1: "c_malloc s = (p, s1)" by fastforce
  have s1: "p \<noteq> NULL" "script s1 = Val n # rs" "fds s1 = fds s" "wf_world s1"
    using 1 k w by (auto simp: c_malloc_def pop_def wf_world_def less_SucI)
  obtain r u where o: "unixOpen SOCK_STREAM path s1 = (r, u)" by fastforce
  have "n \<notin> fds s1" using k s1 by simp
  note b = unixOpen_long [OF s1(4) l s1(2) k(2) this o]
  show "Buffer_Overflow SUN_PATH (length path) \<in> set (faults (snd (streamClientInit (Sockaddr_un path) f x a s)))"
    using b faults_more(1) [of u p] s1(1)
    by (auto simp: streamClientInit_def 1 streamInitClient_def streamClientNewContext_def o split: prod.split)
  obtain e t v where c: "pthread_create False u = (e, t, v)" by (metis prod_cases3)
  have v: "faults v = faults u" using faults_more(2) [OF c] .
  show "Buffer_Overflow SUN_PATH (length path) \<in> set (faults (snd (streamServerInit (Sockaddr_un path) m af xf rf a s)))"
    using b v s1(1) faults_more(1) [of u p] faults_more(1) [of "unixClose r path v" p] faults_more(3) [of r path v]
    by (auto simp: streamServerInit_def 1 streamInitServer_def streamServerNewContext_def o c streamUninitServer_def
        Let_def split: prod.split)
qed

text \<open>
  C32. Names that do not fit. A client that connects to a name of 108 characters or more writes
  beyond \<^verbatim>\<open>sun_path\<close>, and with 256 or more also beyond \<^verbatim>\<open>remotePath\<close> in its context, before the
  kernel is asked; a client or a server initialised with such a name, once it has its socket,
  writes beyond \<^verbatim>\<open>sun_path\<close> as well, because only 255 is checked.
\<close>

theorem ipc_stream_long_name:
  fixes c :: stream_client_ctx
  assumes w: "wf_world s" and l: "108 \<le> length name"
  shows "(0 \<le> stream_client_ctx.fd c \<longrightarrow>
      faults (snd (snd (comm_ipcStreamClientConnect (Some (p, c)) name s))) =
        faults s @ (if 256 \<le> length name then [Buffer_Overflow 256 (length name)] else []) @
          [Buffer_Overflow 108 (length name)]) \<and>
    (script s = Done # Val n # rs \<and> 0 \<le> n \<and> n \<notin> fds s \<longrightarrow>
      Buffer_Overflow 108 (min 255 (length name)) \<in> set (faults (snd (comm_ipcStreamClientInit name f x a s))) \<and>
      Buffer_Overflow 108 (min 255 (length name)) \<in> set (faults (snd (comm_ipcStreamInitServer name m af xf rf a s))))"
proof (intro conjI impI)
  assume f: "0 \<le> stream_client_ctx.fd c"
  let ?s = "storeAddr (Sockaddr_un name) s"
  have s: "wf_world ?s" "faults ?s = faults s @ (if 256 \<le> length name then [Buffer_Overflow 256 (length name)] else []) @
          [Buffer_Overflow 108 (length name)]" using w l by (simp_all add: c_strcpy_def SUN_PATH_def)
  obtain e s1 where 1: "sys_connect (stream_client_ctx.fd c) (Sockaddr_un name) ?s = (e, s1)" by fastforce
  have f1: "faults s1 = faults ?s" using sys_connect_rule [OF 1 s(1)] by (simp add: quiet_def)
  obtain e2 t s2 where 2: "pthread_create True s1 = (e2, t, s2)" by (metis prod_cases3)
  have f2: "faults s2 = faults ?s" using faults_more(2) [OF 2] f1 by simp
  have "faults (snd (snd (comm_ipcStreamClientConnect (Some (p, c)) name s))) = faults ?s"
    using f f1 f2 1 2 unfolding comm_ipcStreamClientConnect_def streamClientConnect_def
    by (simp del: storeAddr.simps add: Let_def)
  with s(2) show "faults (snd (snd (comm_ipcStreamClientConnect (Some (p, c)) name s))) =
        faults s @ (if 256 \<le> length name then [Buffer_Overflow 256 (length name)] else []) @
          [Buffer_Overflow 108 (length name)]" by simp
next
  assume k: "script s = Done # Val n # rs \<and> 0 \<le> n \<and> n \<notin> fds s"
  have "SUN_PATH \<le> length (c_strncpy 255 name)" using l by (simp add: SUN_PATH_def c_strncpy_def)
  note i = long_name_init [OF w this, of n rs]
  show "Buffer_Overflow 108 (min 255 (length name)) \<in> set (faults (snd (comm_ipcStreamClientInit name f x a s)))"
    using i(1) [of f x a] k by (simp add: comm_ipcStreamClientInit_def SUN_PATH_def c_strncpy_def min.commute)
  show "Buffer_Overflow 108 (min 255 (length name)) \<in> set (faults (snd (comm_ipcStreamInitServer name m af xf rf a s)))"
    using i(2) [of m af xf rf a] k by (simp add: comm_ipcStreamInitServer_def SUN_PATH_def c_strncpy_def min.commute)
qed

theorem ipc_stream_long_name_witness:
  "Buffer_Overflow 108 255 \<in> set (faults (snd (comm_ipcStreamClientInit (replicate 300 CHR ''x'') 9 8 3
     (boot () [Done, Val 5]))))"
  using ipc_stream_long_name [of "boot () [Done, Val 5]" "replicate 300 CHR ''x''" sample_client 1 5 "[]" 9 8 3 0 0 0 0]
  by simp

end
