(* ===== verification/Server_Race.thy ===== *)
theory Server_Race
  imports Stream_Server
begin

text \<open>
  A look inside the acceptance of a client. The listen thread creates the user and its thread,
  calls the application, and only then enters the user in the table; meanwhile the threads of
  all users run, the new one's included. The machine here lets them run between the two halves.
  As long as the new user's connection does not end in between, the halves amount to the one
  turn of \<open>Stream_Server\<close>; when it does, a freed block is entered in the table.
\<close>

section \<open>The machine\<close>

datatype listener = Idle | Pending nat addr

text \<open>\<open>early\<close> permits the thread of the user being accepted to finish between the halves.\<close>

inductive race_step :: "bool \<Rightarrow> (callback \<Rightarrow> 'a \<Rightarrow> 'a) \<Rightarrow> addr \<Rightarrow>
    listener \<times> stream_server_ctx \<times> user_store \<times> 'a world \<Rightarrow>
    listener \<times> stream_server_ctx \<times> user_store \<times> 'a world \<Rightarrow> bool" for early f pc where
  turn: "server_step f pc (c, us, s) (c', us', s') \<Longrightarrow> race_step early f pc (Idle, c, us, s) (Idle, c', us', s')"
| create: "running c \<noteq> 0 \<Longrightarrow> sys_accept (fd c) s = (n, a, s1) \<Longrightarrow> 0 \<le> n \<Longrightarrow> accept_addr c a = (pa, ca) \<Longrightarrow>
     streamAcceptCreate (pure_app f) pc ca us pa n s1 = (Some (i, p), us', s') \<Longrightarrow>
     race_step early f pc (Idle, c, us, s) (Pending i p, ca, us', s')"
| register: "race_step early f pc (Pending i p, c, us, s) (Idle, streamAcceptRegister i p c, us, s)"
| receive: "us q = Some u \<Longrightarrow> 0 < user_fd u \<Longrightarrow>
     streamServerRecvBody (pure_app f) (user_thread u) c q (u, s) = (fl, u', s') \<Longrightarrow>
     race_step early f pc (Pending i p, c, us, s) (Pending i p, c, us(q \<mapsto> u'), s')"
| leave: "us q = Some u \<Longrightarrow> user_fd u \<le> 0 \<Longrightarrow> early \<or> q \<noteq> p \<Longrightarrow>
     streamDisconnectClient q (c, us, s) = (c', us', s') \<Longrightarrow>
     race_step early f pc (Pending i p, c, us, s) (Pending i p, c', us', s')"
| send: "q \<in> dom us \<union> {NULL} \<Longrightarrow> streamServerSend q us pData n s = (r, s') \<Longrightarrow>
     race_step early f pc (Pending i p, c, us, s) (Pending i p, c, us, s')"
| send_all: "race_step early f pc (Pending i p, c, us, s)
     (Pending i p, c, us, streamServerSendAllClient (Some (pc, c)) us pData n s)"

inductive_cases race_idleE: "race_step early f pc (Idle, c, us, s) st"
inductive_cases race_pendingE: "race_step early f pc (Pending i p, c, us, s) st"

inductive race_reach :: "bool \<Rightarrow> (callback \<Rightarrow> 'a \<Rightarrow> 'a) \<Rightarrow> addr \<Rightarrow>
    listener \<times> stream_server_ctx \<times> user_store \<times> 'a world \<Rightarrow>
    listener \<times> stream_server_ctx \<times> user_store \<times> 'a world \<Rightarrow> bool" for early f pc st where
  start: "race_reach early f pc st st"
| step: "race_reach early f pc st st' \<Longrightarrow> race_step early f pc st' st'' \<Longrightarrow> race_reach early f pc st st''"

section \<open>The second half commutes with the turns of the other users\<close>

abbreviation reg :: "nat \<Rightarrow> addr \<Rightarrow> slots \<Rightarrow> slots" where
  "reg i p t \<equiv> t\<lparr>tbl := (tbl t)[i := p], num := num t + 1\<rparr>"

lemma find_slot_reg:
  assumes "tbl t ! i = NULL" "q \<noteq> p" "q \<noteq> NULL"
  shows "find_slot q m ((tbl t)[i := p]) = find_slot q m (tbl t)"
proof -
  have "(tbl t)[i := p] ! j = q \<longleftrightarrow> tbl t ! j = q" for j
    using assms by (cases "i < length (tbl t)"; cases "j = i") (auto simp: not_less list_update_beyond)
  then show ?thesis by (simp add: find_slot_def)
qed

lemma clear_slot_free: "tbl t ! i = NULL \<Longrightarrow> tbl (clear_slot q t) ! i = NULL"
proof -
  have "xs ! i = NULL \<Longrightarrow> xs[k := NULL] ! i = NULL" for xs :: "addr list" and k
    by (cases "k = i"; cases "k < length xs") (auto simp: not_less list_update_beyond)
  then show "tbl t ! i = NULL \<Longrightarrow> tbl (clear_slot q t) ! i = NULL" by (simp add: clear_slot_def split: option.split)
qed

lemma clear_slot_reg:
  assumes "tbl t ! i = NULL" "q \<noteq> p" "q \<noteq> NULL" "0 < num t"
  shows "clear_slot q (reg i p t) = reg i p (clear_slot q t)"
proof (cases "find_slot q (cap t) (tbl t)")
  case None
  with find_slot_reg [OF assms(1-3)] show ?thesis by (simp add: clear_slot_def)
next
  case (Some k)
  then have "tbl t ! k = q" by (auto dest!: find_slot_Some)
  with assms(1,3) have "k \<noteq> i" by auto
  with Some find_slot_reg [OF assms(1-3)] assms(4) show ?thesis
    by (simp add: clear_slot_def list_update_swap)
qed

lemma disconnect_register:
  assumes "tbl (table c) ! i = NULL" "q \<noteq> p" "q \<noteq> NULL" "0 < num (table c)"
    and d: "streamDisconnectClient q (c, us, s) = (c', us', s')"
  shows "streamDisconnectClient q (streamAcceptRegister i p c, us, s) = (streamAcceptRegister i p c', us', s') \<and>
    c' = c\<lparr>table := clear_slot q (table c)\<rparr>"
  using d clear_slot_reg [OF assms(1-4)] assms(3)
  by (auto simp: streamDisconnectClient_def streamAcceptRegister_def Let_def split: option.splits)

lemma register_sel [simp]:
  "localAddr (streamAcceptRegister i p c) = localAddr c" "thread (streamAcceptRegister i p c) = thread c"
  "pServerExitFunc (streamAcceptRegister i p c) = pServerExitFunc c" "pServerArg (streamAcceptRegister i p c) = pServerArg c"
  "pServerRecvFunc (streamAcceptRegister i p c) = pServerRecvFunc c" "fd (streamAcceptRegister i p c) = fd c"
  "table (streamAcceptRegister i p c) = reg i p (table c)"
  by (simp_all add: streamAcceptRegister_def)

lemma recv_register:
  "streamServerRecvBody cb t (streamAcceptRegister i p c) q st = streamServerRecvBody cb t c q st"
  unfolding streamServerRecvBody_def register_sel by (rule refl)

section \<open>The invariant\<close>

fun race_inv :: "addr set \<Rightarrow> int set \<Rightarrow> addr \<Rightarrow> listener \<times> stream_server_ctx \<times> user_store \<times> 'a world \<Rightarrow> bool" where
  "race_inv H F pc (Idle, c, us, s) \<longleftrightarrow> server_inv H F pc c us s"
| "race_inv H F pc (Pending i p, c, us, s) \<longleftrightarrow> server_inv H F pc (streamAcceptRegister i p c) us s \<and>
     tbl (table c) ! i = NULL \<and> i < nat (cap (table c)) \<and> p \<in> dom us"

lemma race_slots:
  assumes "race_inv H F pc (Pending i p, c, us, s)"
  shows "slots_ok (reg i p (table c)) (dom us)"
  using assms server_inv_slots [of H F pc "streamAcceptRegister i p c" us s] by simp

lemma race_members:
  assumes "race_inv H F pc (Pending i p, c, us, s)" "j < nat (cap (table c))"
  shows "tbl (table c) ! j \<in> dom us \<union> {NULL}"
proof (cases "j = i")
  case False
  have "j < length (tbl (reg i p (table c)))" using race_slots [OF assms(1)] assms(2) by (simp add: slots_ok_def)
  from slots_member [OF race_slots [OF assms(1)] this] False show ?thesis by simp
qed (use assms in simp)
lemma race_step_inv:
  assumes st: "race_step False f pc (l, c, us, s) (l', c', us', s')" and inv: "race_inv H F pc (l, c, us, s)"
  shows "race_inv H F pc (l', c', us', s') \<and> faults s' = faults s \<and> cap (table c') = cap (table c) \<and> thread c' = thread c"
proof (cases l)
  case Idle
  with inv have i: "server_inv H F pc c us s" by simp
  from st [unfolded Idle] show ?thesis
  proof (rule race_idleE)
    fix c1 us1 s1 assume "server_step f pc (c, us, s) (c1, us1, s1)" "(l', c', us', s') = (Idle, c1, us1, s1)"
    with server_step_inv [OF _ i] show ?thesis by auto
  next
    fix n a s1 pa ca k p us1 s2
    assume a: "sys_accept (fd c) s = (n, a, s1)" "0 \<le> n" "accept_addr c a = (pa, ca)"
      "streamAcceptCreate (pure_app f) pc ca us pa n s1 = (Some (k, p), us1, s2)"
      and e: "(l', c', us', s') = (Pending k p, ca, us1, s2)"
    have w: "wf_world s" "0 \<in> fds s" using i by (auto simp: server_inv_def server_core_def)
    note w1 = sys_accept_rule [OF a(1) w(1)]
    with a(2) have n: "n \<notin> fds s" "fds s1 = insert n (fds s)" "heap s1 = heap s" "wf_world s1" "faults s1 = faults s"
      by (auto simp: quiet_def)
    have pos: "0 < n" using a(2) n(1) w(2) order_le_less [of 0 n] by auto
    have nF: "n \<notin> F" using n(1) i by (auto simp: server_inv_def server_core_def)
    obtain nb where nb: "ca = c\<lparr>clitAddr := nb\<rparr>" using a(3) by (rule accept_addr_ctx)
    have "server_inv H (insert n F) pc c us s1" using server_core_take [OF i n(1,4,3,2)] .
    then have i2: "server_inv H (insert n F) pc ca us s1" by (simp add: nb server_inv_clit)
    have ac: "streamAcceptClient (pure_app f) pc ca us pa n s1 = (p, streamAcceptRegister k p ca, us1, s2)"
      by (simp add: streamAcceptClient_def a(4))
    have k: "p \<noteq> NULL \<and> find_slot NULL (cap (table c)) (tbl (table c)) = Some k"
      using a(4) by (auto simp: streamAcceptCreate_def nb Let_def split: if_splits option.splits prod.splits)
    note a2 = streamAcceptClient_inv [OF i2 nF pos ac]
    with k e n(5) find_slot_Some [of NULL "cap (table c)" "tbl (table c)" k] show ?thesis by (auto simp: nb)
  qed
next
  case (Pending i p)
  with inv have r: "server_inv H F pc (streamAcceptRegister i p c) us s" "tbl (table c) ! i = NULL"
    "i < nat (cap (table c))" "p \<in> dom us" by simp_all
  have w: "wf_world s" using r(1) by (simp add: server_inv_def server_core_def)
  have frame: "race_inv H F pc (Pending i p, c, us, s1) \<and> faults s1 = faults s" if "quiet s s1 \<and> wf_world s1 \<and> res s1 = res s" for s1
    using server_inv_frame [OF r(1), of s1] that r by (simp add: res_def quiet_def)
  from st [unfolded Pending] show ?thesis
  proof (rule race_pendingE)
    assume "(l', c', us', s') = (Idle, streamAcceptRegister i p c, us, s)"
    with r show ?thesis by simp
  next
    fix q u fl u' s1
    assume a: "us q = Some u" "0 < user_fd u" "streamServerRecvBody (pure_app f) (user_thread u) c q (u, s) = (fl, u', s1)"
      and e: "(l', c', us', s') = (Pending i p, c, us(q \<mapsto> u'), s1)"
    from streamServerRecvBody_inv [OF r(1) a(1,2)] a(3) recv_register have
      "server_inv H F pc (streamAcceptRegister i p c) (us(q \<mapsto> u')) s1 \<and> faults s1 = faults s" by metis
    with e r a(1) show ?thesis by auto
  next
    fix q u c1 us1 s1
    assume a: "us q = Some u" "user_fd u \<le> 0" "False \<or> q \<noteq> p" "streamDisconnectClient q (c, us, s) = (c1, us1, s1)"
      and e: "(l', c', us', s') = (Pending i p, c1, us1, s1)"
    have ok: "finite (dom us)" "NULL \<notin> dom us" "num (table c) + 1 = int (card (dom us))"
      using user_slots.ok_num [OF server_inv_slots [OF r(1)]] by simp_all
    have "card {p, q} \<le> card (dom us)" using a(1) r(4) ok(1) by (intro card_mono) auto
    then have n: "q \<noteq> p" "q \<noteq> NULL" "0 < num (table c)" using a(1,3) ok by auto
    note d = disconnect_register [OF r(2) n a(4)]
    note i1 = streamDisconnectClient_inv [OF r(1) a(1) conjunct1 [OF d]]
    have "tbl (table c1) ! i = NULL"
      using d clear_slot_free [OF r(2)] by simp
    moreover have "cap (table c1) = cap (table c)" "thread c1 = thread c"
      using d by (simp_all add: clear_slot_def split: option.split)
    ultimately show ?thesis using i1 e r n(1) by auto
  next
    fix q pData n x s1
    assume a: "q = NULL \<or> q \<in> dom us" "streamServerSend q us pData n s = (x, s1)"
      and e: "(l', c', us', s') = (Pending i p, c, us, s1)"
    from streamServerSend_frame [OF a(2) _ w] a(1) frame e show ?thesis by simp
  next
    fix pData n
    assume e: "(l', c', us', s') = (Pending i p, c, us, streamServerSendAllClient (Some (pc, c)) us pData n s)"
    have "\<forall>j\<in>set [0..<nat (cap (table c))]. tbl (table c) ! j \<in> dom us \<union> {NULL}"
      using race_members [of H F pc i p c us s] inv Pending by simp
    from send_slots_frame [OF this w] have "quiet s s' \<and> wf_world s' \<and> res s' = res s"
      using w e by (auto simp: streamServerSendAllClient_def split: option.splits)
    with frame e show ?thesis by simp
  qed
qed

lemma race_reach_inv:
  assumes "race_reach False f pc (l, c, us, s) st" "race_inv H F pc (l, c, us, s)"
  shows "case st of (l', c', us', s') \<Rightarrow> race_inv H F pc (l', c', us', s') \<and> faults s' = faults s \<and>
    cap (table c') = cap (table c) \<and> thread c' = thread c"
  using assms(1)
proof induction
  case start
  with assms(2) show ?case by simp
next
  case (step st' st'')
  obtain l1 c1 us1 s1 where 1: "st' = (l1, c1, us1, s1)" by (metis prod_cases4)
  obtain l2 c2 us2 s2 where 2: "st'' = (l2, c2, us2, s2)" by (metis prod_cases4)
  from step 1 2 have "race_step False f pc (l1, c1, us1, s1) (l2, c2, us2, s2)" "race_inv H F pc (l1, c1, us1, s1)" by simp_all
  from race_step_inv [OF this] step 1 2 show ?case by simp
qed

lemma slots_members:
  assumes "slots_ok t U"
  shows "set (tbl t) - {NULL} = U"
proof -
  have "mset (tbl t) = mset_set U + replicate_mset (length (tbl t) - card U) NULL" "finite U" "NULL \<notin> U"
    using assms by (simp_all add: slots_ok_def)
  then have "set_mset (mset (tbl t)) - {NULL} = U" by (auto simp del: set_mset_mset split: if_splits)
  then show ?thesis by simp
qed

lemma set_put:
  assumes "j < length xs" "xs ! j = NULL" "p \<noteq> NULL"
  shows "set (xs[j := p]) - {NULL} = insert p (set xs - {NULL})"
proof -
  have x: "xs = take j xs @ xs ! j # drop (Suc j) xs" using id_take_nth_drop [OF assms(1)] .
  have "set xs = insert (xs ! j) (set (take j xs) \<union> set (drop (Suc j) xs))" by (subst x) simp
  then show ?thesis using assms by (simp add: upd_conv_take_nth_drop insert_Diff_if)
qed

lemma slots_once:
  assumes "slots_ok (reg i p t) U" "tbl t ! i = NULL" "i < nat (cap t)" "p \<in> U"
  shows "p \<notin> set (tbl t)"
proof
  assume m: "p \<in> set (tbl t)"
  have o: "mset ((tbl t)[i := p]) = mset_set U + replicate_mset (length (tbl t) - card U) NULL" "finite U" "NULL \<notin> U"
    "i < length (tbl t)" using assms by (auto simp: slots_ok_def)
  then have "p \<noteq> NULL" using assms(4) by metis
  have "count (mset ((tbl t)[i := p])) p = 1" using o(2,3) assms(4) \<open>p \<noteq> NULL\<close> by (simp add: o(1))
  moreover have "count (mset (tbl t)) p \<ge> 1" using m by (simp add: Suc_le_eq)
  ultimately show False using o(4) \<open>p \<noteq> NULL\<close> assms(2) by (simp add: mset_update)
qed

text \<open>The permissive machine can do what the other one can.\<close>

lemma race_reach_early: "race_reach False f pc st st' \<Longrightarrow> race_reach True f pc st st'"
proof (induction rule: race_reach.induct)
  case start
  show ?case by (rule race_reach.start)
next
  case (step st' st'')
  from step(2) have "race_step True f pc st' st''" by cases (auto intro: race_step.intros)
  with step(3) show ?case by (rule race_reach.step)
qed

text \<open>A run in which the new user's connection ends before the user is registered.\<close>

lemma sample_create:
  obtains c s1 c' us' s' u where
    "streamServerInit (Sockaddr_in 80 0) 2 0 8 9 3 (boot (0::nat) (sample_kernel @ [Done])) = (Some (1, c), s1)"
    "race_reach early (\<lambda>c n. n + 1) 1 (Idle, c, Map.empty, s1) (Pending 0 2, c', us', s')"
    "us' 2 = Some u" "user_fd u = -1"
proof -
  let ?f = "\<lambda>(c::callback) n::nat. n + 1"
  obtain c s1 where i: "streamServerInit (Sockaddr_in 80 0) 2 0 8 9 3 (boot (0::nat) (sample_kernel @ [Done])) = (Some (1, c), s1)"
    and c: "running c = 1" "fd c = 5" "localAddr c = Sockaddr_in 80 0" "num (table c) = 0" "cap (table c) = 2"
      "tbl (table c) = replicate 32 NULL" "pServerAcptFunc c = 0" "pServerExitFunc c = 8" "pServerArg c = 3"
    and s: "script s1 = [Conn 6 (Sockaddr_in 1 1), Done, Done, Done]" "fds s1 = {5, 0, 1, 2}" "brk s1 = 2"
      "cancels s1 = {}" "next_tid s1 = 2"
    by (simp add: sample_kernel_def streamServerInit_def streamInitServer_def tcpOpen_def streamServerNewContext_def
        USER_NUM_def posix_eval)
  obtain s2 where a: "sys_accept (fd c) s1 = (6, Some (Sockaddr_in 1 1), s2)"
    and s2: "script s2 = [Done, Done, Done]" "fds s2 = {6, 5, 0, 1, 2}" "brk s2 = 2" "cancels s2 = {}" "next_tid s2 = 2"
    using c s by (simp add: sys_accept_def pop_def)
  have ca: "accept_addr c (Some (Sockaddr_in 1 1)) = (Sockaddr_in 1 1, c)" using c by (simp add: accept_addr_def)
  obtain u s3 where k: "streamAcceptCreate (pure_app ?f) 1 c Map.empty (Sockaddr_in 1 1) 6 s2 = (Some (0, 2), [2 \<mapsto> u], s3)"
    and u: "user_fd u = 6" "user_thread u = 2" and s3: "script s3 = [Done]" "fds s3 = {6, 5, 0, 1, 2}" "cancels s3 = {}"
    using c s2 by (simp add: streamAcceptCreate_def sample_find c_malloc_def pop_def pthread_create_def
        sys_setsockopt_def Let_def)
  have 1: "race_step early ?f 1 (Idle, c, Map.empty, s1) (Pending 0 2, c, [2 \<mapsto> u], s3)"
    using race_step.create [OF _ a _ ca k] c by simp
  obtain u' s4 where b: "streamServerRecvBody (pure_app ?f) (user_thread u) c 2 (u, s3) = (Break, u', s4)" "user_fd u' = -1"
    using u s3 c by (simp add: streamServerRecvBody_def pthread_testcancel_def sys_recv_def sys_recvfrom_def pop_def
        recv_stops_def Let_def)
  have 2: "race_step early ?f 1 (Pending 0 2, c, [2 \<mapsto> u], s3) (Pending 0 2, c, [2 \<mapsto> u'], s4)"
    using race_step.receive [of "[2 \<mapsto> u]" 2 u, OF _ _ b(1), of early 1 0 2] u by simp
  from that [OF i race_reach.step [OF race_reach.step [OF race_reach.start 1] 2]] b(2) show thesis by simp
qed

section \<open>Properties\<close>

text \<open>
  C10. Accepting a client in two halves is safe as long as the new user's connection does not
  end in between: whatever the threads of all users and the application do meanwhile, the table
  holds exactly the users (but for the one being accepted), the count is right, and no freed
  memory is touched.
\<close>

theorem accept_halves_safe:
  assumes i: "streamServerInit la m af xf rf a s = (Some (pc, c), s1)" and w: "wf_world s" "0 \<in> fds s" and l: "fits la"
    and r: "race_reach False f pc (Idle, c, Map.empty, s1) (st, c', us', s')"
  shows "faults s' = faults s \<and> dom us' \<subseteq> heap s' \<and>
    (case st of
       Idle \<Rightarrow> set (tbl (table c')) - {NULL} = dom us' \<and> num (table c') = int (card (dom us'))
     | Pending j p \<Rightarrow> p \<in> dom us' \<and> set (tbl (table c')) - {NULL} = dom us' - {p} \<and>
         num (table c') + 1 = int (card (dom us')))"
proof -
  from streamServerInit_inv [OF i w l] have i1: "race_inv (heap s) (fds s) pc (Idle, c, Map.empty, s1)"
    "faults s1 = faults s" by simp_all
  from race_reach_inv [OF r i1(1)] have i2: "race_inv (heap s) (fds s) pc (st, c', us', s')" "faults s' = faults s1" by simp_all
  show ?thesis
  proof (cases st)
    case Idle
    with i2 have v: "server_inv (heap s) (fds s) pc c' us' s'" by simp
    note ok = server_inv_slots [OF v]
    have "dom us' \<subseteq> heap s'" using v by (auto simp: server_inv_def server_core_def)
    with Idle slots_members [OF ok] user_slots.ok_num [OF ok] i1 i2 show ?thesis by simp
  next
    case (Pending j p)
    with i2 have v: "server_inv (heap s) (fds s) pc (streamAcceptRegister j p c') us' s'"
      "tbl (table c') ! j = NULL" "j < nat (cap (table c'))" "p \<in> dom us'" by simp_all
    have ok: "slots_ok (reg j p (table c')) (dom us')" using server_inv_slots [OF v(1)] by simp
    note once = slots_once [OF ok v(2-4)]
    have j: "j < length (tbl (table c'))" using ok v(3) by (simp add: slots_ok_def)
    have "set (tbl (table c')) - {NULL} = dom us' - {p}"
    proof -
      have "p \<noteq> NULL" using user_slots.ok_num [OF ok] v(4) by auto
      have "insert p (set (tbl (table c')) - {NULL}) = set ((tbl (table c'))[j := p]) - {NULL}"
        using set_put [OF j v(2) \<open>p \<noteq> NULL\<close>] by simp
      then have "insert p (set (tbl (table c')) - {NULL}) = dom us'" using slots_members [OF ok] by simp
      moreover have "p \<notin> set (tbl (table c')) - {NULL}" using once by simp
      ultimately show ?thesis by (metis Diff_insert_absorb)
    qed
    moreover have "dom us' \<subseteq> heap s'" using v(1) by (auto simp: server_inv_def server_core_def)
    ultimately show ?thesis using Pending v user_slots.ok_num [OF ok] i1 i2 by simp
  qed
qed

text \<open>
  C26. When the new user's connection does end in between, its thread does not find itself in the
  table and frees its block; then the listen thread enters the freed block and counts it. From
  then on the count is one too high, and disconnecting that entry, as the un-initialisation does
  for every slot, reads the freed block and frees it again.
\<close>

theorem accept_race:
  assumes i: "streamServerInit la m af xf rf a s = (Some (pc, c), s1)" and w: "wf_world s" "0 \<in> fds s" and l: "fits la"
    and r: "race_reach False f pc (Idle, c, Map.empty, s1) (Pending j p, c', us', s')"
    and e: "us' p = Some u" "user_fd u \<le> 0"
  shows "\<exists>s2 c2 us2. race_step True f pc (Pending j p, c', us', s') (Pending j p, c', us2, s2) \<and>
    race_step True f pc (Pending j p, c', us2, s2) (Idle, c2, us2, s2) \<and>
    us2 = us'(p := None) \<and> p \<notin> heap s2 \<and> p \<in> set (tbl (table c2)) \<and> num (table c2) = int (card (dom us2)) + 1 \<and>
    (\<exists>c3 s3. streamDisconnectClient p (c2, us2, s2) = (c3, us2, s3) \<and>
       faults s3 = faults s @ [Use_After_Free p, Bad_Free p])"
proof -
  from streamServerInit_inv [OF i w l] have i1: "race_inv (heap s) (fds s) pc (Idle, c, Map.empty, s1)"
    "faults s1 = faults s" by simp_all
  from race_reach_inv [OF r i1(1)] have "race_inv (heap s) (fds s) pc (Pending j p, c', us', s')" "faults s' = faults s1"
    unfolding prod.case by blast+
  with i1(2) have v: "server_inv (heap s) (fds s) pc (streamAcceptRegister j p c') us' s'"
    "tbl (table c') ! j = NULL" "j < nat (cap (table c'))" "p \<in> dom us'" and f: "faults s' = faults s" by simp_all
  have ok: "slots_ok (reg j p (table c')) (dom us')" using server_inv_slots [OF v(1)] by simp
  note n = user_slots.ok_num [OF ok]
  have p: "p \<noteq> NULL" "p \<in> heap s'" "wf_world s'" using n v(4) v(1) by (auto simp: server_inv_def server_core_def)
  have "p \<notin> set (tbl (table c'))" using slots_once [OF ok v(2-4)] .
  moreover have "nat (cap (table c')) \<le> length (tbl (table c'))" "j < length (tbl (table c'))"
    using ok v(3) by (auto simp: slots_ok_def)
  ultimately have "find_slot p (cap (table c')) (tbl (table c')) = None" by (auto simp: find_slot_None in_set_conv_nth)
  then have cl: "clear_slot p (table c') = table c'" by (simp add: clear_slot_def)
  let ?us = "us'(p := None)" and ?s = "c_free p s'" and ?c = "streamAcceptRegister j p c'"
  have d: "streamDisconnectClient p (c', us', s') = (c', ?us, ?s)"
    using e p(1) by (simp add: streamDisconnectClient_def cl Let_def)
  have 1: "race_step True f pc (Pending j p, c', us', s') (Pending j p, c', ?us, ?s)"
    by (rule race_step.leave [OF e _ d]) simp
  have h: "p \<notin> heap ?s" "faults ?s = faults s" using c_free_rule [OF p(3,2)] f by (simp_all add: quiet_def)
  have m: "p \<in> set (tbl (table ?c))" using \<open>j < length (tbl (table c'))\<close> by (simp add: set_update_memI)
  have "card (dom us') = Suc (card (dom us' - {p}))" using n v(4) card_Suc_Diff1 [of "dom us'" p] by simp
  then have k: "num (table ?c) = int (card (dom ?us)) + 1" using n by simp
  have "\<exists>c3 s3. streamDisconnectClient p (?c, ?us, ?s) = (c3, ?us, s3) \<and> faults s3 = faults s @ [Use_After_Free p, Bad_Free p]"
    using p(1) h by (simp add: streamDisconnectClient_def Let_def c_free_def)
  with 1 race_step.register [of True f pc j p c' ?us ?s] h m k show ?thesis by blast
qed

theorem accept_halves_safe_witness:
  "\<exists>c s1 c' us' s'. streamServerInit (Sockaddr_in 80 0) 2 0 8 9 3 (boot (0::nat) (sample_kernel @ [Done])) = (Some (1, c), s1) \<and>
    race_reach False (\<lambda>c n. n + 1) 1 (Idle, c, Map.empty, s1) (Pending 0 2, c', us', s') \<and> 2 \<in> dom us' \<and> faults s' = []"
proof -
  obtain c s1 c' us' s' u where
    i: "streamServerInit (Sockaddr_in 80 0) 2 0 8 9 3 (boot (0::nat) (sample_kernel @ [Done])) = (Some (1, c), s1)" and
    r: "race_reach False (\<lambda>c n. n + 1) 1 (Idle, c, Map.empty, s1) (Pending 0 2, c', us', s')" by (rule sample_create)
  from accept_halves_safe [OF i wf_boot _ _ r] have "2 \<in> dom us' \<and> faults s' = []" by simp
  with i r show ?thesis by blast
qed

theorem accept_race_witness:
  "\<exists>c s1 c' us' s' c2 s2. streamServerInit (Sockaddr_in 80 0) 2 0 8 9 3 (boot (0::nat) (sample_kernel @ [Done])) = (Some (1, c), s1) \<and>
    race_reach True (\<lambda>c n. n + 1) 1 (Idle, c, Map.empty, s1) (Pending 0 2, c', us', s') \<and>
    race_reach True (\<lambda>c n. n + 1) 1 (Idle, c, Map.empty, s1) (Idle, c2, us'(2 := None), s2) \<and>
    2 \<notin> heap s2 \<and> 2 \<in> set (tbl (table c2))"
proof -
  let ?f = "\<lambda>(c::callback) n::nat. n + 1"
  obtain c s1 c' us' s' u where
    i: "streamServerInit (Sockaddr_in 80 0) 2 0 8 9 3 (boot (0::nat) (sample_kernel @ [Done])) = (Some (1, c), s1)" and
    r: "race_reach False ?f 1 (Idle, c, Map.empty, s1) (Pending 0 2, c', us', s')"
    and u: "us' 2 = Some u" "user_fd u = -1" by (rule sample_create)
  from accept_race [OF i wf_boot _ _ r u(1)] u(2) obtain s2 c2 where
    1: "race_step True ?f 1 (Pending 0 2, c', us', s') (Pending 0 2, c', us'(2 := None), s2)"
    and 2: "race_step True ?f 1 (Pending 0 2, c', us'(2 := None), s2) (Idle, c2, us'(2 := None), s2)"
    and h: "2 \<notin> heap s2" "2 \<in> set (tbl (table c2))" by auto
  note t = race_reach_early [OF r]
  from race_reach.step [OF race_reach.step [OF t 1] 2] t i h show ?thesis by blast
qed

end
