(* ===== verification/Ipc_Dgram.thy ===== *)
theory Ipc_Dgram
  imports Unix_Socket Recv_Loop
begin

text \<open>
  \<^verbatim>\<open>source/comm_ipc_dgram.c\<close>: datagrams between processes over UNIX domain sockets. A context
  owns a datagram socket bound to a name in the file system and, when the application gives a
  receive callback, a joinable receive thread, which tells the application the sender's name.
\<close>

section \<open>Context and socket\<close>

record ipc_dgram_ctx =
  localPath :: string
  fd :: int
  pRecvFunc :: fptr
  pArg :: addr
  thread :: tid
  running :: int
  recvMsg :: "u8 list"

definition ipcDgramInitSocket :: "ipc_dgram_ctx \<Rightarrow> 'a world \<Rightarrow> int \<times> ipc_dgram_ctx \<times> 'a world" where
  "ipcDgramInitSocket pContext s =
     (let (n, s) = unixOpen SOCK_DGRAM (localPath pContext) s in
      if n < 0 then (-1, pContext, s) else (0, pContext\<lparr>fd := n\<rparr>, s))"

definition ipcDgramUninitSocket :: "ipc_dgram_ctx \<Rightarrow> 'a world \<Rightarrow> ipc_dgram_ctx \<times> 'a world" where
  "ipcDgramUninitSocket pContext s =
     (if 0 < fd pContext then pContext\<lparr>fd := -1\<rparr> else pContext,
      unixClose (fd pContext) (localPath pContext) s)"

section \<open>The receive thread\<close>

text \<open>One turn, on the context, the local variables \<open>recvAddr\<close> and \<open>recvAddrLen\<close>, and the world.\<close>

definition ipcDgramRecvBody :: "'a application \<Rightarrow> tid \<Rightarrow> ipc_dgram_ctx \<times> name_buf \<times> 'a world \<Rightarrow>
    flow \<times> ipc_dgram_ctx \<times> name_buf \<times> 'a world" where
  "ipcDgramRecvBody cb t st = (case st of (pContext, recvAddr, s) \<Rightarrow>
     if pthread_testcancel t s then (Cancel, st)
     else
       let (len, bs, src, s) = sys_recvfrom (fd pContext) COMM_BUF_SIZE s;
           pContext = pContext\<lparr>recvMsg := fill (recvMsg pContext) bs\<rparr>;
           recvAddr = get_name src recvAddr
       in if len < 0 then (Break, pContext, recvAddr, s)
          else if pthread_testcancel t s then (Cancel, pContext, recvAddr, s)
          else (Next, pContext, recvAddr,
            if pRecvFunc pContext \<noteq> NULL
            then invoke cb (RecvPathCb (pRecvFunc pContext) (pArg pContext)
                   (take (nat len) (recvMsg pContext)) (word_of_int len) (peer_name recvAddr)) s
            else s))"

definition ipcDgramRecvTask :: "'a application \<Rightarrow> tid \<Rightarrow> ipc_dgram_ctx \<Rightarrow> 'a world \<Rightarrow>
    (ipc_dgram_ctx \<times> 'a world) option" where
  "ipcDgramRecvTask cb t pContext s =
     map_option (\<lambda>(cancelled, pContext, recvAddr, s).
         (if cancelled then pContext else pContext\<lparr>running := 0\<rparr>, pthread_exit t s))
       (c_while (\<lambda>(pContext, recvAddr, s). running pContext \<noteq> 0) (ipcDgramRecvBody cb t)
         (pContext, new_name, s))"

section \<open>Life cycle\<close>

definition ipcDgramNewContext :: "string \<Rightarrow> fptr \<Rightarrow> addr \<Rightarrow> ipc_dgram_ctx" where
  "ipcDgramNewContext pFileName recvFunc arg =
     \<lparr>localPath = c_strncpy 255 pFileName, fd = -1, pRecvFunc = recvFunc, pArg = arg, thread = 0,
      running = 0, recvMsg = recv_buffer\<rparr>"

definition ipcDgramInit :: "string \<Rightarrow> fptr \<Rightarrow> addr \<Rightarrow> 'a world \<Rightarrow> ipc_dgram_ctx handle \<times> 'a world" where
  "ipcDgramInit pFileName recvFunc arg s =
     (let (p, s) = c_malloc s in
      if p = NULL then (None, s)
      else
        let (error, pContext, s) = ipcDgramInitSocket (ipcDgramNewContext pFileName recvFunc arg) s in
        if error \<noteq> 0 then (None, c_free p s)
        else if recvFunc = NULL then (Some (p, pContext), s)
        else
          let pContext = pContext\<lparr>running := 1\<rparr>;
              (error, t, s) = pthread_create False s;
              pContext = pContext\<lparr>thread := t\<rparr>
          in if error \<noteq> 0
             then let (pContext, s) = ipcDgramUninitSocket pContext s in (None, c_free p s)
             else (Some (p, pContext), s))"

definition ipcDgramUninit :: "ipc_dgram_ctx handle \<Rightarrow> 'a world \<Rightarrow> 'a world" where
  "ipcDgramUninit handle s = (case handle of
       None \<Rightarrow> s
     | Some (p, pContext) \<Rightarrow>
         let s = (if pRecvFunc pContext \<noteq> NULL then pthread_cancel (thread pContext) s else s);
             pContext = pContext\<lparr>running := 0\<rparr>;
             (pContext, s) = ipcDgramUninitSocket pContext s;
             s = (if pRecvFunc pContext \<noteq> NULL then pthread_join (thread pContext) s else s)
         in c_free p s)"

section \<open>Sending and receiving\<close>

definition ipcDgramSend :: "ipc_dgram_ctx handle \<Rightarrow> string \<Rightarrow> u8 list option \<Rightarrow> u16 \<Rightarrow> 'a world \<Rightarrow>
    int \<times> 'a world" where
  "ipcDgramSend handle pFileName pData dataSize s = (case handle of
       None \<Rightarrow> (-1, s)
     | Some (p, pContext) \<Rightarrow>
         if fd pContext < 0 then (-1, s)
         else (case pData of
             None \<Rightarrow> (-1, s)
           | Some bs \<Rightarrow>
               if dataSize = 0 then (-1, s)
               else
                 let (sun_path, s) = c_strcpy SUN_PATH pFileName s
                 in sys_sendto (fd pContext) (take (unat dataSize) bs) (Some (Sockaddr_un sun_path)) s))"

definition ipcDgramRecv :: "ipc_dgram_ctx handle \<Rightarrow> u8 list option \<Rightarrow> u16 \<Rightarrow> 'a world \<Rightarrow>
    int \<times> u8 list option \<times> 'a world" where
  "ipcDgramRecv handle pData dataSize s = (case handle of
       None \<Rightarrow> (-1, pData, s)
     | Some (p, pContext) \<Rightarrow>
         if fd pContext < 0 then (-1, pData, s)
         else if pRecvFunc pContext \<noteq> NULL then (-1, pData, s)
         else (case pData of
             None \<Rightarrow> (-1, pData, s)
           | Some buf \<Rightarrow>
               if dataSize = 0 then (-1, pData, s)
               else let (len, bs, src, s) = sys_recvfrom (fd pContext) (unat dataSize) s
                    in (len, Some (fill buf bs), s)))"

section \<open>Life cycle rules\<close>

definition ipc_dgram_threads :: "ipc_dgram_ctx \<Rightarrow> tid set" where
  "ipc_dgram_threads c = (if pRecvFunc c = NULL then {} else {thread c})"

lemma ipcDgramInitSocket_adds:
  assumes "ipcDgramInitSocket c t = (e, c', u)" "adds s t F P T" "length (localPath c) < SUN_PATH"
  shows "e \<noteq> 0 \<and> adds s u F P T \<and> files u = files t - {localPath c} \<or>
    e = 0 \<and> 0 \<le> fd c' \<and> fd c' \<notin> F \<and> fd c' \<notin> fds s \<and> c' = c\<lparr>fd := fd c'\<rparr> \<and>
      adds s u (insert (fd c') F) P T \<and> files u = insert (localPath c) (files t)"
proof -
  obtain n t1 where 1: "unixOpen SOCK_DGRAM (localPath c) t = (n, t1)" by fastforce
  from adds_unixOpen [OF assms(2) 1 assms(3)] assms(1) 1 show ?thesis
    by (auto simp: ipcDgramInitSocket_def split: if_splits)
qed

lemma ipcDgramInit_adds:
  assumes i: "ipcDgramInit path f a s = (h, s')" and w: "wf_world s" and z: "0 \<in> fds s"
    and l: "length path < SUN_PATH"
  shows "case h of None \<Rightarrow> adds s s' {} {} {}
    | Some (p, c) \<Rightarrow> 0 < fd c \<and> localPath c = path \<and> pRecvFunc c = f \<and> pArg c = a \<and>
        running c = (if f = NULL then 0 else 1) \<and> files s' = insert path (files s) \<and>
        adds s s' {fd c} {p} (ipc_dgram_threads c) \<and> ipc_dgram_threads c \<inter> cancels s' = {}"
proof -
  let ?new = "ipcDgramNewContext path f a"
  have lp: "localPath ?new = path" using l by (simp add: ipcDgramNewContext_def c_strncpy_def SUN_PATH_def)
  obtain p s1 where 1: "c_malloc s = (p, s1)" by fastforce
  note a1 = adds_malloc [OF adds_refl [OF w] 1]
  show ?thesis
  proof (cases "p = NULL")
    case True
    with a1 i 1 show ?thesis by (auto simp: ipcDgramInit_def)
  next
    case False
    with a1 have p: "p \<notin> heap s" "adds s s1 {} {p} {}" by simp_all
    have f1: "files s1 = files s" using c_malloc_rule [OF 1 w] by simp
    obtain e c s2 where 2: "ipcDgramInitSocket ?new s1 = (e, c, s2)" by (metis prod_cases3)
    from l lp have "length (localPath ?new) < SUN_PATH" by simp
    note a2 = ipcDgramInitSocket_adds [OF 2 p(2) this]
    show ?thesis
    proof (cases "e = 0")
      case e: False
      with a2 have "adds s s2 {} {p} {}" by simp
      from adds_free [OF this, of p] i 1 2 False e show ?thesis by (auto simp: ipcDgramInit_def)
    next
      case e: True
      with a2 have c: "0 \<le> fd c" "fd c \<notin> fds s" "c = ?new\<lparr>fd := fd c\<rparr>" "adds s s2 {fd c} {p} {}" by simp_all
      have f2: "files s2 = insert path (files s)" using a2 e f1 lp by simp
      from c z have pos: "0 < fd c" using order_le_less [of 0 "fd c"] by auto
      have fields: "pRecvFunc c = f" "pArg c = a" "localPath c = path" "running c = 0"
        by (subst c(3), use lp in \<open>simp add: ipcDgramNewContext_def\<close>)+
      show ?thesis
      proof (cases "f = NULL")
        case True
        with i 1 2 False e have "h = Some (p, c)" "s' = s2" by (simp_all add: ipcDgramInit_def)
        with c pos fields True f2 show ?thesis by (simp add: ipc_dgram_threads_def)
      next
        case f: False
        obtain e3 t s3 where 3: "pthread_create False s2 = (e3, t, s3)" by (metis prod_cases3)
        note a3 = adds_create [OF c(4) 3]
        have w2: "wf_world s2" using c(4) by (simp add: adds_def)
        note r3 = pthread_create_rule [OF 3 w2]
        let ?c = "c\<lparr>running := 1, thread := t\<rparr>"
        show ?thesis
        proof (cases "e3 = 0")
          case True
          with i 1 2 3 False e f have h: "h = Some (p, ?c)" "s' = s3" by (simp_all add: ipcDgramInit_def)
          have "t \<notin> cancels s3" using r3 True by (simp add: quiet_def)
          with h a3 r3 True pos fields f f2 show ?thesis by (simp add: ipc_dgram_threads_def)
        next
          case g: False
          from a3 g have "adds s s3 {fd c} {p} {}" by simp
          from adds_unixClose [OF this pos, of path] have "adds s (unixClose (fd c) path s3) {} {p} {}" by simp
          from adds_free [OF this, of p] i 1 2 3 False e f g fields show ?thesis
            by (simp add: ipcDgramInit_def ipcDgramUninitSocket_def)
        qed
      qed
    qed
  qed
qed

lemma ipcDgramUninit_rule:
  assumes w: "wf_world s" and p: "p \<in> heap s"
  shows "wf_world (ipcDgramUninit (Some (p, c)) s) \<and> faults (ipcDgramUninit (Some (p, c)) s) = faults s \<and>
    fds (ipcDgramUninit (Some (p, c)) s) = (if 0 < fd c then fds s - {fd c} else fds s) \<and>
    heap (ipcDgramUninit (Some (p, c)) s) = heap s - {p} \<and>
    threads (ipcDgramUninit (Some (p, c)) s) = threads s - ipc_dgram_threads c \<and>
    files (ipcDgramUninit (Some (p, c)) s) = files s - {localPath c}"
proof -
  obtain s1 where s1: "s1 = (if pRecvFunc c \<noteq> NULL then pthread_cancel (thread c) s else s)" by simp
  note w1 = cancel_if_rule [OF s1 w]
  have f1: "files s1 = files s" using pthread_cancel_rule [of "thread c" s] by (simp add: s1)
  obtain s2 where s2: "s2 = unixClose (fd c) (localPath c) s1" by simp
  note u = unixClose_rule [of s1 "fd c" "localPath c"]
  have w2: "wf_world s2" using u w1 by (simp add: s2)
  obtain s3 where s3: "s3 = (if pRecvFunc c \<noteq> NULL then pthread_join (thread c) s2 else s2)" by simp
  note w3 = join_if_rule [OF s3 w2]
  have f3: "files s3 = files s2" using pthread_join_rule [of "thread c" s2] by (simp add: s3)
  have "p \<in> heap s3" using w1 w3 u p by (simp add: s2)
  with c_free_rule [of s3 p] w3 have f: "quiet s3 (c_free p s3)" "wf_world (c_free p s3)"
    "fds (c_free p s3) = fds s3" "heap (c_free p s3) = heap s3 - {p}" "threads (c_free p s3) = threads s3"
    "files (c_free p s3) = files s3" by simp_all
  have "ipcDgramUninit (Some (p, c)) s = c_free p s3"
    by (auto simp: ipcDgramUninit_def ipcDgramUninitSocket_def Let_def s1 s2 s3)
  with f f1 f3 w1 w3 u show ?thesis by (simp add: quiet_def ipc_dgram_threads_def s2)
qed

interpretation ipc_dgram: transport "\<lambda>(path, f, a). length path < SUN_PATH" "\<lambda>(path, f, a). ipcDgramInit path f a"
  ipcDgramUninit fd ipc_dgram_threads "\<lambda>_. {}" "\<lambda>_ _. True"
proof
  fix x :: "string \<times> fptr \<times> addr" and s s' :: "'a world" and p c
  obtain path f a where x: "x = (path, f, a)" by (metis prod_cases3)
  show "adds s s' {} {} {}"
    if "(case x of (path, f, a) \<Rightarrow> ipcDgramInit path f a) s = (None, s')"
      "case x of (path, f, a) \<Rightarrow> length path < SUN_PATH" "wf_world s" "0 \<in> fds s"
    using ipcDgramInit_adds [of path f a s None s'] that by (simp add: x)
  show "0 < fd c \<and> True \<and> adds s s' {fd c} {p} (ipc_dgram_threads c)"
    if "(case x of (path, f, a) \<Rightarrow> ipcDgramInit path f a) s = (Some (p, c), s')"
      "case x of (path, f, a) \<Rightarrow> length path < SUN_PATH" "wf_world s" "0 \<in> fds s"
    using ipcDgramInit_adds [of path f a s "Some (p, c)" s'] that by (simp add: x)
  show "ipcDgramUninit None s = s" by (simp add: ipcDgramUninit_def)
qed (simp_all add: ipcDgramUninit_rule)

section \<open>The receive thread, as a machine\<close>

type_synonym ipc_dgram_key = "int \<times> fptr \<times> addr \<times> name_buf"

definition ipc_dgram_key :: "ipc_dgram_ctx \<times> name_buf \<times> 'a world \<Rightarrow> ipc_dgram_key" where
  "ipc_dgram_key st = (case st of (c, nb, s) \<Rightarrow> (fd c, pRecvFunc c, pArg c, nb))"

definition ipc_dgram_ready :: "tid \<Rightarrow> ipc_dgram_ctx \<times> name_buf \<times> 'a world \<Rightarrow> bool" where
  "ipc_dgram_ready t st = (case st of (c, nb, s) \<Rightarrow>
     running c \<noteq> 0 \<and> pRecvFunc c \<noteq> NULL \<and> fd c \<in> fds s \<and> t \<notin> cancels s)"

fun ipc_dgram_upd :: "ipc_dgram_key \<Rightarrow> reply \<Rightarrow> ipc_dgram_key" where
  "ipc_dgram_upd (n, f, a, nb) r = (n, f, a, get_name (reply_source r) nb)"

fun ipc_dgram_call :: "ipc_dgram_key \<Rightarrow> reply \<Rightarrow> callback list" where
  "ipc_dgram_call (n, f, a, nb) r =
     [RecvPathCb f a (take COMM_BUF_SIZE (reply_data r)) (word_of_nat (length (take COMM_BUF_SIZE (reply_data r))))
       (peer_name (get_name (reply_source r) nb))]"

interpretation ipc_dgram_thread: recv_machine "\<lambda>(pContext, recvAddr, s). running pContext \<noteq> 0"
  "ipcDgramRecvBody (pure_app f) t" "\<lambda>(c, nb, s). s" ipc_dgram_key "ipc_dgram_ready t" answered
  ipc_dgram_call ipc_dgram_upd f "\<lambda>k. recv_failed (fst k)" "\<lambda>k st. ipc_dgram_key st = k"
  for f t
proof
  fix st :: "ipc_dgram_ctx \<times> name_buf \<times> 'a world"
  obtain c nb s where st: "st = (c, nb, s)" by (metis prod_cases3)
  assume r: "ipc_dgram_ready t st"
  then show "case st of (pContext, recvAddr, s) \<Rightarrow> running pContext \<noteq> 0"
    by (simp add: st ipc_dgram_ready_def)
  show "\<exists>st'. ipcDgramRecvBody (pure_app f) t st = (Next, st') \<and> ipc_dgram_ready t st' \<and>
      ipc_dgram_key st' = ipc_dgram_upd (ipc_dgram_key st) r \<and>
      (case st' of (c, nb, s) \<Rightarrow> s) =
        deliver f (ipc_dgram_call (ipc_dgram_key st) r) ((case st of (c, nb, s) \<Rightarrow> s)\<lparr>script := rs\<rparr>)"
    if e: "script (case st of (c, nb, s) \<Rightarrow> s) = r # rs" and g: "answered r" for r rs
  proof -
    have "fd c \<in> fds s" "script s = r # rs" using r e by (simp_all add: st ipc_dgram_ready_def)
    from sys_recvfrom_answered [OF this g, of COMM_BUF_SIZE] r show ?thesis
      by (simp add: st ipc_dgram_ready_def ipcDgramRecvBody_def ipc_dgram_key_def pthread_testcancel_def
          Let_def invoke_deliver)
  qed
  show "\<exists>st'. ipcDgramRecvBody (pure_app f) t st = (Break, st') \<and> ipc_dgram_key st' = ipc_dgram_key st \<and>
      (case st' of (c, nb, s) \<Rightarrow> s) = recv_failed (fst (ipc_dgram_key st)) (case st of (c, nb, s) \<Rightarrow> s)"
    if e: "takeWhile answered (script (case st of (c, nb, s) \<Rightarrow> s)) = []"
  proof -
    obtain len bs src s' where u: "sys_recvfrom (fd c) COMM_BUF_SIZE s = (len, bs, src, s')"
      by (metis prod_cases4)
    have "fd c \<in> fds s" "takeWhile answered (script s) = []" using r e by (simp_all add: st ipc_dgram_ready_def)
    from sys_recvfrom_unanswered [OF u this] r u show ?thesis
      by (simp add: st ipc_dgram_ready_def ipcDgramRecvBody_def ipc_dgram_key_def pthread_testcancel_def
          recv_failed_def Let_def get_name_def)
  qed
qed

section \<open>Properties\<close>

text \<open>
  C33. UNIX domain datagram sockets with names that fit \<^verbatim>\<open>sun_path\<close>, opened one after the other
  (some may fail to open) and closed in any order, leave the process with exactly the
  descriptors, heap blocks and threads it started with, and no undefined behaviour; and a
  socket's name exists from its initialisation to its un-initialisation.
\<close>

theorem ipc_dgram_sessions_leave_nothing:
  assumes o: "open_all (\<lambda>(path, f, a). ipcDgramInit path f a) xs s = (hs, s1)" and m: "mset hs' = mset hs"
    and w: "wf_world s" "0 \<in> fds s" and l: "\<forall>(path, f, a)\<in>set xs. length path < SUN_PATH"
  shows "res (close_all ipcDgramUninit hs' s1) = res s \<and> faults (close_all ipcDgramUninit hs' s1) = faults s \<and>
    (\<forall>path f a p c s2. length path < SUN_PATH \<longrightarrow> ipcDgramInit path f a s = (Some (p, c), s2) \<longrightarrow>
       path \<in> files s2 \<and> path \<notin> files (ipcDgramUninit (Some (p, c)) s2))"
proof (intro conjI allI impI)
  have "\<forall>x\<in>set xs. case x of (path, f, a) \<Rightarrow> length path < SUN_PATH" using l by blast
  from ipc_dgram.sessions [OF o m w this]
  show "res (close_all ipcDgramUninit hs' s1) = res s" "faults (close_all ipcDgramUninit hs' s1) = faults s"
    by simp_all
  fix path f a p c s2
  assume i: "length path < SUN_PATH" "ipcDgramInit path f a s = (Some (p, c), s2)"
  from ipcDgramInit_adds [OF i(2) w i(1)] have "localPath c = path" "files s2 = insert path (files s)"
    "adds s s2 {fd c} {p} (ipc_dgram_threads c)" by simp_all
  with ipcDgramUninit_rule [of s2 p c] show "path \<in> files s2" "path \<notin> files (ipcDgramUninit (Some (p, c)) s2)"
    by (simp_all add: adds_def)
qed

theorem ipc_dgram_sessions_leave_nothing_witness:
  "\<exists>h1 h2 s1. open_all (\<lambda>(path, f, a). ipcDgramInit path f a) [(''/a'', 0, 0), (''/b'', 1, 0), (''/c'', 2, 0)]
      (boot () [Done, Val 5, Done, Done, Val 6, Fail 13, Done, Val 7, Done, Done]) = ([Some h1, None, Some h2], s1) \<and>
     res (close_all ipcDgramUninit [None, Some h2, Some h1] s1) = res (boot () [])"
proof -
  let ?s = "boot () [Done, Val 5, Done, Done, Val 6, Fail 13, Done, Val 7, Done, Done]"
  obtain h1 h2 s1 where o: "open_all (\<lambda>(path, f, a). ipcDgramInit path f a)
      [(''/a'', 0, 0), (''/b'', 1, 0), (''/c'', 2, 0)] ?s = ([Some h1, None, Some h2], s1)"
    by (simp add: ipcDgramInit_def ipcDgramInitSocket_def ipcDgramNewContext_def unixOpen_def c_strncpy_def
        c_strcpy_def SUN_PATH_def posix_eval)
  have m: "mset [None, Some h2, Some h1] = mset [Some h1, None, Some h2]" by simp
  have l: "\<forall>(path, f, a)\<in>set [(''/a'', 0, 0), (''/b'', 1, 0), (''/c'', 2, 0)]. length path < SUN_PATH"
    by (simp add: SUN_PATH_def)
  from ipc_dgram_sessions_leave_nothing [OF o m wf_boot _ l] have
    "res (close_all ipcDgramUninit [None, Some h2, Some h1] s1) = res ?s" by simp
  with o show ?thesis by (auto simp: res_def)
qed

lemma ipcDgramRecvTask_run:
  assumes "running c \<noteq> 0" "pRecvFunc c \<noteq> NULL" "fd c \<in> fds s" "t \<notin> cancels s"
  shows "\<exists>c' s'. ipcDgramRecvTask (pure_app f) t c s = Some (c', s') \<and> running c' = 0 \<and>
    calls s' = calls s @ run_calls ipc_dgram_call ipc_dgram_upd (fd c, pRecvFunc c, pArg c, new_name)
      (takeWhile answered (script s)) \<and>
    script s' = tl (dropWhile answered (script s)) \<and>
    threads s' = threads s - {t} \<and> fds s' = fds s \<and> faults s' = faults s"
proof -
  let ?st = "(c, new_name, s)" let ?rs = "takeWhile answered (script s)"
  let ?k = "(fd c, pRecvFunc c, pArg c, new_name)"
  have r: "ipc_dgram_ready t ?st" using assms by (simp add: ipc_dgram_ready_def)
  have k: "ipc_dgram_key ?st = ?k" by (simp add: ipc_dgram_key_def)
  let ?s = "deliver f (run_calls ipc_dgram_call ipc_dgram_upd ?k ?rs) (s\<lparr>script := dropWhile answered (script s)\<rparr>)"
  obtain c1 nb1 s1 where run: "c_while (\<lambda>(pContext, recvAddr, s). running pContext \<noteq> 0)
      (ipcDgramRecvBody (pure_app f) t) ?st = Some (False, c1, nb1, s1)"
    and w: "s1 = recv_failed (fst (foldl ipc_dgram_upd ?k ?rs)) ?s"
    using ipc_dgram_thread.machine_run [OF r, of f] by (auto simp: k)
  have fd: "fst (foldl ipc_dgram_upd k rs) = fst k" for k rs
    by (induction rs arbitrary: k) auto
  have n: "fd c \<in> fds ?s" and e: "takeWhile answered (script ?s) = []"
    using assms(3) by (simp_all add: takeWhile_dropWhile_nil)
  from recv_failed_rule [OF n e] run show ?thesis
    by (simp add: ipcDgramRecvTask_def pthread_exit_def w fd)
qed

text \<open>
  C34. The receive thread ends only on an error, however often the kernel delivers: until then
  it calls the receive callback once for each datagram, an empty one included, in order, with
  at most 8191 bytes and the exact byte count; it leaves \<open>running\<close> cleared and the socket open.
\<close>

theorem ipc_dgram_thread_delivers:
  assumes "running c \<noteq> 0" "pRecvFunc c \<noteq> NULL" "fd c \<in> fds s" "t \<notin> cancels s"
  shows "\<exists>c' s'. ipcDgramRecvTask (pure_app f) t c s = Some (c', s') \<and> running c' = 0 \<and>
    calls s' = calls s @ run_calls ipc_dgram_call ipc_dgram_upd (fd c, pRecvFunc c, pArg c, new_name)
      (takeWhile answered (script s)) \<and>
    script s' = tl (dropWhile answered (script s)) \<and>
    threads s' = threads s - {t} \<and> fds s' = fds s \<and> faults s' = faults s"
  by (rule ipcDgramRecvTask_run [OF assms])

definition sample_ipc_dgram :: ipc_dgram_ctx where
  "sample_ipc_dgram = \<lparr>localPath = ''/me'', fd = 5, pRecvFunc = 9, pArg = 3, thread = 4,
     running = 1, recvMsg = []\<rparr>"

theorem ipc_dgram_thread_delivers_witness:
  "\<exists>c' s'. ipcDgramRecvTask (pure_app (\<lambda>c n. n + (1::nat))) 4 sample_ipc_dgram
      ((boot 0 [Data [1, 2] (Sockaddr_un ''/p''), Data [] (Sockaddr_un ''/q''), Fail 4])\<lparr>fds := {5}\<rparr>) = Some (c', s') \<and>
    running c' = 0 \<and> fds s' = {5} \<and>
    calls s' = [RecvPathCb 9 3 [1, 2] 2 ''/p'', RecvPathCb 9 3 [] 0 ''/q'']"
  using ipc_dgram_thread_delivers [of sample_ipc_dgram "(boot 0 [Data [1, 2] (Sockaddr_un ''/p''),
      Data [] (Sockaddr_un ''/q''), Fail 4])\<lparr>fds := {5}\<rparr>" 4 "\<lambda>c n. n + (1::nat)"]
  by (auto simp: COMM_BUF_SIZE_def sample_ipc_dgram_def get_name_def new_name_def peer_name_def c_string_def
      SUN_PATH_def)

text \<open>
  The sender's name. The size of the address buffer is set once, before the loop, and every
  receive overwrites it with the size of the address it got. So the name of the first sender
  and of every later one that is no longer than the sender before it is right, but the name of
  a longer one is cut to one character more than the name before.
\<close>

theorem ipc_dgram_source_name:
  assumes "running c \<noteq> 0" "pRecvFunc c \<noteq> NULL" "fd c \<in> fds s" "t \<notin> cancels s"
    and "valid_name p" "valid_name q"
    and "script s = [Data bs (Sockaddr_un p), Data bs' (Sockaddr_un q), Fail e]"
  shows "\<exists>c' s' n n'. ipcDgramRecvTask (pure_app f) t c s = Some (c', s') \<and>
    calls s' = calls s @
      [RecvPathCb (pRecvFunc c) (pArg c) (take COMM_BUF_SIZE bs) n p,
       RecvPathCb (pRecvFunc c) (pArg c) (take COMM_BUF_SIZE bs') n'
         (if length q \<le> length p then q else take (length p + 1) q)]"
proof -
  let ?nb = "get_name (Some (Sockaddr_un p)) new_name"
  have l: "length p + 3 \<le> snd new_name" using assms(5) by (simp add: valid_name_def new_name_def)
  note 1 = get_name_fits [OF assms(5) l]
  have buf: "fst ?nb = p @ CHR 0x00 # drop (length p + 1) (replicate SUN_PATH (CHR 0x00))"
  proof -
    have "take (snd new_name - 2) (p @ [CHR 0x00]) = p @ [CHR 0x00]"
      using l by (intro take_all) (simp add: new_name_def)
    then show ?thesis using assms(5) by (simp add: get_name_def valid_name_def Let_def new_name_def)
  qed
  have "peer_name (get_name (Some (Sockaddr_un q)) ?nb) =
      (if length q \<le> length p then q else take (length p + 1) q)"
  proof (cases "length q \<le> length p")
    case True
    with get_name_fits [OF assms(6), of ?nb] 1 show ?thesis by simp
  next
    case False
    then have "peer_name (get_name (Some (Sockaddr_un q)) ?nb) =
        take (snd ?nb - 2) q @ c_string (drop (snd ?nb - 2) (fst ?nb))"
      using get_name_cut [OF assms(6), of ?nb] 1 by simp
    also have "c_string (drop (snd ?nb - 2) (fst ?nb)) = []"
      unfolding buf using 1 by (simp add: c_string_def takeWhile_eq_Nil_iff)
    finally show ?thesis using False 1 by simp
  qed
  with ipcDgramRecvTask_run [OF assms(1-4), of f] 1 assms(7) show ?thesis by auto
qed

theorem ipc_dgram_source_name_witness:
  "\<exists>c' s' n n'. ipcDgramRecvTask (pure_app (\<lambda>c n. n + (1::nat))) 4 sample_ipc_dgram
      ((boot 0 [Data [1] (Sockaddr_un ''/a''), Data [2] (Sockaddr_un ''/abc''), Fail 4])\<lparr>fds := {5}\<rparr>) = Some (c', s') \<and>
    calls s' = [RecvPathCb 9 3 [1] n ''/a'', RecvPathCb 9 3 [2] n' ''/ab'']"
proof -
  have "valid_name ''/a''" "valid_name ''/abc''" by (simp_all add: valid_name_def SUN_PATH_def)
  from ipc_dgram_source_name [OF _ _ _ _ this, of sample_ipc_dgram "(boot 0 [Data [1] (Sockaddr_un ''/a''),
      Data [2] (Sockaddr_un ''/abc''), Fail 4])\<lparr>fds := {5}\<rparr>" 4 "[1]" "[2]" 4 "\<lambda>c n. n + (1::nat)"]
  show ?thesis by (simp add: sample_ipc_dgram_def COMM_BUF_SIZE_def)
qed

text \<open>
  Sending to a name that fits \<^verbatim>\<open>sun_path\<close>: refused with -1 and no effect (null or closed
  handle, null buffer, size 0, or an error of the kernel), or one datagram to that name that is
  a prefix of the buffer, whose length is the result and at most the given size. A longer name
  overflows the address structure.
\<close>

theorem ipc_dgram_send_effect:
  assumes s: "ipcDgramSend handle pFileName pData n s = (r, s')"
  shows "if length pFileName < SUN_PATH
    then quiet s s' \<and> res s' = res s \<and>
      (r = -1 \<and> trace s' = trace s \<or>
       (\<exists>p c bs. handle = Some (p, c) \<and> 0 \<le> fd c \<and> pData = Some bs \<and> n \<noteq> 0 \<and> 0 \<le> r \<and> nat r \<le> unat n \<and>
          trace s' = trace s @ [ESend (fd c) (take (nat r) bs) (Some (Sockaddr_un pFileName))]))
    else (\<exists>p c bs. handle = Some (p, c) \<and> 0 \<le> fd c \<and> pData = Some bs \<and> n \<noteq> 0) \<longrightarrow>
      Buffer_Overflow SUN_PATH (length pFileName) \<in> set (faults s')"
proof (cases "\<exists>p c bs. handle = Some (p, c) \<and> 0 \<le> fd c \<and> pData = Some bs \<and> n \<noteq> 0")
  case False
  with s show ?thesis by (auto simp: ipcDgramSend_def not_less split: option.splits if_splits)
next
  case True
  then obtain p c bs where h: "handle = Some (p, c)" "0 \<le> fd c" "pData = Some bs" "n \<noteq> 0" by blast
  show ?thesis
  proof (cases "length pFileName < SUN_PATH")
    case l: True
    from s h l have "sys_sendto (fd c) (take (unat n) bs) (Some (Sockaddr_un pFileName)) s = (r, s')"
      by (simp add: ipcDgramSend_def c_strcpy_def)
    from sys_sendto_prefix [OF this] h l show ?thesis by auto
  next
    case l: False
    let ?s = "fault (Buffer_Overflow SUN_PATH (length pFileName)) s"
    from s h l have "sys_sendto (fd c) (take (unat n) bs) (Some (Sockaddr_un pFileName)) ?s = (r, s')"
      by (simp add: ipcDgramSend_def c_strcpy_def)
    from sys_sendto_frame [OF this] have "faults s' = faults ?s" by (simp add: quiet_def)
    then show ?thesis using l by simp
  qed
qed

theorem ipc_dgram_send_effect_witness:
  "\<exists>r s'. ipcDgramSend (Some (1, sample_ipc_dgram)) ''/you'' (Some [1, 2, 3]) 2 ((boot () [Val 1])\<lparr>fds := {5}\<rparr>) = (r, s') \<and>
    r = 1 \<and> trace s' = [ESend 5 [1] (Some (Sockaddr_un ''/you''))]"
proof -
  obtain r s' where e: "ipcDgramSend (Some (1, sample_ipc_dgram)) ''/you'' (Some [1, 2, 3]) 2
      ((boot () [Val 1])\<lparr>fds := {5}\<rparr>) = (r, s')" and r: "r = 1"
    by (simp add: ipcDgramSend_def sample_ipc_dgram_def posix_eval c_strcpy_def SUN_PATH_def)
  have "length ''/you'' < SUN_PATH" by (simp add: SUN_PATH_def)
  with ipc_dgram_send_effect [OF e] r have "trace s' = [ESend 5 [1] (Some (Sockaddr_un ''/you''))]"
    by (simp add: sample_ipc_dgram_def)
  with e r show ?thesis by blast
qed

text \<open>Receiving by hand, on every branch: never while there is a receive thread.\<close>

lemma ipcDgramRecv_rule:
  assumes "ipcDgramRecv handle pData n s = (r, out, s')" "wf_world s"
  shows "quiet s s' \<and> res s' = res s \<and> trace s' = trace s \<and>
    (r = -1 \<and> s' = s \<and> out = pData \<or>
     (\<exists>p c buf bs. handle = Some (p, c) \<and> 0 \<le> fd c \<and> pRecvFunc c = NULL \<and> pData = Some buf \<and> n \<noteq> 0 \<and>
        length bs \<le> unat n \<and> out = Some (fill buf bs) \<and> (r = int (length bs) \<or> r = -1 \<and> bs = [])))"
proof (cases "\<exists>p c buf. handle = Some (p, c) \<and> 0 \<le> fd c \<and> pRecvFunc c = NULL \<and> pData = Some buf \<and> n \<noteq> 0")
  case False
  with assms(1) show ?thesis by (auto simp: ipcDgramRecv_def not_less split: option.splits if_splits)
next
  case True
  then obtain p c buf where h: "handle = Some (p, c)" "0 \<le> fd c" "pRecvFunc c = NULL" "pData = Some buf" "n \<noteq> 0" by blast
  obtain len bs src s1 where 1: "sys_recvfrom (fd c) (unat n) s = (len, bs, src, s1)" by (metis prod_cases4)
  from assms(1) h 1 have "r = len" "out = Some (fill buf bs)" "s' = s1" by (simp_all add: ipcDgramRecv_def)
  with sys_recvfrom_rule [OF 1 assms(2)] h show ?thesis by auto
qed

end
