(* ===== verification/Raw.thy ===== *)
theory Raw
  imports Recv_Loop
begin

text \<open>
  \<^verbatim>\<open>source/comm_raw.c\<close>: Ethernet frames over a packet socket. Initialisation reads the index,
  the MTU and the hardware address of the interface; the promiscuous mode of the interface can
  be switched on and off, and un-initialisation switches it off when it was on.
\<close>

section \<open>Context and socket\<close>

record raw_ctx =
  ifName :: string
  ifIndex :: int
  ifMtu :: int
  ifHwAddr :: "u8 list"
  promisc :: int
  fd :: int
  pRecvFunc :: fptr
  pArg :: addr
  thread :: tid
  running :: int
  recvMsg :: "u8 list"

definition IFNAMSIZ :: nat where
  "IFNAMSIZ = 16"

definition ETH_ALEN :: nat where
  "ETH_ALEN = 6"

definition ETH_P_IP :: u16 where
  "ETH_P_IP = 0x0800"

definition IFF_UP :: u16 where
  "IFF_UP = 0x1"

definition IFF_PROMISC :: u16 where
  "IFF_PROMISC = 0x100"

text \<open>The three requests ask for the index, the MTU and the hardware address.\<close>

definition rawInitSocket :: "raw_ctx \<Rightarrow> 'a world \<Rightarrow> int \<times> raw_ctx \<times> 'a world" where
  "rawInitSocket pContext s =
     (let (n, s) = sys_socket AF_PACKET SOCK_RAW s in
      if n < 0 then (-1, pContext, s)
      else
        let (r, v, s) = sys_ioctl n s in
        if r < 0 then (-1, pContext, sys_close n s)
        else
          let pContext = pContext\<lparr>ifIndex := reply_int v\<rparr>;
              (r, v, s) = sys_ioctl n s in
          if r < 0 then (-1, pContext, sys_close n s)
          else
            let pContext = pContext\<lparr>ifMtu := reply_int v\<rparr>;
                (r, v, s) = sys_ioctl n s in
            if r < 0 then (-1, pContext, sys_close n s)
            else (0, pContext\<lparr>ifHwAddr := reply_bytes ETH_ALEN v, fd := n\<rparr>, s))"

definition rawUninitSocket :: "raw_ctx \<Rightarrow> 'a world \<Rightarrow> raw_ctx \<times> 'a world" where
  "rawUninitSocket pContext s =
     (if 0 < fd pContext then (pContext\<lparr>fd := -1\<rparr>, sys_close (fd pContext) s) else (pContext, s))"

section \<open>The receive thread\<close>

definition rawRecvBody :: "'a application \<Rightarrow> tid \<Rightarrow> raw_ctx \<times> 'a world \<Rightarrow> flow \<times> raw_ctx \<times> 'a world" where
  "rawRecvBody cb t st = (case st of (pContext, s) \<Rightarrow>
     if pthread_testcancel t s then (Cancel, st)
     else
       let (len, bs, src, s) = sys_recvfrom (fd pContext) COMM_BUF_SIZE s;
           pContext = pContext\<lparr>recvMsg := fill (recvMsg pContext) bs\<rparr>
       in if len < 0 then (Break, pContext, s)
          else if pthread_testcancel t s then (Cancel, pContext, s)
          else (Next, pContext,
            if pRecvFunc pContext \<noteq> NULL
            then invoke cb (RecvCb (pRecvFunc pContext) (pArg pContext)
                   (take (nat len) (recvMsg pContext)) (word_of_int len)) s
            else s))"

definition rawRecvTask :: "'a application \<Rightarrow> tid \<Rightarrow> raw_ctx \<Rightarrow> 'a world \<Rightarrow> (raw_ctx \<times> 'a world) option" where
  "rawRecvTask cb t pContext s =
     map_option (\<lambda>(cancelled, pContext, s).
         (if cancelled then pContext else pContext\<lparr>running := 0\<rparr>, pthread_exit t s))
       (c_while (\<lambda>(pContext, s). running pContext \<noteq> 0) (rawRecvBody cb t) (pContext, s))"

section \<open>Promiscuous mode\<close>

definition rawPromiscMode :: "raw_ctx handle \<Rightarrow> int \<Rightarrow> 'a world \<Rightarrow> int \<times> raw_ctx handle \<times> 'a world" where
  "rawPromiscMode handle enable s = (case handle of
       None \<Rightarrow> (-1, handle, s)
     | Some (p, pContext) \<Rightarrow>
         if fd pContext < 0 then (-1, handle, s)
         else
           let (r, v, s) = sys_ioctl (fd pContext) s in
           if r < 0 then (-1, handle, s)
           else
             let flags = word_of_int (reply_int v) :: u16;
                 flags = (if flags AND IFF_UP = 0 then flags OR IFF_UP else flags);
                 flags = (if enable \<noteq> 0 then flags OR IFF_PROMISC else flags AND NOT IFF_PROMISC);
                 (r, s) = sys_ioctl_set (fd pContext) ''SIOCSIFFLAGS'' (uint flags) s
             in if r < 0 then (-1, handle, s)
                else (0, Some (p, pContext\<lparr>promisc := enable\<rparr>), s))"

section \<open>Life cycle\<close>

text \<open>No device name means the default device.\<close>

definition rawNewContext :: "string option \<Rightarrow> fptr \<Rightarrow> addr \<Rightarrow> raw_ctx" where
  "rawNewContext pEthDev recvFunc arg =
     \<lparr>ifName = c_strncpy IFNAMSIZ (case pEthDev of None \<Rightarrow> ''eth0'' | Some d \<Rightarrow> d), ifIndex = 0, ifMtu = 0,
      ifHwAddr = replicate ETH_ALEN 0, promisc = 0, fd = -1, pRecvFunc = recvFunc, pArg = arg,
      thread = 0, running = 0, recvMsg = recv_buffer\<rparr>"

definition rawSockInit :: "string option \<Rightarrow> fptr \<Rightarrow> addr \<Rightarrow> 'a world \<Rightarrow> raw_ctx handle \<times> 'a world" where
  "rawSockInit pEthDev recvFunc arg s =
     (let (p, s) = c_malloc s in
      if p = NULL then (None, s)
      else
        let (error, pContext, s) = rawInitSocket (rawNewContext pEthDev recvFunc arg) s in
        if error \<noteq> 0 then (None, c_free p s)
        else if recvFunc = NULL then (Some (p, pContext), s)
        else
          let pContext = pContext\<lparr>running := 1\<rparr>;
              (error, t, s) = pthread_create False s;
              pContext = pContext\<lparr>thread := t\<rparr>
          in if error \<noteq> 0
             then let (pContext, s) = rawUninitSocket pContext s in (None, c_free p s)
             else (Some (p, pContext), s))"

definition rawSockUninit :: "raw_ctx handle \<Rightarrow> 'a world \<Rightarrow> 'a world" where
  "rawSockUninit handle s = (case handle of
       None \<Rightarrow> s
     | Some (p, pContext) \<Rightarrow>
         let s = (if pRecvFunc pContext \<noteq> NULL then pthread_cancel (thread pContext) s else s);
             pContext = pContext\<lparr>running := 0\<rparr>;
             s = (if promisc pContext \<noteq> 0 then snd (snd (rawPromiscMode (Some (p, pContext)) 0 s)) else s);
             (pContext, s) = rawUninitSocket pContext s;
             s = (if pRecvFunc pContext \<noteq> NULL then pthread_join (thread pContext) s else s)
         in c_free p s)"

section \<open>Sending and receiving\<close>

text \<open>
  The destination address is read from the first six bytes of the caller's buffer, whatever its
  size; a shorter buffer is read past its end.
\<close>

definition rawSockSend :: "raw_ctx handle \<Rightarrow> u8 list option \<Rightarrow> u16 \<Rightarrow> 'a world \<Rightarrow> int \<times> 'a world" where
  "rawSockSend handle pData dataSize s = (case handle of
       None \<Rightarrow> (-1, s)
     | Some (p, pContext) \<Rightarrow>
         if fd pContext < 0 then (-1, s)
         else (case pData of
             None \<Rightarrow> (-1, s)
           | Some bs \<Rightarrow>
               if dataSize = 0 then (-1, s)
               else
                 let s = (if length bs < ETH_ALEN then fault (Out_Of_Bounds (length bs) ETH_ALEN) s else s);
                     mac = take ETH_ALEN (bs @ replicate ETH_ALEN 0);
                     sockAddr = Sockaddr_ll (htons ETH_P_IP) (ifIndex pContext) (mac @ [0, 0])
                 in sys_sendto (fd pContext) (take (unat dataSize) bs) (Some sockAddr) s))"

definition rawSockRecv :: "raw_ctx handle \<Rightarrow> u8 list option \<Rightarrow> u16 \<Rightarrow> 'a world \<Rightarrow>
    int \<times> u8 list option \<times> 'a world" where
  "rawSockRecv handle pData dataSize s = (case handle of
       None \<Rightarrow> (-1, pData, s)
     | Some (p, pContext) \<Rightarrow>
         if fd pContext < 0 then (-1, pData, s)
         else if pRecvFunc pContext \<noteq> NULL then (-1, pData, s)
         else (case pData of
             None \<Rightarrow> (-1, pData, s)
           | Some buf \<Rightarrow>
               if dataSize = 0 then (-1, pData, s)
               else let (len, bs, src, s) = sys_recvfrom (fd pContext) (unat dataSize) s
                    in (len, Some (fill buf bs), s)))"

section \<open>Device information\<close>

definition rawGetMtu :: "raw_ctx handle \<Rightarrow> int" where
  "rawGetMtu handle = (case handle of
       None \<Rightarrow> 0
     | Some (p, pContext) \<Rightarrow> if fd pContext < 0 then 0 else ifMtu pContext)"

definition rawGetHwAddr :: "raw_ctx handle \<Rightarrow> u8 list option" where
  "rawGetHwAddr handle = (case handle of
       None \<Rightarrow> None
     | Some (p, pContext) \<Rightarrow> if fd pContext < 0 then None else Some (ifHwAddr pContext))"

section \<open>Life cycle rules\<close>

definition raw_threads :: "raw_ctx \<Rightarrow> tid set" where
  "raw_threads c = (if pRecvFunc c = NULL then {} else {thread c})"

lemma length_reply_bytes [simp]: "length (reply_bytes n r) = n"
  by (auto simp: reply_bytes_def min_def split: reply.split)

lemma rawInitSocket_adds:
  assumes i: "rawInitSocket c t = (e, c', u)" and a: "adds s t F P T"
  shows "e \<noteq> 0 \<and> adds s u F P T \<or>
    e = 0 \<and> 0 \<le> fd c' \<and> fd c' \<notin> F \<and> fd c' \<notin> fds s \<and> adds s u (insert (fd c') F) P T \<and>
      length (ifHwAddr c') = ETH_ALEN \<and>
      c' = c\<lparr>ifIndex := ifIndex c', ifMtu := ifMtu c', ifHwAddr := ifHwAddr c', fd := fd c'\<rparr>"
proof -
  obtain n t0 where 0: "sys_socket AF_PACKET SOCK_RAW t = (n, t0)" by fastforce
  note a0 = adds_socket [OF a 0]
  show ?thesis
  proof (cases "n < 0")
    case True
    with a0 i 0 show ?thesis by (auto simp: rawInitSocket_def)
  next
    case n: False
    with a0 have n0: "0 \<le> n" "n \<notin> F" "n \<notin> fds s" "adds s t0 (insert n F) P T" by simp_all
    have close: "adds s (sys_close n v) F P T" if "adds s v (insert n F) P T" for v
      using adds_close [OF that, of n] n0 by simp
    obtain r1 v1 t1 where 1: "sys_ioctl n t0 = (r1, v1, t1)" by (metis prod_cases3)
    obtain r2 v2 t2 where 2: "sys_ioctl n t1 = (r2, v2, t2)" by (metis prod_cases3)
    obtain r3 v3 t3 where 3: "sys_ioctl n t2 = (r3, v3, t3)" by (metis prod_cases3)
    note a1 = adds_ioctl [OF n0(4) 1]
    note a2 = adds_ioctl [OF a1 2]
    note a3 = adds_ioctl [OF a2 3]
    show ?thesis
    proof (cases "r1 < 0 \<or> r2 < 0 \<or> r3 < 0")
      case True
      with i n 0 1 2 3 close a1 a2 a3 have "e = -1 \<and> adds s u F P T"
        by (auto simp: rawInitSocket_def Let_def split: if_splits)
      then show ?thesis by simp
    next
      case False
      with i n 0 1 2 3 have "e = 0" "u = t3"
        "c' = c\<lparr>ifIndex := reply_int v1, ifMtu := reply_int v2, ifHwAddr := reply_bytes ETH_ALEN v3, fd := n\<rparr>"
        by (simp_all add: rawInitSocket_def Let_def)
      with n0 a3 show ?thesis by simp
    qed
  qed
qed

lemma rawPromiscMode_rule:
  assumes "rawPromiscMode h k s = (r, h', s')" "wf_world s"
  shows "quiet s s' \<and> wf_world s' \<and> res s' = res s \<and> files s' = files s"
proof (cases "\<exists>p c. h = Some (p, c) \<and> 0 \<le> fd c")
  case False
  with assms show ?thesis by (auto simp: rawPromiscMode_def split: option.splits if_splits)
next
  case True
  then obtain p c where h: "h = Some (p, c)" "0 \<le> fd c" by blast
  obtain q v s1 where 1: "sys_ioctl (fd c) s = (q, v, s1)" by (metis prod_cases3)
  note w1 = sys_ioctl_rule [OF 1 assms(2)]
  show ?thesis
  proof (cases "q < 0")
    case True
    with assms(1) h 1 w1 show ?thesis by (simp add: rawPromiscMode_def)
  next
    case False
    from assms(1) h 1 False obtain k2 q2 where 2: "sys_ioctl_set (fd c) ''SIOCSIFFLAGS'' k2 s1 = (q2, s')"
      by (auto simp: rawPromiscMode_def Let_def split: prod.splits if_splits)
    have "wf_world s1" using w1 by simp
    from sys_ioctl_set_rule [OF 2 this] w1 quiet_trans [of s s1 s'] show ?thesis by simp
  qed
qed

lemma rawSockInit_adds:
  assumes i: "rawSockInit d f a s = (h, s')" and w: "wf_world s" and z: "0 \<in> fds s"
  shows "case h of None \<Rightarrow> adds s s' {} {} {}
    | Some (p, c) \<Rightarrow> p \<noteq> NULL \<and> 0 < fd c \<and> pRecvFunc c = f \<and> pArg c = a \<and> promisc c = 0 \<and>
        running c = (if f = NULL then 0 else 1) \<and> length (ifHwAddr c) = ETH_ALEN \<and>
        adds s s' {fd c} {p} (raw_threads c) \<and> raw_threads c \<inter> cancels s' = {}"
proof -
  let ?new = "rawNewContext d f a"
  obtain p s1 where 1: "c_malloc s = (p, s1)" by fastforce
  note a1 = adds_malloc [OF adds_refl [OF w] 1]
  show ?thesis
  proof (cases "p = NULL")
    case True
    with a1 i 1 show ?thesis by (auto simp: rawSockInit_def)
  next
    case False
    with a1 have p: "p \<notin> heap s" "adds s s1 {} {p} {}" by simp_all
    obtain e c s2 where 2: "rawInitSocket ?new s1 = (e, c, s2)" by (metis prod_cases3)
    note a2 = rawInitSocket_adds [OF 2 p(2)]
    show ?thesis
    proof (cases "e = 0")
      case e: False
      with a2 have "adds s s2 {} {p} {}" by simp
      from adds_free [OF this, of p] i 1 2 False e show ?thesis by (auto simp: rawSockInit_def)
    next
      case e: True
      with a2 have c: "0 \<le> fd c" "fd c \<notin> fds s" "adds s s2 {fd c} {p} {}" "length (ifHwAddr c) = ETH_ALEN"
        and cc: "c = ?new\<lparr>ifIndex := ifIndex c, ifMtu := ifMtu c, ifHwAddr := ifHwAddr c, fd := fd c\<rparr>" by simp_all
      from c z have pos: "0 < fd c" using order_le_less [of 0 "fd c"] by auto
      have fields: "pRecvFunc c = f" "pArg c = a" "promisc c = 0" "running c = 0"
        by (subst cc, simp add: rawNewContext_def)+
      show ?thesis
      proof (cases "f = NULL")
        case True
        with i 1 2 False e have "h = Some (p, c)" "s' = s2" by (simp_all add: rawSockInit_def)
        with c pos fields True False show ?thesis by (simp add: raw_threads_def)
      next
        case f: False
        obtain e3 t s3 where 3: "pthread_create False s2 = (e3, t, s3)" by (metis prod_cases3)
        note a3 = adds_create [OF c(3) 3]
        have w2: "wf_world s2" using c(3) by (simp add: adds_def)
        note r3 = pthread_create_rule [OF 3 w2]
        let ?c = "c\<lparr>running := 1, thread := t\<rparr>"
        show ?thesis
        proof (cases "e3 = 0")
          case True
          with i 1 2 3 False e f have h: "h = Some (p, ?c)" "s' = s3" by (simp_all add: rawSockInit_def)
          have "t \<notin> cancels s3" using r3 True by (simp add: quiet_def)
          with h a3 r3 True pos fields f c(4) False show ?thesis by (simp add: raw_threads_def)
        next
          case g: False
          from a3 g have "adds s s3 {fd c} {p} {}" by simp
          from adds_close [OF this, of "fd c"] have "adds s (sys_close (fd c) s3) {} {p} {}" by simp
          from adds_free [OF this, of p] i 1 2 3 False e f g pos show ?thesis
            by (simp add: rawSockInit_def rawUninitSocket_def)
        qed
      qed
    qed
  qed
qed

lemma rawUninitSocket_rule:
  assumes "rawUninitSocket c s = (c', s')" "wf_world s"
  shows "quiet s s' \<and> wf_world s' \<and> heap s' = heap s \<and> threads s' = threads s \<and>
    fds s' = (if 0 < fd c then fds s - {fd c} else fds s) \<and> thread c' = thread c \<and> pRecvFunc c' = pRecvFunc c"
  using assms sys_close_rule [of s "fd c"] by (auto simp: rawUninitSocket_def split: if_splits)

lemma rawSockUninit_rule:
  assumes w: "wf_world s" and p: "p \<in> heap s"
  shows "wf_world (rawSockUninit (Some (p, c)) s) \<and> faults (rawSockUninit (Some (p, c)) s) = faults s \<and>
    fds (rawSockUninit (Some (p, c)) s) = (if 0 < fd c then fds s - {fd c} else fds s) \<and>
    heap (rawSockUninit (Some (p, c)) s) = heap s - {p} \<and>
    threads (rawSockUninit (Some (p, c)) s) = threads s - raw_threads c"
proof -
  let ?c = "c\<lparr>running := 0\<rparr>"
  obtain s1 where s1: "s1 = (if pRecvFunc c \<noteq> NULL then pthread_cancel (thread c) s else s)" by simp
  note w1 = cancel_if_rule [OF s1 w]
  obtain s2 where s2: "s2 = (if promisc c \<noteq> 0 then snd (snd (rawPromiscMode (Some (p, ?c)) 0 s1)) else s1)" by simp
  have w1': "wf_world s1" using w1 by simp
  obtain r h u where m: "rawPromiscMode (Some (p, ?c)) 0 s1 = (r, h, u)" by (metis prod_cases3)
  have w2: "quiet s1 s2" "wf_world s2" "res s2 = res s1"
    using rawPromiscMode_rule [OF m w1'] m w1' by (simp_all add: s2)
  obtain c3 s3 where 3: "rawUninitSocket ?c s2 = (c3, s3)" by fastforce
  note w3 = rawUninitSocket_rule [OF 3 w2(2)]
  obtain s4 where s4: "s4 = (if pRecvFunc c \<noteq> NULL then pthread_join (thread c) s3 else s3)" by simp
  from w3 have "wf_world s3" by simp
  note w4 = join_if_rule [OF s4 this]
  have "p \<in> heap s4" using w1 w2 w3 w4 p by (simp add: res_def)
  with c_free_rule [of s4 p] w4 have f: "quiet s4 (c_free p s4)" "wf_world (c_free p s4)"
    "fds (c_free p s4) = fds s4" "heap (c_free p s4) = heap s4 - {p}" "threads (c_free p s4) = threads s4"
    by simp_all
  have "rawSockUninit (Some (p, c)) s = c_free p s4"
  proof -
    have e: "promisc ?c = promisc c" "pRecvFunc c3 = pRecvFunc c" "thread c3 = thread c" using w3 by simp_all
    show ?thesis
      by (simp only: rawSockUninit_def option.case prod.case Let_def s1 [symmetric] e s2 [symmetric] 3
          s4 [symmetric])
  qed
  with f w1 w2 w3 w4 show ?thesis by (simp add: quiet_def raw_threads_def res_def)
qed

interpretation raw: endpoint "\<lambda>(d, f, a). rawSockInit d f a" rawSockUninit fd raw_threads
proof
  fix x :: "string option \<times> fptr \<times> addr" and s s' :: "'a world" and p c
  obtain d f a where x: "x = (d, f, a)" by (metis prod_cases3)
  show "quiet s s' \<and> wf_world s' \<and> res s' = res s"
    if "(case x of (d, f, a) \<Rightarrow> rawSockInit d f a) s = (None, s')" "wf_world s" "0 \<in> fds s"
    using rawSockInit_adds [of d f a s None s'] that by (simp add: x adds_def res_def)
  show "quiet s s' \<and> wf_world s' \<and> p \<noteq> NULL \<and> p \<notin> heap s \<and> 0 < fd c \<and> fd c \<notin> fds s \<and>
      raw_threads c \<inter> threads s = {} \<and> fds s' = insert (fd c) (fds s) \<and>
      heap s' = insert p (heap s) \<and> threads s' = raw_threads c \<union> threads s"
    if "(case x of (d, f, a) \<Rightarrow> rawSockInit d f a) s = (Some (p, c), s')" "wf_world s" "0 \<in> fds s"
    using rawSockInit_adds [of d f a s "Some (p, c)" s'] that by (simp add: x adds_def)
  show "rawSockUninit None s = s" by (simp add: rawSockUninit_def)
qed (simp_all add: rawSockUninit_rule)

section \<open>The receive thread, as a loop\<close>

definition raw_key :: "raw_ctx \<times> 'a world \<Rightarrow> int \<times> fptr \<times> addr \<times> tid" where
  "raw_key st = (case st of (c, s) \<Rightarrow> (fd c, pRecvFunc c, pArg c, thread c))"

definition raw_ready :: "tid \<Rightarrow> raw_ctx \<times> 'a world \<Rightarrow> bool" where
  "raw_ready t st = (case st of (c, s) \<Rightarrow>
     running c \<noteq> 0 \<and> pRecvFunc c \<noteq> NULL \<and> fd c \<in> fds s \<and> t \<notin> cancels s)"

fun frame_call :: "int \<times> fptr \<times> addr \<times> tid \<Rightarrow> reply \<Rightarrow> callback" where
  "frame_call (n, f, a, t) r =
     RecvCb f a (take COMM_BUF_SIZE (reply_data r)) (word_of_nat (length (take COMM_BUF_SIZE (reply_data r))))"

interpretation raw_thread: recv_loop "\<lambda>(pContext, s). running pContext \<noteq> 0"
  "rawRecvBody (pure_app f) t" snd raw_key "raw_ready t" answered "\<lambda>k r. [frame_call k r]" f
  "\<lambda>k. recv_failed (fst k)" "\<lambda>k st. raw_key st = k"
  for f t
proof
  fix st :: "raw_ctx \<times> 'a world"
  obtain c s where st: "st = (c, s)" by fastforce
  assume r: "raw_ready t st"
  then show "case st of (pContext, s) \<Rightarrow> running pContext \<noteq> 0" by (simp add: st raw_ready_def)
  show "\<exists>st'. rawRecvBody (pure_app f) t st = (Next, st') \<and> raw_ready t st' \<and> raw_key st' = raw_key st \<and>
      snd st' = deliver f [frame_call (raw_key st) r] ((snd st)\<lparr>script := rs\<rparr>)"
    if e: "script (snd st) = r # rs" and g: "answered r" for r rs
  proof -
    have "fd c \<in> fds s" "script s = r # rs" using r e by (simp_all add: st raw_ready_def)
    from sys_recvfrom_answered [OF this g, of COMM_BUF_SIZE] r show ?thesis
      by (simp add: st raw_ready_def rawRecvBody_def raw_key_def pthread_testcancel_def Let_def invoke_deliver)
  qed
  show "\<exists>st'. rawRecvBody (pure_app f) t st = (Break, st') \<and> raw_key st' = raw_key st \<and>
      snd st' = recv_failed (fst (raw_key st)) (snd st)"
    if e: "takeWhile answered (script (snd st)) = []"
  proof -
    obtain len bs src s' where u: "sys_recvfrom (fd c) COMM_BUF_SIZE s = (len, bs, src, s')"
      by (metis prod_cases4)
    have "fd c \<in> fds s" "takeWhile answered (script s) = []" using r e by (simp_all add: st raw_ready_def)
    from sys_recvfrom_unanswered [OF u this] r u show ?thesis
      by (simp add: st raw_ready_def rawRecvBody_def raw_key_def pthread_testcancel_def recv_failed_def Let_def)
  qed
qed

declare frame_call.simps [simp del]

section \<open>Properties\<close>

text \<open>
  C30. A raw socket session: initialisation, any traffic until the kernel reports an error, and
  un-initialisation give back every descriptor, block and thread, whatever the kernel answers
  (each of the three interface requests may fail). The receive thread hands every frame to the
  application in order, with its exact size, at most 8191 bytes, and ends only on an error.
\<close>

theorem raw_session:
  assumes i: "rawSockInit d rf a s = (Some (p, c), s1)" and w: "wf_world s" "0 \<in> fds s" and f: "rf \<noteq> NULL"
  shows "\<exists>c' s2. rawRecvTask (pure_app f) (thread c) c s1 = Some (c', s2) \<and> running c' = 0 \<and>
    calls s2 = calls s @ map (frame_call (fd c, rf, a, thread c)) (takeWhile answered (script s1)) \<and>
    res (rawSockUninit (Some (p, c')) s2) = res s \<and> faults (rawSockUninit (Some (p, c')) s2) = faults s"
proof -
  from rawSockInit_adds [OF i w] f have c: "p \<noteq> NULL" "0 < fd c" "pRecvFunc c = rf" "pArg c = a"
    "running c = 1" "adds s s1 {fd c} {p} {thread c}" "thread c \<notin> cancels s1"
    by (auto simp: raw_threads_def)
  let ?k = "(fd c, rf, a, thread c)"
  let ?s = "deliver f (map (frame_call ?k) (takeWhile answered (script s1)))
    (s1\<lparr>script := dropWhile answered (script s1)\<rparr>)"
  have r: "raw_ready (thread c) (c, s1)" using c f by (simp add: raw_ready_def adds_def)
  have k: "raw_key (c, s1) = ?k" using c by (simp add: raw_key_def)
  obtain c1 s2 where run: "c_while (\<lambda>(pContext, s). running pContext \<noteq> 0) (rawRecvBody (pure_app f) (thread c)) (c, s1) =
      Some (False, c1, s2)" "raw_key (c1, s2) = ?k" "s2 = recv_failed (fd c) ?s"
    using raw_thread.run [OF r, of f] by (auto simp: k concat_map_singleton)
  have "fd c \<in> fds ?s" "takeWhile answered (script ?s) = []"
    using c by (simp_all add: takeWhile_dropWhile_nil adds_def)
  note w2 = recv_failed_rule [OF this]
  let ?u = "pthread_exit (thread c) s2" and ?c = "c1\<lparr>running := 0\<rparr>"
  have wf: "wf_world s2"
  proof -
    obtain len bs src s' where u: "sys_recvfrom (fd c) COMM_BUF_SIZE ?s = (len, bs, src, s')" by (metis prod_cases4)
    have "wf_world ?s" using c by (simp add: adds_def)
    from sys_recvfrom_rule [OF u this] u run(3) show ?thesis by (simp add: recv_failed_def)
  qed
  have h: "wf_world ?u" "p \<in> heap ?u"
    using wf_exit [OF wf] w2 c by (simp_all add: run(3)) (simp_all add: pthread_exit_def adds_def)
  have "fd ?c = fd c" "pRecvFunc ?c = rf" "thread ?c = thread c" using run(2) by (simp_all add: raw_key_def)
  with rawSockUninit_rule [OF h, of ?c] w2 c f
  have "res (rawSockUninit (Some (p, ?c)) ?u) = res s \<and> faults (rawSockUninit (Some (p, ?c)) ?u) = faults s"
    by (simp add: res_def pthread_exit_def run(3) adds_def quiet_def raw_threads_def Diff_insert_absorb)
  moreover have "rawRecvTask (pure_app f) (thread c) c s1 = Some (?c, ?u)"
    using run by (simp add: rawRecvTask_def)
  moreover have "calls ?u = calls s @ map (frame_call ?k) (takeWhile answered (script s1))"
    using w2 c by (simp add: pthread_exit_def run(3) adds_def quiet_def)
  ultimately show ?thesis by (intro exI [of _ ?c] exI [of _ ?u]) simp
qed

theorem raw_session_witness:
  "\<exists>p c s1 c' s2. rawSockInit None 9 3 (boot (0::nat) [Done, Val 5, Val 2, Val 1500, Data [1, 2, 3, 4, 5, 6] (Sockaddr_in 0 0),
      Done, Data [7, 8] (Sockaddr_in 0 0), Fail 4]) = (Some (p, c), s1) \<and> ifHwAddr c = [1, 2, 3, 4, 5, 6] \<and>
    rawRecvTask (pure_app (\<lambda>c n. n + 1)) (thread c) c s1 = Some (c', s2) \<and> calls s2 = [RecvCb 9 3 [7, 8] 2] \<and>
    res (rawSockUninit (Some (p, c')) s2) = ({0, 1, 2}, {}, {0})"
proof -
  let ?s = "boot (0::nat) [Done, Val 5, Val 2, Val 1500, Data [1, 2, 3, 4, 5, 6] (Sockaddr_in 0 0),
      Done, Data [7, 8] (Sockaddr_in 0 0), Fail 4]"
  obtain p c s1 where i: "rawSockInit None 9 3 ?s = (Some (p, c), s1)" and m: "ifHwAddr c = [1, 2, 3, 4, 5, 6]"
    "script s1 = [Data [7, 8] (Sockaddr_in 0 0), Fail 4]"
    by (simp add: rawSockInit_def rawInitSocket_def rawNewContext_def ETH_ALEN_def posix_eval Let_def)
  from raw_session [OF i wf_boot, of "\<lambda>c n. n + 1"] i m show ?thesis
    by (auto simp: res_def COMM_BUF_SIZE_def frame_call.simps)
qed

lemma bit_IFF_PROMISC: "bit IFF_PROMISC i \<longleftrightarrow> i = 8"
proof -
  have e: "IFF_PROMISC = 2 ^ 8" by (simp add: IFF_PROMISC_def)
  show ?thesis unfolding e bit_exp_iff by auto
qed

text \<open>
  Switching the promiscuous mode, when the kernel accepts both requests: the flags written
  are those read, with the promiscuous bit set or cleared as asked and every other bit as
  before, except that the up bit is always set: switching the mode off also brings an interface
  up that was down. The context remembers the mode; on an error nothing is written.
\<close>

theorem raw_promisc_mode:
  assumes m: "rawPromiscMode (Some (p, c)) enable s = (r, h', s')" and n: "fd c \<in> fds s" "0 \<le> fd c"
    and k: "script s = reply # rs" "reply_int reply = uint (flags :: u16)"
  shows "(r = 0 \<and> h' = Some (p, c\<lparr>promisc := enable\<rparr>) \<and>
      (\<exists>flags' :: u16. trace s' = trace s @ [EIoctl (fd c) ''SIOCSIFFLAGS'' (uint flags')] \<and>
        (\<forall>i<16. bit flags' i = (if i = 8 then enable \<noteq> 0 else if i = 0 then True else bit flags i)))) \<or>
    (r = -1 \<and> h' = Some (p, c) \<and> trace s' = trace s)"
proof -
  obtain q v s1 where 1: "sys_ioctl (fd c) s = (q, v, s1)" by (metis prod_cases3)
  have t1: "trace s1 = trace s" "fds s1 = fds s"
    using 1 by (auto simp: sys_ioctl_def pop_def split: if_splits list.splits reply.splits)
  show ?thesis
  proof (cases "q < 0")
    case True
    with m n 1 t1 show ?thesis by (simp add: rawPromiscMode_def)
  next
    case False
    have v: "v = reply" using 1 False n k
      by (auto simp: sys_ioctl_def pop_def split: if_splits reply.splits)
    obtain a :: u16 where a: "a = (if flags AND IFF_UP = 0 then flags OR IFF_UP else flags)" by simp
    obtain b where b: "b = (if enable \<noteq> 0 then a OR IFF_PROMISC else a AND NOT IFF_PROMISC)" by simp
    obtain q2 s2 where 2: "sys_ioctl_set (fd c) ''SIOCSIFFLAGS'' (uint b) s1 = (q2, s2)" by fastforce
    have t2: "q2 = -1 \<and> trace s2 = trace s1 \<or> q2 = 0 \<and> trace s2 = trace s1 @ [EIoctl (fd c) ''SIOCSIFFLAGS'' (uint b)]"
      using 2 by (auto simp: sys_ioctl_set_def status_def pop_def split: if_splits list.splits reply.splits prod.splits)
    have w: "word_of_int (reply_int v) = flags" using k(2) v by simp
    have r: "r = q2" "s' = s2" "h' = (if q2 < 0 then Some (p, c) else Some (p, c\<lparr>promisc := enable\<rparr>))"
      using m n False t2
      by (auto simp: rawPromiscMode_def 1 w Let_def a [symmetric] b [symmetric] 2 cong: if_cong)
    have up: "bit a i = (i = 0 \<or> bit flags i)" if "i < 16" for i
    proof -
      have "flags AND IFF_UP = 0 \<longleftrightarrow> \<not> bit flags 0"
        unfolding IFF_UP_def and_one_eq bit_0 by (simp add: even_iff_mod_2_eq_zero)
      with that show ?thesis by (auto simp: a IFF_UP_def bit_simps)
    qed
    have "\<forall>i<16. bit b i = (if i = 8 then enable \<noteq> 0 else if i = 0 then True else bit flags i)"
      using up by (auto simp: b bit_simps bit_IFF_PROMISC)
    with r t1 t2 show ?thesis by auto
  qed
qed


theorem raw_promisc_mode_witness:
  "\<exists>c s' h'. c = (rawNewContext None 9 3)\<lparr>fd := 5\<rparr> \<and>
    rawPromiscMode (Some (1, c)) 1 ((boot () [Val 0x42, Done])\<lparr>fds := {5}\<rparr>) = (0, h', s') \<and>
    h' = Some (1, c\<lparr>promisc := 1\<rparr>) \<and>
    (\<exists>flags' :: u16. trace s' = [EIoctl 5 ''SIOCSIFFLAGS'' (uint flags')] \<and> bit flags' 8 \<and> bit flags' 0 \<and> bit flags' 6 \<and> \<not> bit flags' 5)"
proof -
  let ?c = "(rawNewContext None 9 3)\<lparr>fd := 5\<rparr>" and ?s = "(boot () [Val 0x42, Done])\<lparr>fds := {5}\<rparr>"
  obtain r h' s' where m: "rawPromiscMode (Some (1, ?c)) 1 ?s = (r, h', s')" by (metis prod_cases3)
  then have r: "r = 0" by (auto simp: rawPromiscMode_def posix_eval Let_def)
  have b: "bit (0x42 :: u16) 6" "\<not> bit (0x42 :: u16) 5" by (simp_all add: bit_numeral_rec)
  have "reply_int (Val 0x42) = uint (0x42 :: u16)" by (simp add: reply_int_def)
  from raw_promisc_mode [OF m _ _ _ this] r b show ?thesis
    by (intro exI [of _ ?c] exI [of _ s'] exI [of _ h']) (use m in auto)
qed

text \<open>
  Un-initialising a handle whose interface was made promiscuous writes the interface flags
  without the promiscuous bit before it closes the socket, when the kernel accepts the requests.
\<close>

theorem raw_uninit_ends_promisc:
  assumes "promisc c \<noteq> 0" "0 < fd c" "fd c \<in> fds s"
    and "script s = [Val (uint (flags :: u16)), Done]"
  shows "\<exists>flags' :: u16. \<not> bit flags' 8 \<and>
    trace (rawSockUninit (Some (p, c)) s) = trace s @
      (if pRecvFunc c = NULL then [] else [ECancel (thread c)]) @
      [EIoctl (fd c) ''SIOCSIFFLAGS'' (uint flags'), EClose (fd c)] @
      (if pRecvFunc c = NULL then [] else [EJoin (thread c)])"
proof -
  let ?flags = "(if flags AND IFF_UP = 0 then flags OR IFF_UP else flags) AND NOT IFF_PROMISC"
  have tr: "trace (c_free p u) = trace u" for u by (simp add: c_free_def)
  have "trace (rawSockUninit (Some (p, c)) s) = trace s @
      (if pRecvFunc c = NULL then [] else [ECancel (thread c)]) @
      [EIoctl (fd c) ''SIOCSIFFLAGS'' (uint ?flags), EClose (fd c)] @
      (if pRecvFunc c = NULL then [] else [EJoin (thread c)])"
    using assms
    by (simp add: rawSockUninit_def rawPromiscMode_def rawUninitSocket_def tr sys_ioctl_def sys_ioctl_set_def
        status_def pop_def sys_close_def pthread_cancel_def pthread_join_def reply_int_def Let_def)
  moreover have "\<not> bit ?flags 8"
    by (simp add: bit_and_iff bit_not_iff bit_IFF_PROMISC)
  ultimately show ?thesis by blast
qed

theorem raw_uninit_ends_promisc_witness:
  "\<exists>flags' :: u16. \<not> bit flags' 8 \<and>
    trace (rawSockUninit (Some (1, (rawNewContext None 0 3)\<lparr>fd := 5, promisc := 1\<rparr>))
      ((boot () [Val 0x1143, Done])\<lparr>fds := {5}\<rparr>)) =
      [EIoctl 5 ''SIOCSIFFLAGS'' (uint flags'), EClose 5]"
  using raw_uninit_ends_promisc [where c = "(rawNewContext None 0 3)\<lparr>fd := 5, promisc := 1\<rparr>"
      and s = "(boot () [Val 0x1143, Done])\<lparr>fds := {5}\<rparr>" and flags = "0x1143" and p = 1]
  by (simp add: rawNewContext_def)

text \<open>
  Sending a frame: refused with -1 and no effect, or one send of a prefix of the buffer
  whose length is the result, to the interface of the context, addressed with the first six
  bytes of the frame (the destination address of an Ethernet header). The code never checks
  that the frame has six bytes: a shorter buffer is read past its end.
\<close>

theorem raw_send_effect:
  assumes s: "rawSockSend handle pData n s = (r, s')"
  shows "res s' = res s \<and>
    (r = -1 \<and> trace s' = trace s \<or>
     (\<exists>p c bs. handle = Some (p, c) \<and> 0 \<le> fd c \<and> pData = Some bs \<and> n \<noteq> 0 \<and> 0 \<le> r \<and> nat r \<le> unat n \<and>
        (6 \<le> length bs \<longrightarrow> faults s' = faults s \<and>
          trace s' = trace s @ [ESend (fd c) (take (nat r) bs)
            (Some (Sockaddr_ll (htons 0x0800) (ifIndex c) (take 6 bs @ [0, 0])))]) \<and>
        (length bs < 6 \<longrightarrow> faults s' = faults s @ [Out_Of_Bounds (length bs) 6])))"
proof (cases "\<exists>p c bs. handle = Some (p, c) \<and> 0 \<le> fd c \<and> pData = Some bs \<and> n \<noteq> 0")
  case False
  with s show ?thesis by (auto simp: rawSockSend_def not_less split: option.splits if_splits)
next
  case True
  then obtain p c bs where h: "handle = Some (p, c)" "0 \<le> fd c" "pData = Some bs" "n \<noteq> 0" by blast
  let ?s = "if length bs < ETH_ALEN then fault (Out_Of_Bounds (length bs) ETH_ALEN) s else s"
  let ?a = "Some (Sockaddr_ll (htons ETH_P_IP) (ifIndex c) (take ETH_ALEN (bs @ replicate ETH_ALEN 0) @ [0, 0]))"
  from s h have "sys_sendto (fd c) (take (unat n) bs) ?a ?s = (r, s')"
    by (simp add: rawSockSend_def Let_def)
  from sys_sendto_prefix [OF this] h show ?thesis
    by (auto simp: ETH_ALEN_def ETH_P_IP_def quiet_def res_def split: if_splits)
qed

theorem raw_send_effect_witness:
  "\<exists>r s'. rawSockSend (Some (1, (rawNewContext None 0 3)\<lparr>fd := 5, ifIndex := 2\<rparr>)) (Some [1, 2, 3, 4, 5, 6, 7, 8]) 7
      ((boot () [Done])\<lparr>fds := {5}\<rparr>) = (r, s') \<and> r = 7 \<and> faults s' = [] \<and>
    trace s' = [ESend 5 [1, 2, 3, 4, 5, 6, 7] (Some (Sockaddr_ll (htons 0x0800) 2 [1, 2, 3, 4, 5, 6, 0, 0]))]"
proof -
  obtain r s' where e: "rawSockSend (Some (1, (rawNewContext None 0 3)\<lparr>fd := 5, ifIndex := 2\<rparr>))
      (Some [1, 2, 3, 4, 5, 6, 7, 8]) 7 ((boot () [Done])\<lparr>fds := {5}\<rparr>) = (r, s')" and r: "r = 7"
    by (simp add: rawSockSend_def ETH_ALEN_def posix_eval)
  from raw_send_effect [OF e] r e show ?thesis by simp
qed

end
