(* ===== verification/Fifo.thy ===== *)
theory Fifo
  imports Recv_Loop
begin

text \<open>
  \<^verbatim>\<open>source/comm_fifo.c\<close>: reading from and writing to a named pipe. The reading side owns a
  joinable thread that hands over the data and, when the pipe is closed, closes the descriptor
  and calls the application's close callback; the writing side has no thread. Either side makes
  the pipe first when it is asked to and the name does not exist, and then also removes it.
\<close>

section \<open>Context and descriptor\<close>

record fifo_ctx =
  fileName :: string
  make_fifo :: int
  fd :: int
  pGetFunc :: fptr
  pCloseFunc :: fptr
  pArg :: addr
  thread :: tid
  running :: int
  recvMsg :: "u8 list"

text \<open>The two sides open the pipe with the same code and different flags.\<close>

definition fifoOpen :: "string \<Rightarrow> fifo_ctx \<Rightarrow> 'a world \<Rightarrow> int \<times> fifo_ctx \<times> 'a world" where
  "fifoOpen flags pContext s =
     (let (r, s) = (if make_fifo pContext \<noteq> 0
           then if sys_access (fileName pContext) s = 0 then (0, s)
                else sys_mkfifo (fileName pContext) s
           else (0, s)) in
      if r < 0 then (-1, pContext, s)
      else
        let (n, s) = sys_open (fileName pContext) flags s in
        if n < 0 then (-1, pContext, s)
        else (0, pContext\<lparr>fd := n\<rparr>, s))"

definition openFifoRead where "openFifoRead = fifoOpen ''O_RDONLY''"
definition openFifoWrite where "openFifoWrite = fifoOpen ''O_WRONLY''"

definition closeFifoRead :: "fifo_ctx \<Rightarrow> 'a world \<Rightarrow> fifo_ctx \<times> 'a world" where
  "closeFifoRead pContext s =
     (let (pContext, s) = (if 0 < fd pContext
           then (pContext\<lparr>fd := -1\<rparr>, sys_close (fd pContext) s) else (pContext, s))
      in (pContext, if make_fifo pContext \<noteq> 0 then sys_unlink (fileName pContext) s else s))"

definition closeFifoWrite where "closeFifoWrite = closeFifoRead"

section \<open>The reading thread\<close>

definition fifoGetBody :: "'a application \<Rightarrow> tid \<Rightarrow> fifo_ctx \<times> 'a world \<Rightarrow> flow \<times> fifo_ctx \<times> 'a world" where
  "fifoGetBody cb t st = (case st of (pContext, s) \<Rightarrow>
     if pthread_testcancel t s then (Cancel, st)
     else
       let (len, bs, s) = sys_read (fd pContext) COMM_BUF_SIZE s;
           pContext = pContext\<lparr>recvMsg := fill (recvMsg pContext) bs\<rparr>
       in if len \<le> 0
          then
            let s = sys_close (fd pContext) s;
                pContext = pContext\<lparr>fd := -1\<rparr>;
                s = (if pCloseFunc pContext \<noteq> NULL
                     then invoke cb (ExitCb (pCloseFunc pContext) (pArg pContext) len) s
                     else s)
            in (Break, pContext, s)
          else if pthread_testcancel t s then (Cancel, pContext, s)
          else (Next, pContext,
            if pGetFunc pContext \<noteq> NULL
            then invoke cb (RecvCb (pGetFunc pContext) (pArg pContext)
                   (take (nat len) (recvMsg pContext)) (word_of_int len)) s
            else s))"

definition fifoGetTask :: "'a application \<Rightarrow> tid \<Rightarrow> fifo_ctx \<Rightarrow> 'a world \<Rightarrow> (fifo_ctx \<times> 'a world) option" where
  "fifoGetTask cb t pContext s =
     map_option (\<lambda>(cancelled, pContext, s).
         (if cancelled then pContext else pContext\<lparr>running := 0\<rparr>, pthread_exit t s))
       (c_while (\<lambda>(pContext, s). running pContext \<noteq> 0) (fifoGetBody cb t) (pContext, s))"

section \<open>Life cycle\<close>

definition fifoNewContext :: "string \<Rightarrow> int \<Rightarrow> fptr \<Rightarrow> fptr \<Rightarrow> addr \<Rightarrow> fifo_ctx" where
  "fifoNewContext pFileName mk getFunc closeFunc arg =
     \<lparr>fileName = c_strncpy 255 pFileName, make_fifo = mk, fd = -1, pGetFunc = getFunc,
      pCloseFunc = closeFunc, pArg = arg, thread = 0, running = 0, recvMsg = recv_buffer\<rparr>"

definition fifoReadInit :: "string \<Rightarrow> int \<Rightarrow> fptr \<Rightarrow> fptr \<Rightarrow> addr \<Rightarrow> 'a world \<Rightarrow> fifo_ctx handle \<times> 'a world" where
  "fifoReadInit pFileName mk getFunc closeFunc arg s =
     (let (p, s) = c_malloc s in
      if p = NULL then (None, s)
      else
        let (error, pContext, s) = openFifoRead (fifoNewContext pFileName mk getFunc closeFunc arg) s in
        if error \<noteq> 0 then (None, c_free p s)
        else
          let pContext = pContext\<lparr>running := 1\<rparr>;
              (error, t, s) = pthread_create False s;
              pContext = pContext\<lparr>thread := t\<rparr>
          in if error \<noteq> 0
             then let (pContext, s) = closeFifoRead pContext s in (None, c_free p s)
             else (Some (p, pContext), s))"

definition fifoReadUninit :: "fifo_ctx handle \<Rightarrow> 'a world \<Rightarrow> 'a world" where
  "fifoReadUninit handle s = (case handle of
       None \<Rightarrow> s
     | Some (p, pContext) \<Rightarrow>
         let s = pthread_cancel (thread pContext) s;
             pContext = pContext\<lparr>running := 0\<rparr>;
             (pContext, s) = closeFifoRead pContext s;
             s = pthread_join (thread pContext) s
         in c_free p s)"

definition fifoWriteInit :: "string \<Rightarrow> int \<Rightarrow> 'a world \<Rightarrow> fifo_ctx handle \<times> 'a world" where
  "fifoWriteInit pFileName mk s =
     (let (p, s) = c_malloc s in
      if p = NULL then (None, s)
      else
        let (error, pContext, s) = openFifoWrite (fifoNewContext pFileName mk NULL NULL NULL) s in
        if error \<noteq> 0 then (None, c_free p s) else (Some (p, pContext), s))"

definition fifoWriteUninit :: "fifo_ctx handle \<Rightarrow> 'a world \<Rightarrow> 'a world" where
  "fifoWriteUninit handle s = (case handle of
       None \<Rightarrow> s
     | Some (p, pContext) \<Rightarrow>
         let (pContext, s) = closeFifoWrite pContext s in c_free p s)"

definition fifoWritePut :: "fifo_ctx handle \<Rightarrow> u8 list option \<Rightarrow> u16 \<Rightarrow> 'a world \<Rightarrow> int \<times> 'a world" where
  "fifoWritePut handle pData dataSize s = (case handle of
       None \<Rightarrow> (-1, s)
     | Some (p, pContext) \<Rightarrow>
         if fd pContext < 0 then (-1, s)
         else (case pData of
             None \<Rightarrow> (-1, s)
           | Some bs \<Rightarrow>
               if dataSize = 0 then (-1, s)
               else sys_write (fd pContext) (take (unat dataSize) bs) s))"

section \<open>Life cycle rules\<close>

lemma fifoOpen_adds:
  assumes "fifoOpen m c t = (e, c', u)" "adds s t F P T"
  shows "e \<noteq> 0 \<and> adds s u F P T \<or>
    e = 0 \<and> 0 \<le> fd c' \<and> fd c' \<notin> F \<and> fd c' \<notin> fds s \<and> c' = c\<lparr>fd := fd c'\<rparr> \<and>
      adds s u (insert (fd c') F) P T"
proof -
  obtain r t1 where 1: "(if make_fifo c \<noteq> 0 then if sys_access (fileName c) t = 0 then (0, t)
      else sys_mkfifo (fileName c) t else (0, t)) = (r, t1)" by fastforce
  then have a1: "adds s t1 F P T" using adds_mkfifo [OF assms(2)] assms(2) by (auto split: if_splits)
  obtain n t2 where 2: "sys_open (fileName c) m t1 = (n, t2)" by fastforce
  from adds_open [OF a1 2] a1 assms(1) show ?thesis
    by (auto simp: fifoOpen_def 1 2 split: if_splits)
qed

lemma closeFifoRead_rule:
  assumes "closeFifoRead c s = (c', s')" "wf_world s"
  shows "quiet s s' \<and> wf_world s' \<and> heap s' = heap s \<and> threads s' = threads s \<and>
    fds s' = (if 0 < fd c then fds s - {fd c} else fds s) \<and> thread c' = thread c \<and>
    files s' = (if make_fifo c \<noteq> 0 then files s - {fileName c} else files s)"
  using assms sys_close_rule [of s "fd c"] sys_unlink_rule [of s "fileName c"]
    sys_unlink_rule [of "sys_close (fd c) s" "fileName c"] quiet_trans [of s "sys_close (fd c) s"]
  by (auto simp: closeFifoRead_def res_def split: if_splits)

lemma closeFifoRead_adds:
  assumes "closeFifoRead c t = (c', u)" "adds s t F P T" "0 < fd c" "fd c \<in> F"
  shows "adds s u (F - {fd c}) P T"
  using assms adds_unlink [OF adds_close [OF assms(2,4)]] adds_close [OF assms(2,4)]
  by (auto simp: closeFifoRead_def split: if_splits)

lemma fifoReadInit_adds:
  assumes i: "fifoReadInit path mk gf cf a s = (h, s')" and w: "wf_world s" and z: "0 \<in> fds s"
  shows "case h of None \<Rightarrow> adds s s' {} {} {}
    | Some (p, c) \<Rightarrow> p \<noteq> NULL \<and> 0 < fd c \<and> thread c \<notin> cancels s' \<and> adds s s' {fd c} {p} {thread c} \<and>
        c = (fifoNewContext path mk gf cf a)\<lparr>fd := fd c, running := 1, thread := thread c\<rparr>"
proof -
  let ?new = "fifoNewContext path mk gf cf a"
  obtain p s1 where 1: "c_malloc s = (p, s1)" by fastforce
  note a1 = adds_malloc [OF adds_refl [OF w] 1]
  show ?thesis
  proof (cases "p = NULL")
    case True
    with a1 i 1 show ?thesis by (auto simp: fifoReadInit_def)
  next
    case False
    with a1 have p: "p \<notin> heap s" "adds s s1 {} {p} {}" by simp_all
    obtain e c s2 where 2: "openFifoRead ?new s1 = (e, c, s2)" by (metis prod_cases3)
    note a2 = fifoOpen_adds [OF 2 [unfolded openFifoRead_def] p(2)]
    show ?thesis
    proof (cases "e = 0")
      case e: False
      with a2 have "adds s s2 {} {p} {}" by simp
      from adds_free [OF this, of p] i 1 2 False e show ?thesis by (auto simp: fifoReadInit_def)
    next
      case e: True
      with a2 have c: "0 \<le> fd c" "fd c \<notin> fds s" "c = ?new\<lparr>fd := fd c\<rparr>" "adds s s2 {fd c} {p} {}" by simp_all
      with z have pos: "0 < fd c" using order_le_less [of 0 "fd c"] by auto
      obtain e3 t s3 where 3: "pthread_create False s2 = (e3, t, s3)" by (metis prod_cases3)
      note a3 = adds_create [OF c(4) 3]
      have w2: "wf_world s2" using c(4) by (simp add: adds_def)
      note r3 = pthread_create_rule [OF 3 w2]
      let ?c = "c\<lparr>running := 1, thread := t\<rparr>"
      show ?thesis
      proof (cases "e3 = 0")
        case True
        with i 1 2 3 False e have h: "h = Some (p, ?c)" "s' = s3" by (simp_all add: fifoReadInit_def)
        have t: "t \<notin> cancels s3" using r3 True by (simp add: quiet_def)
        have "?c = ?new\<lparr>fd := fd ?c, running := 1, thread := thread ?c\<rparr>"
          using arg_cong [OF c(3), of "\<lambda>x. x\<lparr>running := 1, thread := t\<rparr>"] by simp
        moreover have "p \<noteq> NULL \<and> 0 < fd ?c \<and> thread ?c \<notin> cancels s3 \<and> adds s s3 {fd ?c} {p} {thread ?c}"
          using a3 True False pos t by simp
        ultimately show ?thesis unfolding h option.case prod.case by blast
      next
        case f: False
        obtain c4 s4 where 4: "closeFifoRead ?c s3 = (c4, s4)" by fastforce
        from a3 f have "adds s s3 {fd c} {p} {}" by simp
        from closeFifoRead_adds [OF 4 this] pos have "adds s s4 {} {p} {}" by simp
        from adds_free [OF this, of p] i 1 2 3 4 False e f show ?thesis by (simp add: fifoReadInit_def)
      qed
    qed
  qed
qed

lemma fifoReadUninit_rule:
  assumes w: "wf_world s" and p: "p \<in> heap s"
  shows "wf_world (fifoReadUninit (Some (p, c)) s) \<and> faults (fifoReadUninit (Some (p, c)) s) = faults s \<and>
    fds (fifoReadUninit (Some (p, c)) s) = (if 0 < fd c then fds s - {fd c} else fds s) \<and>
    heap (fifoReadUninit (Some (p, c)) s) = heap s - {p} \<and>
    threads (fifoReadUninit (Some (p, c)) s) = threads s - {thread c} \<and>
    files (fifoReadUninit (Some (p, c)) s) = (if make_fifo c \<noteq> 0 then files s - {fileName c} else files s)"
proof -
  obtain s1 where s1: "s1 = pthread_cancel (thread c) s" by simp
  have w1: "wf_world s1" "fds s1 = fds s" "heap s1 = heap s" "threads s1 = threads s" "files s1 = files s"
    "faults s1 = faults s" using pthread_cancel_rule [of "thread c" s] w by (simp_all add: s1 res_def)
  obtain c2 s2 where 2: "closeFifoRead (c\<lparr>running := 0\<rparr>) s1 = (c2, s2)" by fastforce
  note w2 = closeFifoRead_rule [OF 2 w1(1)]
  obtain s3 where s3: "s3 = pthread_join (thread c) s2" by simp
  have w3: "wf_world s3" "fds s3 = fds s2" "heap s3 = heap s2" "threads s3 = threads s2 - {thread c}"
    "files s3 = files s2" "faults s3 = faults s2"
    using pthread_join_rule [of "thread c" s2] w2 by (simp_all add: s3)
  have "p \<in> heap s3" using w1 w2 w3 p by simp
  with c_free_rule [of s3 p] w3 have f: "quiet s3 (c_free p s3)" "wf_world (c_free p s3)"
    "fds (c_free p s3) = fds s3" "heap (c_free p s3) = heap s3 - {p}" "threads (c_free p s3) = threads s3"
    "files (c_free p s3) = files s3" by simp_all
  have "fifoReadUninit (Some (p, c)) s = c_free p s3"
    using 2 w2 by (simp add: fifoReadUninit_def Let_def s1 s3)
  with f w1 w2 w3 show ?thesis by (simp add: quiet_def)
qed

interpretation fifo_read: endpoint "\<lambda>(path, mk, gf, cf, a). fifoReadInit path mk gf cf a" fifoReadUninit fd
  "\<lambda>c. {thread c}"
proof
  fix x :: "string \<times> int \<times> fptr \<times> fptr \<times> addr" and s s' :: "'a world" and p c
  obtain path mk gf cf a where x: "x = (path, mk, gf, cf, a)" by (metis prod_cases5)
  show "quiet s s' \<and> wf_world s' \<and> res s' = res s"
    if "(case x of (path, mk, gf, cf, a) \<Rightarrow> fifoReadInit path mk gf cf a) s = (None, s')" "wf_world s" "0 \<in> fds s"
    using fifoReadInit_adds [of path mk gf cf a s None s'] that by (simp add: x adds_def res_def)
  show "quiet s s' \<and> wf_world s' \<and> p \<noteq> NULL \<and> p \<notin> heap s \<and> 0 < fd c \<and> fd c \<notin> fds s \<and>
      {thread c} \<inter> threads s = {} \<and> fds s' = insert (fd c) (fds s) \<and>
      heap s' = insert p (heap s) \<and> threads s' = {thread c} \<union> threads s"
    if "(case x of (path, mk, gf, cf, a) \<Rightarrow> fifoReadInit path mk gf cf a) s = (Some (p, c), s')" "wf_world s" "0 \<in> fds s"
    using fifoReadInit_adds [of path mk gf cf a s "Some (p, c)" s'] that by (simp add: x adds_def)
  show "fifoReadUninit None s = s" by (simp add: fifoReadUninit_def)
qed (simp_all add: fifoReadUninit_rule)

lemma fifoWriteInit_adds:
  assumes i: "fifoWriteInit path mk s = (h, s')" and w: "wf_world s"
  shows "case h of None \<Rightarrow> adds s s' {} {} {}
    | Some (p, c) \<Rightarrow> p \<noteq> NULL \<and> 0 \<le> fd c \<and> adds s s' {fd c} {p} {} \<and>
        c = (fifoNewContext path mk NULL NULL NULL)\<lparr>fd := fd c\<rparr>"
proof -
  let ?new = "fifoNewContext path mk NULL NULL NULL"
  obtain p s1 where 1: "c_malloc s = (p, s1)" by fastforce
  note a1 = adds_malloc [OF adds_refl [OF w] 1]
  show ?thesis
  proof (cases "p = NULL")
    case True
    with a1 i 1 show ?thesis by (auto simp: fifoWriteInit_def)
  next
    case False
    with a1 have p: "p \<notin> heap s" "adds s s1 {} {p} {}" by simp_all
    obtain e c s2 where 2: "openFifoWrite ?new s1 = (e, c, s2)" by (metis prod_cases3)
    note a2 = fifoOpen_adds [OF 2 [unfolded openFifoWrite_def] p(2)]
    show ?thesis
    proof (cases "e = 0")
      case True
      with a2 i 1 2 False show ?thesis by (auto simp: fifoWriteInit_def)
    next
      case e: False
      with a2 have "adds s s2 {} {p} {}" by simp
      from adds_free [OF this, of p] i 1 2 False e show ?thesis by (auto simp: fifoWriteInit_def)
    qed
  qed
qed

lemma fifoWriteUninit_rule:
  assumes w: "wf_world s" and p: "p \<in> heap s"
  shows "wf_world (fifoWriteUninit (Some (p, c)) s) \<and> faults (fifoWriteUninit (Some (p, c)) s) = faults s \<and>
    fds (fifoWriteUninit (Some (p, c)) s) = (if 0 < fd c then fds s - {fd c} else fds s) \<and>
    heap (fifoWriteUninit (Some (p, c)) s) = heap s - {p} \<and>
    threads (fifoWriteUninit (Some (p, c)) s) = threads s"
proof -
  obtain c2 s2 where 2: "closeFifoRead c s = (c2, s2)" by fastforce
  note w2 = closeFifoRead_rule [OF 2 w]
  have "p \<in> heap s2" using w2 p by simp
  with c_free_rule [of s2 p] w2 2 show ?thesis
    by (simp add: fifoWriteUninit_def closeFifoWrite_def quiet_def)
qed

interpretation fifo_write: endpoint "\<lambda>(path, mk). fifoWriteInit path mk" fifoWriteUninit fd "\<lambda>c. {}"
proof
  fix x :: "string \<times> int" and s s' :: "'a world" and p c
  obtain path mk where x: "x = (path, mk)" by fastforce
  show "quiet s s' \<and> wf_world s' \<and> res s' = res s"
    if "(case x of (path, mk) \<Rightarrow> fifoWriteInit path mk) s = (None, s')" "wf_world s" "0 \<in> fds s"
    using fifoWriteInit_adds [of path mk s None s'] that by (simp add: x adds_def res_def)
  show "quiet s s' \<and> wf_world s' \<and> p \<noteq> NULL \<and> p \<notin> heap s \<and> 0 < fd c \<and> fd c \<notin> fds s \<and>
      {} \<inter> threads s = {} \<and> fds s' = insert (fd c) (fds s) \<and>
      heap s' = insert p (heap s) \<and> threads s' = {} \<union> threads s"
    if "(case x of (path, mk) \<Rightarrow> fifoWriteInit path mk) s = (Some (p, c), s')" "wf_world s" "0 \<in> fds s"
    using fifoWriteInit_adds [of path mk s "Some (p, c)" s'] that order_le_less [of 0 "fd c"]
    by (auto simp: x adds_def)
  show "fifoWriteUninit None s = s" by (simp add: fifoWriteUninit_def)
qed (simp_all add: fifoWriteUninit_rule)

section \<open>The reading thread, as a loop\<close>

definition fifo_key :: "fifo_ctx \<times> 'a world \<Rightarrow> client_key" where
  "fifo_key st = (case st of (c, s) \<Rightarrow> (fd c, pGetFunc c, pCloseFunc c, pArg c))"

definition fifo_rest :: "fifo_ctx \<Rightarrow> string \<times> int \<times> tid" where
  "fifo_rest c = (fileName c, make_fifo c, thread c)"

definition fifo_ready :: "tid \<Rightarrow> string \<times> int \<times> tid \<Rightarrow> fifo_ctx \<times> 'a world \<Rightarrow> bool" where
  "fifo_ready t k st = (case st of (c, s) \<Rightarrow>
     running c \<noteq> 0 \<and> fd c \<in> fds s \<and> t \<notin> cancels s \<and> fifo_rest c = k)"

interpretation fifo_thread: recv_loop "\<lambda>(pContext, s). running pContext \<noteq> 0"
  "fifoGetBody (pure_app f) t" snd fifo_key "fifo_ready t k" payload recv_calls f "hang_up f"
  "\<lambda>q st. fifo_key st = (-1, snd q) \<and> fifo_rest (fst st) = k" for f t k
proof
  fix st :: "fifo_ctx \<times> 'a world"
  obtain c s where st: "st = (c, s)" by fastforce
  assume r: "fifo_ready t k st"
  then show "case st of (pContext, s) \<Rightarrow> running pContext \<noteq> 0" by (simp add: st fifo_ready_def)
  show "\<exists>st'. fifoGetBody (pure_app f) t st = (Next, st') \<and> fifo_ready t k st' \<and> fifo_key st' = fifo_key st \<and>
      snd st' = deliver f (recv_calls (fifo_key st) r) ((snd st)\<lparr>script := rs\<rparr>)"
    if e: "script (snd st) = r # rs" and g: "payload r" for r rs
  proof -
    obtain bs src where d: "r = Data bs src" "bs \<noteq> []" using g by (cases r) auto
    then have "take COMM_BUF_SIZE bs \<noteq> []" by (simp add: COMM_BUF_SIZE_def)
    then show ?thesis
      using r e d by (auto simp: st fifo_ready_def fifo_key_def fifo_rest_def fifoGetBody_def sys_read_def
          pthread_testcancel_def sys_recv_def sys_recvfrom_def pop_def Let_def invoke_deliver)
  qed
  show "\<exists>st'. fifoGetBody (pure_app f) t st = (Break, st') \<and>
      (fifo_key st' = (-1, snd (fifo_key st)) \<and> fifo_rest (fst st') = k) \<and> snd st' = hang_up f (fifo_key st) (snd st)"
    if e: "takeWhile payload (script (snd st)) = []"
  proof -
    obtain len bs s' where u: "sys_recv (fd c) COMM_BUF_SIZE s = (len, bs, s')" by (metis prod_cases3)
    have "len \<le> 0" using sys_recv_stop [OF u] r e stop_code_le [OF e] by (auto simp: st fifo_ready_def)
    with u r show ?thesis
      by (auto simp: st fifo_ready_def fifo_key_def fifo_rest_def fifoGetBody_def sys_read_def
          pthread_testcancel_def hang_up_def Let_def invoke_deliver)
  qed
qed

section \<open>Properties\<close>

text \<open>
  A reading session: from its initialisation until the writers close the pipe and the
  application un-initialises the handle, the thread hands over all data in order with exact
  sizes, then calls the close callback exactly once, last, with 0 at the end of the data and -1
  on an error; afterwards every descriptor, block and thread is given back, and the name is gone
  if the session was asked to make the pipe (even when it found the pipe there).
\<close>

theorem fifo_read_session:
  assumes i: "fifoReadInit path mk gf cf a s = (Some (p, c), s1)" and w: "wf_world s" "0 \<in> fds s"
  shows "\<exists>c' s2. fifoGetTask (pure_app f) (thread c) c s1 = Some (c', s2) \<and>
    calls s2 = calls s @ conversation_calls (fd c, gf, cf, a) (script s1) \<and>
    res (fifoReadUninit (Some (p, c')) s2) = res s \<and> faults (fifoReadUninit (Some (p, c')) s2) = faults s \<and>
    (mk \<noteq> 0 \<longrightarrow> take 255 path \<notin> files (fifoReadUninit (Some (p, c')) s2))"
proof -
  let ?k = "(fd c, gf, cf, a)"
  from fifoReadInit_adds [OF i w] have c: "p \<noteq> NULL" "0 < fd c" "thread c \<notin> cancels s1"
    "adds s s1 {fst ?k} {p} {thread c}"
    and cc: "c = (fifoNewContext path mk gf cf a)\<lparr>fd := fd c, running := 1, thread := thread c\<rparr>"
    by simp_all
  have fields: "pGetFunc c = gf" "pCloseFunc c = cf" "pArg c = a" "running c = 1" "make_fifo c = mk"
    "fileName c = take 255 path" by (subst cc, simp add: fifoNewContext_def c_strncpy_def)+
  have r: "fifo_ready (thread c) (fifo_rest c) (c, s1)" using c fields by (simp add: fifo_ready_def adds_def)
  have k: "fifo_key (c, s1) = ?k" using fields by (simp add: fifo_key_def)
  obtain c1 s2 where run: "c_while (\<lambda>(pContext, s). running pContext \<noteq> 0) (fifoGetBody (pure_app f) (thread c)) (c, s1) =
      Some (False, c1, s2)" "fifo_key (c1, s2) = (-1, snd ?k)" "fifo_rest c1 = fifo_rest c" "s2 = conversation f ?k s1"
    using fifo_thread.run [OF r, of f] by (auto simp: k conversation_def)
  let ?c = "c1\<lparr>running := 0\<rparr>" and ?u = "pthread_exit (thread c) s2"
  have u: "wf_world ?u \<and> res ?u = (fds s, {p} \<union> heap s, threads s) \<and> faults ?u = faults s \<and>
      calls ?u = calls s @ conversation_calls ?k (script s1)"
    unfolding run(4) using adds_conversation [OF c(4)] c(2) by simp
  then have p: "wf_world ?u" "p \<in> heap ?u" by (simp_all add: res_def)
  have c1: "fd ?c = -1" "make_fifo ?c = mk" "fileName ?c = take 255 path" "thread ?c = thread c"
    using run(2,3) fields by (simp_all add: fifo_key_def fifo_rest_def)
  have "p \<notin> heap s" "thread c \<notin> threads s" using c by (simp_all add: adds_def)
  with fifoReadUninit_rule [OF p, of ?c] u c1
  have "res (fifoReadUninit (Some (p, ?c)) ?u) = res s" "faults (fifoReadUninit (Some (p, ?c)) ?u) = faults s"
    "mk \<noteq> 0 \<longrightarrow> take 255 path \<notin> files (fifoReadUninit (Some (p, ?c)) ?u)"
    by (simp_all add: res_def Diff_insert_absorb)
  moreover have "fifoGetTask (pure_app f) (thread c) c s1 = Some (?c, ?u)"
    using run by (simp add: fifoGetTask_def)
  ultimately show ?thesis using u by blast
qed

theorem fifo_read_session_witness:
  "\<exists>p c s1 c' s2. fifoReadInit ''/f'' 1 9 8 3 (boot (0::nat) [Done, Done, Val 5, Done,
      Data [1, 2] (Sockaddr_in 0 0), Done]) = (Some (p, c), s1) \<and> ''/f'' \<in> files s1 \<and>
    fifoGetTask (pure_app (\<lambda>c n. n + 1)) (thread c) c s1 = Some (c', s2) \<and>
    calls s2 = [RecvCb 9 3 [1, 2] 2, ExitCb 8 3 0] \<and>
    res (fifoReadUninit (Some (p, c')) s2) = ({0, 1, 2}, {}, {0}) \<and> ''/f'' \<notin> files (fifoReadUninit (Some (p, c')) s2)"
proof -
  let ?s = "boot (0::nat) [Done, Done, Val 5, Done, Data [1, 2] (Sockaddr_in 0 0), Done]"
  obtain p c s1 where i: "fifoReadInit ''/f'' 1 9 8 3 ?s = (Some (p, c), s1)" and m: "''/f'' \<in> files s1"
    "script s1 = [Data [1, 2] (Sockaddr_in 0 0), Done]"
    by (simp add: fifoReadInit_def openFifoRead_def fifoOpen_def fifoNewContext_def c_strncpy_def posix_eval)
  from fifo_read_session [OF i wf_boot, of "\<lambda>c n. n + 1"] i m show ?thesis
    by (auto simp: res_def COMM_BUF_SIZE_def conversation_calls_def)
qed

text \<open>
  An initialisation that makes the pipe but then cannot open it fails, gives back its memory,
  and leaves the new pipe behind in the file system.
\<close>

theorem fifo_failed_open_leaves_name:
  assumes "mk \<noteq> 0" "take 255 path \<notin> files s" "wf_world s" "script s = [Done, Done, Fail e]"
  shows "\<exists>s' s''. fifoReadInit path mk gf cf a s = (None, s') \<and> fifoWriteInit path mk s = (None, s'') \<and>
    res s' = res s \<and> res s'' = res s \<and> files s' = insert (take 255 path) (files s) \<and> files s'' = files s'"
proof -
  have "brk s \<notin> heap s" using assms(3) by (auto simp: wf_world_def)
  moreover have "brk s \<noteq> 0" using assms(3) by (simp add: wf_world_def)
  ultimately show ?thesis using assms
    by (simp add: fifoReadInit_def fifoWriteInit_def openFifoRead_def openFifoWrite_def fifoOpen_def
        fifoNewContext_def c_strncpy_def posix_eval res_def)
qed

theorem fifo_failed_open_leaves_name_witness:
  "\<exists>s'. fifoReadInit ''/f'' 1 9 8 3 (boot () [Done, Done, Fail 13]) = (None, s') \<and> files s' = {''/f''}"
  using fifo_failed_open_leaves_name [of 1 "''/f''" "boot () [Done, Done, Fail 13]" 13 9 8 3] by auto

text \<open>
  Writing: refused with -1 and no effect, or one write of a prefix of the buffer whose length
  is the result, at most the given size.
\<close>

theorem fifo_write_effect:
  assumes "fifoWritePut handle pData n s = (r, s')"
  shows "quiet s s' \<and> res s' = res s \<and>
    (r = -1 \<and> trace s' = trace s \<or>
     (\<exists>p c bs. handle = Some (p, c) \<and> 0 \<le> fd c \<and> pData = Some bs \<and> n \<noteq> 0 \<and> 0 \<le> r \<and>
        nat r \<le> unat n \<and> trace s' = trace s @ [ESend (fd c) (take (nat r) bs) None]))"
proof (cases "\<exists>p c bs. handle = Some (p, c) \<and> 0 \<le> fd c \<and> pData = Some bs \<and> n \<noteq> 0")
  case False
  with assms show ?thesis by (auto simp: fifoWritePut_def not_less split: option.splits if_splits)
next
  case True
  then obtain p c bs where h: "handle = Some (p, c)" "0 \<le> fd c" "pData = Some bs" "n \<noteq> 0" by blast
  from assms h have "sys_sendto (fd c) (take (unat n) bs) None s = (r, s')"
    by (simp add: fifoWritePut_def sys_write_def sys_send_def)
  from sys_sendto_prefix [OF this] h show ?thesis by auto
qed

text \<open>Writing handles, opened and closed in any number and order, leave nothing behind.\<close>

lemma fifo_write_sessions:
  assumes "open_all (\<lambda>(path, mk). fifoWriteInit path mk) xs s = (hs, s1)" "mset hs' = mset hs"
    "wf_world s" "0 \<in> fds s"
  shows "res (close_all fifoWriteUninit hs' s1) = res s"
  using fifo_write.sessions [OF assms] by simp

theorem fifo_write_effect_witness:
  "\<exists>r s'. fifoWritePut (Some (1, (fifoNewContext ''/f'' 0 0 0 0)\<lparr>fd := 5\<rparr>)) (Some [1, 2, 3]) 2
      ((boot () [Val 1])\<lparr>fds := {5}\<rparr>) = (r, s') \<and> r = 1 \<and> trace s' = [ESend 5 [1] None]"
proof -
  obtain r s' where e: "fifoWritePut (Some (1, (fifoNewContext ''/f'' 0 0 0 0)\<lparr>fd := 5\<rparr>)) (Some [1, 2, 3]) 2
      ((boot () [Val 1])\<lparr>fds := {5}\<rparr>) = (r, s')" and r: "r = 1"
    by (simp add: fifoWritePut_def posix_eval)
  from fifo_write_effect [OF e] r have "trace s' = [ESend 5 [1] None]" by auto
  with e r show ?thesis by blast
qed

end
