(* ===== verification/Netlink.thy ===== *)
theory Netlink
  imports Recv_Loop
begin

text \<open>
  \<^verbatim>\<open>source/comm_netlink.c\<close>: messages to and from the kernel over a netlink socket. A context
  owns the socket, a joinable receive thread and two further heap blocks, one message to send
  and one to receive into; both are the 16 bytes of a \<^verbatim>\<open>struct nlmsghdr\<close> followed by the
  payload.
\<close>

section \<open>Messages\<close>

record nlmsghdr =
  nlmsg_len :: u32
  nlmsg_type :: u16
  nlmsg_flags :: u16
  nlmsg_seq :: u32
  nlmsg_pid :: u32

definition NLMSG_HDRLEN :: nat where
  "NLMSG_HDRLEN = 16"

definition NLMSG_SPACE :: "nat \<Rightarrow> nat" where
  "NLMSG_SPACE n = (NLMSG_HDRLEN + n + 3) div 4 * 4"

text \<open>The layout of the header in memory, on a little-endian host.\<close>

definition le16 :: "u16 \<Rightarrow> u8 list" where
  "le16 w = [ucast w, ucast (drop_bit 8 w)]"

definition le32 :: "u32 \<Rightarrow> u8 list" where
  "le32 w = [ucast w, ucast (drop_bit 8 w), ucast (drop_bit 16 w), ucast (drop_bit 24 w)]"

definition from_le16 :: "u8 list \<Rightarrow> u16" where
  "from_le16 bs = ucast (bs ! 0) OR push_bit 8 (ucast (bs ! 1))"

definition from_le32 :: "u8 list \<Rightarrow> u32" where
  "from_le32 bs = ucast (bs ! 0) OR push_bit 8 (ucast (bs ! 1)) OR push_bit 16 (ucast (bs ! 2)) OR
     push_bit 24 (ucast (bs ! 3))"

definition header_bytes :: "nlmsghdr \<Rightarrow> u8 list" where
  "header_bytes h = le32 (nlmsg_len h) @ le16 (nlmsg_type h) @ le16 (nlmsg_flags h) @
     le32 (nlmsg_seq h) @ le32 (nlmsg_pid h)"

definition header_of :: "u8 list \<Rightarrow> nlmsghdr" where
  "header_of buf = \<lparr>nlmsg_len = from_le32 buf, nlmsg_type = from_le16 (drop 4 buf),
     nlmsg_flags = from_le16 (drop 6 buf), nlmsg_seq = from_le32 (drop 8 buf),
     nlmsg_pid = from_le32 (drop 12 buf)\<rparr>"

section \<open>Context and socket\<close>

text \<open>
  \<open>sendBuf\<close> and \<open>recvBuf\<close> are the contents of the blocks \<open>pSendNlHdr\<close> and \<open>pRecvNlHdr\<close>;
  \<open>sendIov_len\<close> and \<open>recvIov_len\<close> the lengths in the I/O vectors over them. Both message
  headers keep, in \<^verbatim>\<open>msg_name\<close>, the address of a local variable of \<^verbatim>\<open>_netlinkInit\<close>, which is dead
  once that function has returned.
\<close>

record netlink_ctx =
  localAddr :: sockaddr
  fd :: int
  pRecvFunc :: fptr
  pExitFunc :: fptr
  pArg :: addr
  thread :: tid
  running :: int
  pSendNlHdr :: addr
  pRecvNlHdr :: addr
  sendBuf :: "u8 list"
  recvBuf :: "u8 list"
  sendIov_len :: nat
  recvIov_len :: nat

text \<open>\<open>pid\<close> is the process identifier, \<open>junk\<close> what a fresh block happens to hold.\<close>

definition netlinkInitSocket :: "u32 \<Rightarrow> (nat \<Rightarrow> u8) \<Rightarrow> netlink_ctx \<Rightarrow> 'a world \<Rightarrow> int \<times> netlink_ctx \<times> 'a world" where
  "netlinkInitSocket pid junk pContext s =
     (let (n, s) = sys_socket AF_NETLINK SOCK_RAW s in
      if n < 0 then (-1, pContext, s)
      else
        let (r, s) = sys_bind n (localAddr pContext) s in
        if r < 0 then (-1, pContext, sys_close n s)
        else
          let (ps, s) = c_malloc s in
          if ps = NULL then (-1, pContext, sys_close n s)
          else
            let space = NLMSG_SPACE COMM_BUF_SIZE;
                rest = map junk [0..<NLMSG_SPACE (COMM_BUF_SIZE + 1) - NLMSG_HDRLEN];
                sendHdr = \<lparr>nlmsg_len = word_of_nat space, nlmsg_type = 0, nlmsg_flags = 0, nlmsg_seq = 0,
                  nlmsg_pid = pid\<rparr>;
                pContext = pContext\<lparr>sendBuf := header_bytes sendHdr @ rest[0 := 0], sendIov_len := space\<rparr>;
                (pr, s) = c_malloc s in
            if pr = NULL then (-1, pContext, sys_close n (c_free ps s))
            else
              let recvHdr = sendHdr\<lparr>nlmsg_pid := 0\<rparr>
              in (0, pContext\<lparr>recvBuf := header_bytes recvHdr @ rest, recvIov_len := space,
                    pSendNlHdr := ps, pRecvNlHdr := pr, fd := n\<rparr>, s))"

definition netlinkUninitSocket :: "netlink_ctx \<Rightarrow> 'a world \<Rightarrow> netlink_ctx \<times> 'a world" where
  "netlinkUninitSocket pContext s =
     (let (pContext, s) = (if 0 < fd pContext
            then (pContext\<lparr>fd := -1\<rparr>, sys_close (fd pContext) s) else (pContext, s));
          (pContext, s) = (if pSendNlHdr pContext \<noteq> NULL
            then (pContext\<lparr>pSendNlHdr := NULL\<rparr>, c_free (pSendNlHdr pContext) s) else (pContext, s))
      in (if pRecvNlHdr pContext \<noteq> NULL
          then (pContext\<lparr>pRecvNlHdr := NULL\<rparr>, c_free (pRecvNlHdr pContext) s) else (pContext, s)))"

section \<open>The receive thread\<close>

text \<open>A received source address is stored through \<^verbatim>\<open>msg_name\<close>.\<close>

definition sys_recvmsg :: "int \<Rightarrow> nat \<Rightarrow> 'a world \<Rightarrow> int \<times> u8 list \<times> 'a world" where
  "sys_recvmsg n len s =
     (let (r, bs, src, s) = sys_recvfrom n len s
      in (r, bs, if src \<noteq> None then fault Dead_Stack s else s))"

definition netlinkRecvBody :: "'a application \<Rightarrow> tid \<Rightarrow> netlink_ctx \<times> 'a world \<Rightarrow> flow \<times> netlink_ctx \<times> 'a world" where
  "netlinkRecvBody cb t st = (case st of (pContext, s) \<Rightarrow>
     if pthread_testcancel t s then (Cancel, st)
     else
       let (len, bs, s) = sys_recvmsg (fd pContext) (recvIov_len pContext) s;
           pContext = pContext\<lparr>recvBuf := fill (recvBuf pContext) bs\<rparr>
       in if len \<le> 0
          then
            let s = sys_close (fd pContext) s;
                pContext = pContext\<lparr>fd := -1\<rparr>;
                s = (if pExitFunc pContext \<noteq> NULL
                     then invoke cb (ExitCb (pExitFunc pContext) (pArg pContext) len) s
                     else s)
            in (Break, pContext, s)
          else if pthread_testcancel t s then (Cancel, pContext, s)
          else
            let hdr = header_of (recvBuf pContext);
                n = ucast (nlmsg_len hdr) :: u16
            in (Next, pContext,
              if pRecvFunc pContext \<noteq> NULL
              then invoke cb (RecvFlagsCb (pRecvFunc pContext) (pArg pContext)
                     (take (unat n) (drop NLMSG_HDRLEN (recvBuf pContext))) n (nlmsg_flags hdr)) s
              else s))"

definition netlinkRecvTask :: "'a application \<Rightarrow> tid \<Rightarrow> netlink_ctx \<Rightarrow> 'a world \<Rightarrow> (netlink_ctx \<times> 'a world) option" where
  "netlinkRecvTask cb t pContext s =
     map_option (\<lambda>(cancelled, pContext, s).
         (if cancelled then pContext else pContext\<lparr>running := 0\<rparr>, pthread_exit t s))
       (c_while (\<lambda>(pContext, s). running pContext \<noteq> 0) (netlinkRecvBody cb t) (pContext, s))"

section \<open>Life cycle\<close>

definition netlinkNewContext :: "u32 \<Rightarrow> fptr \<Rightarrow> fptr \<Rightarrow> addr \<Rightarrow> netlink_ctx" where
  "netlinkNewContext pid recvFunc exitFunc arg =
     \<lparr>localAddr = Sockaddr_nl pid 0, fd = -1, pRecvFunc = recvFunc, pExitFunc = exitFunc, pArg = arg,
      thread = 0, running = 0, pSendNlHdr = NULL, pRecvNlHdr = NULL, sendBuf = [], recvBuf = [],
      sendIov_len = 0, recvIov_len = 0\<rparr>"

definition netlinkInit :: "u32 \<Rightarrow> (nat \<Rightarrow> u8) \<Rightarrow> fptr \<Rightarrow> fptr \<Rightarrow> addr \<Rightarrow> 'a world \<Rightarrow>
    netlink_ctx handle \<times> 'a world" where
  "netlinkInit pid junk recvFunc exitFunc arg s =
     (let (p, s) = c_malloc s in
      if p = NULL then (None, s)
      else
        let (error, pContext, s) = netlinkInitSocket pid junk (netlinkNewContext pid recvFunc exitFunc arg) s in
        if error \<noteq> 0 then (None, c_free p s)
        else
          let pContext = pContext\<lparr>running := 1\<rparr>;
              (error, t, s) = pthread_create False s;
              pContext = pContext\<lparr>thread := t\<rparr>
          in if error \<noteq> 0
             then let (pContext, s) = netlinkUninitSocket pContext s in (None, c_free p s)
             else (Some (p, pContext), s))"

definition netlinkUninit :: "netlink_ctx handle \<Rightarrow> 'a world \<Rightarrow> 'a world" where
  "netlinkUninit handle s = (case handle of
       None \<Rightarrow> s
     | Some (p, pContext) \<Rightarrow>
         let s = pthread_cancel (thread pContext) s;
             pContext = pContext\<lparr>running := 0\<rparr>;
             (pContext, s) = netlinkUninitSocket pContext s;
             s = pthread_join (thread pContext) s
         in c_free p s)"

section \<open>Sending\<close>

text \<open>
  The data is copied behind the header without a check that it fits. The message goes to the
  address \<^verbatim>\<open>msg_name\<close> points to; \<open>stack\<close> is what that dead memory holds by then.
\<close>

definition netlinkSendToKernel :: "sockaddr \<Rightarrow> netlink_ctx handle \<Rightarrow> u8 list option \<Rightarrow> u16 \<Rightarrow> u16 \<Rightarrow> u16 \<Rightarrow> u32 \<Rightarrow>
    'a world \<Rightarrow> int \<times> netlink_ctx handle \<times> 'a world" where
  "netlinkSendToKernel stack handle pData dataSize ty flags seqNum s = (case handle of
       None \<Rightarrow> (-1, handle, s)
     | Some (p, pContext) \<Rightarrow>
         if fd pContext < 0 then (-1, handle, s)
         else (case pData of
             None \<Rightarrow> (-1, handle, s)
           | Some bs \<Rightarrow>
               if dataSize = 0 then (-1, handle, s)
               else
                 let buf = sendBuf pContext;
                     room = length buf - NLMSG_HDRLEN;
                     hdr = (header_of buf)\<lparr>nlmsg_type := ty, nlmsg_flags := flags, nlmsg_seq := seqNum,
                       nlmsg_len := ucast dataSize\<rparr>;
                     s = (if unat dataSize \<le> room then s
                          else fault (Buffer_Overflow room (unat dataSize)) s);
                     payload = fill (drop NLMSG_HDRLEN buf) (take (min room (unat dataSize)) bs);
                     pContext = pContext\<lparr>sendBuf := header_bytes hdr @ payload\<rparr>;
                     (error, s) = sys_sendto (fd pContext) (take (sendIov_len pContext) (sendBuf pContext))
                       (Some stack) (fault Dead_Stack s)
                 in (error, Some (p, pContext), s)))"

section \<open>Header layout\<close>

lemma le16_inverse: "from_le16 (le16 w @ r) = w"
  by (rule bit_word_eqI) (auto simp: from_le16_def le16_def bit_simps)

lemma le32_inverse: "from_le32 (le32 w @ r) = w"
proof (rule bit_word_eqI)
  fix n assume n: "n < LENGTH(32)"
  then consider "n < 8" | "8 \<le> n" "n < 16" | "16 \<le> n" "n < 24" | "24 \<le> n" "n < 32" by fastforce
  then show "bit (from_le32 (le32 w @ r)) n = bit w n"
    by cases (auto simp: from_le32_def le32_def bit_simps)
qed

lemma length_header_bytes [simp]: "length (header_bytes h) = NLMSG_HDRLEN"
  by (simp add: header_bytes_def le16_def le32_def NLMSG_HDRLEN_def)

text \<open>Reading a header back from memory.\<close>

lemma header_of_bytes [simp]: "header_of (header_bytes h @ r) = h"
proof -
  have d: "drop 4 (header_bytes h @ r) = le16 (nlmsg_type h) @ (le16 (nlmsg_flags h) @ le32 (nlmsg_seq h) @ le32 (nlmsg_pid h) @ r)"
    "drop 6 (header_bytes h @ r) = le16 (nlmsg_flags h) @ (le32 (nlmsg_seq h) @ le32 (nlmsg_pid h) @ r)"
    "drop 8 (header_bytes h @ r) = le32 (nlmsg_seq h) @ (le32 (nlmsg_pid h) @ r)"
    "drop 12 (header_bytes h @ r) = le32 (nlmsg_pid h) @ r"
    by (simp_all add: header_bytes_def le16_def le32_def)
  have e: "header_bytes h @ r = le32 (nlmsg_len h) @ (le16 (nlmsg_type h) @ le16 (nlmsg_flags h) @
      le32 (nlmsg_seq h) @ le32 (nlmsg_pid h) @ r)" by (simp add: header_bytes_def)
  have "from_le32 (header_bytes h @ r) = nlmsg_len h" unfolding e by (rule le32_inverse)
  then show ?thesis
    by (simp only: header_of_def d le16_inverse le32_inverse nlmsghdr.surjective [symmetric]) simp
qed

section \<open>Life cycle rules\<close>

definition netlink_blocks :: "netlink_ctx \<Rightarrow> addr set" where
  "netlink_blocks c = {pSendNlHdr c, pRecvNlHdr c}"

definition netlink_sound :: "addr \<Rightarrow> netlink_ctx \<Rightarrow> bool" where
  "netlink_sound p c \<longleftrightarrow> distinct [NULL, p, pSendNlHdr c, pRecvNlHdr c]"

text \<open>The buffers as initialisation leaves them, and as every send leaves the one for sending.\<close>

definition netlink_bufs_ok :: "netlink_ctx \<Rightarrow> bool" where
  "netlink_bufs_ok c \<longleftrightarrow> length (sendBuf c) = 8208 \<and> length (recvBuf c) = 8208 \<and>
     sendIov_len c = 8208 \<and> recvIov_len c = 8208"

lemma NLMSG_SPACE_values: "NLMSG_SPACE COMM_BUF_SIZE = 8208" "NLMSG_SPACE (COMM_BUF_SIZE + 1) = 8208"
  by (simp_all add: NLMSG_SPACE_def NLMSG_HDRLEN_def COMM_BUF_SIZE_def)

lemma netlinkInitSocket_adds:
  assumes i: "netlinkInitSocket pid junk c t = (e, c', u)" and a: "adds s t F P T"
  shows "e \<noteq> 0 \<and> adds s u F P T \<or>
    e = 0 \<and> 0 \<le> fd c' \<and> fd c' \<notin> F \<and> fd c' \<notin> fds s \<and> netlink_bufs_ok c' \<and>
      distinct [NULL, pSendNlHdr c', pRecvNlHdr c'] \<and> netlink_blocks c' \<inter> P = {} \<and>
      adds s u (insert (fd c') F) (netlink_blocks c' \<union> P) T \<and>
      pRecvFunc c' = pRecvFunc c \<and> pExitFunc c' = pExitFunc c \<and> pArg c' = pArg c"
proof -
  obtain n t0 where 0: "sys_socket AF_NETLINK SOCK_RAW t = (n, t0)" by fastforce
  note a0 = adds_socket [OF a 0]
  show ?thesis
  proof (cases "n < 0")
    case True
    with a0 i 0 show ?thesis by (auto simp: netlinkInitSocket_def)
  next
    case n: False
    with a0 have n0: "0 \<le> n" "n \<notin> F" "n \<notin> fds s" "adds s t0 (insert n F) P T" by simp_all
    have close: "adds s (sys_close n v) F P T" if "adds s v (insert n F) P T" for v
      using adds_close [OF that, of n] n0 by simp
    obtain r t1 where 1: "sys_bind n (localAddr c) t0 = (r, t1)" by fastforce
    note a1 = adds_bind [OF n0(4) 1]
    show ?thesis
    proof (cases "r < 0")
      case True
      with i n 0 1 close [OF a1] show ?thesis by (auto simp: netlinkInitSocket_def)
    next
      case r: False
      obtain ps t2 where 2: "c_malloc t1 = (ps, t2)" by fastforce
      note a2 = adds_malloc [OF a1 2]
      show ?thesis
      proof (cases "ps = NULL")
        case True
        with a2 close [of t2] i n r 0 1 2 show ?thesis by (auto simp: netlinkInitSocket_def)
      next
        case ps: False
        with a2 have a2: "ps \<notin> P" "adds s t2 (insert n F) (insert ps P) T" by simp_all
        obtain pr t3 where 3: "c_malloc t2 = (pr, t3)" by fastforce
        note a3 = adds_malloc [OF a2(2) 3]
        show ?thesis
        proof (cases "pr = NULL")
          case True
          with a3 a2(1) have "adds s (c_free ps t3) (insert n F) P T"
            using adds_free [of s t3 "insert n F" "insert ps P" T ps] by simp
          with True close i n r ps 0 1 2 3 show ?thesis by (auto simp: netlinkInitSocket_def Let_def)
        next
          case pr: False
          with a3 have a3: "pr \<notin> insert ps P" "adds s t3 (insert n F) (insert pr (insert ps P)) T" by simp_all
          from i n r ps pr 0 1 2 3 have c: "e = 0" "u = t3" "fd c' = n" "pSendNlHdr c' = ps" "pRecvNlHdr c' = pr"
            "pRecvFunc c' = pRecvFunc c" "pExitFunc c' = pExitFunc c" "pArg c' = pArg c"
            and b: "netlink_bufs_ok c'"
            by (auto simp: netlinkInitSocket_def Let_def netlink_bufs_ok_def NLMSG_SPACE_values
                NLMSG_SPACE_values [unfolded Suc_eq_plus1 [symmetric]] NLMSG_HDRLEN_def)
          have "insert pr (insert ps P) = netlink_blocks c' \<union> P"
            by (simp add: netlink_blocks_def c insert_commute)
          with a2 a3 ps pr n0 b c show ?thesis by (simp add: netlink_blocks_def)
        qed
      qed
    qed
  qed
qed

lemma netlinkUninitSocket_rule:
  assumes u: "netlinkUninitSocket c s = (c', s')" and w: "wf_world s" "netlink_blocks c \<subseteq> heap s"
    and d: "distinct [NULL, pSendNlHdr c, pRecvNlHdr c]"
  shows "quiet s s' \<and> wf_world s' \<and> heap s' = heap s - netlink_blocks c \<and> threads s' = threads s \<and>
    fds s' = (if 0 < fd c then fds s - {fd c} else fds s) \<and> thread c' = thread c"
proof -
  let ?s1 = "if 0 < fd c then sys_close (fd c) s else s"
  let ?s2 = "c_free (pSendNlHdr c) ?s1"
  have 1: "quiet s ?s1" "wf_world ?s1" "heap ?s1 = heap s" "threads ?s1 = threads s"
    "fds ?s1 = (if 0 < fd c then fds s - {fd c} else fds s)" using sys_close_rule [of s "fd c"] w by simp_all
  then have "pSendNlHdr c \<in> heap ?s1" using w by (simp add: netlink_blocks_def)
  note 2 = c_free_rule [OF 1(2) this]
  have "pRecvNlHdr c \<in> heap ?s2" using 1 2 w d by (simp add: netlink_blocks_def)
  then have 3: "quiet ?s2 (c_free (pRecvNlHdr c) ?s2)" "wf_world (c_free (pRecvNlHdr c) ?s2)"
    "fds (c_free (pRecvNlHdr c) ?s2) = fds ?s2" "threads (c_free (pRecvNlHdr c) ?s2) = threads ?s2"
    "heap (c_free (pRecvNlHdr c) ?s2) = heap ?s2 - {pRecvNlHdr c}"
    using c_free_rule [of ?s2 "pRecvNlHdr c"] 2 by simp_all
  have "s' = c_free (pRecvNlHdr c) ?s2" "thread c' = thread c"
    using u d by (auto simp: netlinkUninitSocket_def split: if_splits)
  moreover have "quiet s (c_free (pRecvNlHdr c) ?s2)"
    using 1(1) 2 3(1) quiet_trans [of s ?s1 ?s2] quiet_trans [of s ?s2] by blast
  moreover have "heap s - {pSendNlHdr c} - {pRecvNlHdr c} = heap s - netlink_blocks c"
    by (auto simp: netlink_blocks_def set_eq_iff)
  ultimately show ?thesis using 1 2 3 by simp
qed

lemma netlinkInit_adds:
  assumes i: "netlinkInit pid junk rf xf a s = (h, s')" and w: "wf_world s" and z: "0 \<in> fds s"
  shows "case h of None \<Rightarrow> adds s s' {} {} {}
    | Some (p, c) \<Rightarrow> 0 < fd c \<and> netlink_sound p c \<and> netlink_bufs_ok c \<and> thread c \<notin> cancels s' \<and>
        running c = 1 \<and> pRecvFunc c = rf \<and> pExitFunc c = xf \<and> pArg c = a \<and>
        adds s s' {fd c} (insert p (netlink_blocks c)) {thread c}"
proof -
  let ?new = "netlinkNewContext pid rf xf a"
  obtain p s1 where 1: "c_malloc s = (p, s1)" by fastforce
  note a1 = adds_malloc [OF adds_refl [OF w] 1]
  show ?thesis
  proof (cases "p = NULL")
    case True
    with a1 i 1 show ?thesis by (auto simp: netlinkInit_def)
  next
    case False
    with a1 have p: "p \<notin> heap s" "adds s s1 {} {p} {}" by simp_all
    obtain e c s2 where 2: "netlinkInitSocket pid junk ?new s1 = (e, c, s2)" by (metis prod_cases3)
    note a2 = netlinkInitSocket_adds [OF 2 p(2)]
    show ?thesis
    proof (cases "e = 0")
      case e: False
      with a2 have "adds s s2 {} {p} {}" by simp
      from adds_free [OF this, of p] i 1 2 False e show ?thesis by (auto simp: netlinkInit_def)
    next
      case e: True
      with a2 have c: "0 \<le> fd c" "fd c \<notin> fds s" "netlink_bufs_ok c" "distinct [NULL, pSendNlHdr c, pRecvNlHdr c]"
        "p \<notin> netlink_blocks c" "adds s s2 {fd c} (netlink_blocks c \<union> {p}) {}"
        "pRecvFunc c = rf" "pExitFunc c = xf" "pArg c = a" by (auto simp: netlinkNewContext_def)
      with z have pos: "0 < fd c" using order_le_less [of 0 "fd c"] by auto
      obtain e3 t s3 where 3: "pthread_create False s2 = (e3, t, s3)" by (metis prod_cases3)
      note a3 = adds_create [OF c(6) 3]
      have w2: "wf_world s2" using c(6) by (simp add: adds_def)
      note r3 = pthread_create_rule [OF 3 w2]
      let ?c = "c\<lparr>running := 1, thread := t\<rparr>"
      have b: "netlink_blocks ?c = netlink_blocks c" by (simp add: netlink_blocks_def)
      show ?thesis
      proof (cases "e3 = 0")
        case True
        with i 1 2 3 False e have h: "h = Some (p, ?c)" "s' = s3" by (simp_all add: netlinkInit_def)
        have "t \<notin> cancels s3" using r3 True by (simp add: quiet_def)
        moreover have "netlink_sound p ?c" using c False by (auto simp: netlink_sound_def netlink_blocks_def)
        ultimately show ?thesis using h a3 True pos c b by (simp add: netlink_bufs_ok_def)
      next
        case f: False
        obtain c4 s4 where 4: "netlinkUninitSocket ?c s3 = (c4, s4)" by fastforce
        from a3 f have a3: "adds s s3 {fd c} (netlink_blocks c \<union> {p}) {}" by simp
        then have w3: "wf_world s3" "netlink_blocks ?c \<subseteq> heap s3" by (auto simp: adds_def b)
        have d: "distinct [NULL, pSendNlHdr ?c, pRecvNlHdr ?c]" using c(4) by simp
        note u = netlinkUninitSocket_rule [OF 4 w3 d]
        have "adds s s4 {} {p} {}"
        proof -
          have "netlink_blocks c \<inter> heap s = {}" "fd c \<notin> fds s" using a3 by (auto simp: adds_def)
          moreover have "quiet s s4" using a3 u quiet_trans [of s s3 s4] by (simp add: adds_def)
          moreover have "heap s4 = {p} \<union> heap s" "fds s4 = fds s"
            using a3 u pos c(5) b calculation(1,2) by (auto simp: adds_def set_eq_iff)
          ultimately show ?thesis using a3 u p(1) by (simp add: adds_def)
        qed
        from adds_free [OF this, of p] i 1 2 3 4 False e f show ?thesis by (simp add: netlinkInit_def)
      qed
    qed
  qed
qed

lemma netlinkUninit_rule:
  assumes w: "wf_world s" and g: "netlink_sound p c" and p: "insert p (netlink_blocks c) \<subseteq> heap s"
  shows "wf_world (netlinkUninit (Some (p, c)) s) \<and> faults (netlinkUninit (Some (p, c)) s) = faults s \<and>
    fds (netlinkUninit (Some (p, c)) s) = (if 0 < fd c then fds s - {fd c} else fds s) \<and>
    heap (netlinkUninit (Some (p, c)) s) = heap s - insert p (netlink_blocks c) \<and>
    threads (netlinkUninit (Some (p, c)) s) = threads s - {thread c}"
proof -
  let ?c = "c\<lparr>running := 0\<rparr>"
  obtain s1 where s1: "s1 = pthread_cancel (thread c) s" by simp
  have w1: "wf_world s1" "fds s1 = fds s" "heap s1 = heap s" "threads s1 = threads s" "faults s1 = faults s"
    using pthread_cancel_rule [of "thread c" s] w by (simp_all add: s1 res_def)
  obtain c2 s2 where 2: "netlinkUninitSocket ?c s1 = (c2, s2)" by fastforce
  have b: "netlink_blocks ?c = netlink_blocks c" by (simp add: netlink_blocks_def)
  have "netlink_blocks ?c \<subseteq> heap s1" "distinct [NULL, pSendNlHdr ?c, pRecvNlHdr ?c]"
    using p w1 g by (simp_all add: b netlink_sound_def)
  note w2 = netlinkUninitSocket_rule [OF 2 w1(1) this]
  obtain s3 where s3: "s3 = pthread_join (thread c) s2" by simp
  have w3: "wf_world s3" "fds s3 = fds s2" "heap s3 = heap s2" "threads s3 = threads s2 - {thread c}"
    "faults s3 = faults s2" using pthread_join_rule [of "thread c" s2] w2 by (simp_all add: s3)
  have "p \<in> heap s3" using w1 w2 w3 p g by (auto simp: b netlink_sound_def netlink_blocks_def)
  with c_free_rule [of s3 p] w3 have f: "quiet s3 (c_free p s3)" "wf_world (c_free p s3)"
    "fds (c_free p s3) = fds s3" "heap (c_free p s3) = heap s3 - {p}" "threads (c_free p s3) = threads s3" by simp_all
  have "netlinkUninit (Some (p, c)) s = c_free p s3"
    using 2 w2 by (simp add: netlinkUninit_def Let_def s1 s3)
  moreover have "heap s - netlink_blocks c - {p} = heap s - insert p (netlink_blocks c)" by (auto simp: set_eq_iff)
  ultimately show ?thesis using f w1 w2 w3 by (simp add: quiet_def b)
qed

interpretation netlink: transport "\<lambda>_. True" "\<lambda>(pid, junk, rf, xf, a). netlinkInit pid junk rf xf a" netlinkUninit fd
  "\<lambda>c. {thread c}" netlink_blocks netlink_sound
proof
  fix x :: "u32 \<times> (nat \<Rightarrow> u8) \<times> fptr \<times> fptr \<times> addr" and s s' :: "'a world" and p c
  obtain pid junk rf xf a where x: "x = (pid, junk, rf, xf, a)" by (metis prod_cases5)
  show "adds s s' {} {} {}"
    if "(case x of (pid, junk, rf, xf, a) \<Rightarrow> netlinkInit pid junk rf xf a) s = (None, s')" "wf_world s" "0 \<in> fds s"
    using netlinkInit_adds [of pid junk rf xf a s None s'] that by (simp add: x)
  show "0 < fd c \<and> netlink_sound p c \<and> adds s s' {fd c} (insert p (netlink_blocks c)) {thread c}"
    if "(case x of (pid, junk, rf, xf, a) \<Rightarrow> netlinkInit pid junk rf xf a) s = (Some (p, c), s')" "wf_world s" "0 \<in> fds s"
    using netlinkInit_adds [of pid junk rf xf a s "Some (p, c)" s'] that by (simp add: x)
  show "netlinkUninit None s = s" by (simp add: netlinkUninit_def)
qed (rule netlinkUninit_rule)

section \<open>Properties\<close>

lemma ucast_word_of_nat: "(ucast (word_of_nat k :: u32) :: u16) = word_of_nat k"
  by (simp add: unsigned_of_nat word_of_nat_eq_iff)

lemma unat_word_of_nat16: "k < 65536 \<Longrightarrow> unat (word_of_nat k :: u16) = k"
  by (simp add: unat_of_nat)

text \<open>
  Any number of netlink handles, opened one after the other (some may fail to open, at any of
  their five acquisitions) and closed in any order, leave the process with exactly the
  descriptors, heap blocks (three for each handle) and threads it started with, and no invalid
  \<^verbatim>\<open>free\<close>.
\<close>

theorem netlink_sessions_leave_nothing:
  assumes "open_all (\<lambda>(pid, junk, rf, xf, a). netlinkInit pid junk rf xf a) xs s = (hs, s1)" "mset hs' = mset hs"
    "wf_world s" "0 \<in> fds s"
  shows "res (close_all netlinkUninit hs' s1) = res s \<and> faults (close_all netlinkUninit hs' s1) = faults s"
  using netlink.sessions [OF assms] by simp

theorem netlink_sessions_leave_nothing_witness:
  "\<exists>h s1. open_all (\<lambda>(pid, junk, rf, xf, a). netlinkInit pid junk rf xf a) [(7, \<lambda>_. 0, 1, 2, 3), (7, \<lambda>_. 0, 1, 2, 3)]
      (boot () [Done, Val 5, Done, Done, Done, Done, Done, Val 6, Done, Done, Fail 12]) = ([Some h, None], s1) \<and>
     res (close_all netlinkUninit [None, Some h] s1) = res (boot () [])"
proof -
  let ?s = "boot () [Done, Val 5, Done, Done, Done, Done, Done, Val 6, Done, Done, Fail 12]"
  obtain h s1 where o: "open_all (\<lambda>(pid, junk, rf, xf, a). netlinkInit pid junk rf xf a)
      [(7, \<lambda>_. 0, 1, 2, 3), (7, \<lambda>_. 0, 1, 2, 3)] ?s = ([Some h, None], s1)"
    by (simp add: netlinkInit_def netlinkInitSocket_def netlinkNewContext_def posix_eval Let_def insert_commute)
  have "mset [None, Some h] = mset [Some h, None]" by simp
  from netlink_sessions_leave_nothing [OF o this] have "res (close_all netlinkUninit [None, Some h] s1) = res ?s" by simp
  with o show ?thesis by (auto simp: res_def)
qed

text \<open>
  C36. What a send puts on the socket: always the whole block of 8208 bytes, whatever the size of
  the data. Its header says the size of the data (without the 16 bytes of the header), type,
  flags and sequence number as given; the data is followed by whatever earlier sends left in the
  block. More than 8192 bytes overflow the block, and every send reads its destination from the
  dead stack variable.
\<close>

theorem netlink_send_message:
  assumes b: "netlink_bufs_ok c" and n: "0 \<le> fd c" "fd c \<in> fds s" "n \<noteq> 0" "unat n \<le> length bs"
    and k: "script s = Done # rs"
  shows "\<exists>c' s' msg. netlinkSendToKernel stack (Some (p, c)) (Some bs) n ty flags seqNum s = (8208, Some (p, c'), s') \<and>
    netlink_bufs_ok c' \<and> trace s' = trace s @ [ESend (fd c) msg (Some stack)] \<and> length msg = 8208 \<and>
    header_of msg = (header_of (sendBuf c))\<lparr>nlmsg_len := ucast n, nlmsg_type := ty, nlmsg_flags := flags,
      nlmsg_seq := seqNum\<rparr> \<and>
    take (min 8192 (unat n)) (drop 16 msg) = take (min 8192 (unat n)) bs \<and>
    drop (16 + unat n) msg = drop (16 + unat n) (sendBuf c) \<and>
    faults s' = faults s @ (if unat n \<le> 8192 then [] else [Buffer_Overflow 8192 (unat n)]) @ [Dead_Stack]"
proof -
  let ?hdr = "(header_of (sendBuf c))\<lparr>nlmsg_type := ty, nlmsg_flags := flags, nlmsg_seq := seqNum,
    nlmsg_len := ucast n\<rparr>"
  obtain pay where pay: "pay = fill (drop 16 (sendBuf c)) (take (min 8192 (unat n)) bs)" by simp
  obtain msg where msg: "msg = header_bytes ?hdr @ pay" by simp
  let ?s0 = "if unat n \<le> 8192 then s else fault (Buffer_Overflow 8192 (unat n)) s"
  have len: "length (sendBuf c) = 8208" "sendIov_len c = 8208" using b by (simp_all add: netlink_bufs_ok_def)
  have lp: "length pay = 8192" using len n(4) by (simp add: pay fill_def min_def)
  have lm: "length msg = 8208" using lp by (simp add: msg NLMSG_HDRLEN_def)
  have send: "sys_sendto (fd c) msg (Some stack) (fault Dead_Stack ?s0) =
      (8208, emit (ESend (fd c) msg (Some stack)) ((fault Dead_Stack ?s0)\<lparr>script := rs\<rparr>))"
    using n k lm by (simp add: sys_sendto_def pop_def)
  have e: "netlinkSendToKernel stack (Some (p, c)) (Some bs) n ty flags seqNum s =
      (8208, Some (p, c\<lparr>sendBuf := msg\<rparr>),
       emit (ESend (fd c) msg (Some stack)) ((fault Dead_Stack ?s0)\<lparr>script := rs\<rparr>))"
  proof -
    have g: "(fd c < 0) = False" "(n = 0) = False" "length (sendBuf c) - 16 = 8192" "take 8208 msg = msg"
      "sendBuf (c\<lparr>sendBuf := msg\<rparr>) = msg" "sendIov_len (c\<lparr>sendBuf := msg\<rparr>) = 8208" "fd (c\<lparr>sendBuf := msg\<rparr>) = fd c"
      using n len lm by simp_all
    show ?thesis
      by (simp only: netlinkSendToKernel_def option.case prod.case Let_def NLMSG_HDRLEN_def g if_False
          pay [symmetric] msg [symmetric] send)
  qed
  have d: "drop 16 msg = pay" using lp by (simp add: msg NLMSG_HDRLEN_def)
  have l: "length (take (min 8192 (unat n)) bs) = min 8192 (unat n)" using n(4) by simp
  have "take (min 8192 (unat n)) (drop 16 msg) = take (min 8192 (unat n)) bs"
    unfolding d pay fill_def using l by (metis append_eq_conv_conj)
  moreover have "drop (16 + unat n) msg = drop (16 + unat n) (sendBuf c)"
  proof -
    have "drop (16 + unat n) msg = drop (unat n) (drop 16 msg)" by (simp add: add.commute)
    also have "\<dots> = drop (unat n) pay" by (simp only: d)
    also have "\<dots> = drop (16 + unat n) (sendBuf c)"
    proof (cases "unat n \<le> 8192")
      case True
      with n(4) show ?thesis by (simp add: pay fill_def add.commute)
    next
      case False
      with lp len show ?thesis by simp
    qed
    finally show ?thesis .
  qed
  moreover have "header_of msg = ?hdr" by (simp add: msg)
  moreover have "netlink_bufs_ok (c\<lparr>sendBuf := msg\<rparr>)" using b lm by (simp add: netlink_bufs_ok_def)
  moreover obtain u where u: "u = emit (ESend (fd c) msg (Some stack)) ((fault Dead_Stack ?s0)\<lparr>script := rs\<rparr>)" by simp
  moreover have "trace u = trace s @ [ESend (fd c) msg (Some stack)]"
    "faults u = faults s @ (if unat n \<le> 8192 then [] else [Buffer_Overflow 8192 (unat n)]) @ [Dead_Stack]"
    by (simp_all add: u)
  ultimately show ?thesis using lm e unfolding u [symmetric]
    by (intro exI [of _ "c\<lparr>sendBuf := msg\<rparr>"] exI [of _ u] exI [of _ msg] conjI) simp_all
qed

text \<open>A handle on descriptor 5 whose blocks hold zeros, for the examples.\<close>

definition sample_netlink :: netlink_ctx where
  "sample_netlink = (netlinkNewContext 7 9 8 3)\<lparr>fd := 5, sendBuf := replicate 8208 0, recvBuf := replicate 8208 0,
     sendIov_len := 8208, recvIov_len := 8208\<rparr>"

theorem netlink_send_message_witness:
  "\<exists>c' s' msg. netlinkSendToKernel (Sockaddr_nl 0 0) (Some (1, sample_netlink)) (Some [1, 2]) 2 3 4 5
      ((boot () [Done])\<lparr>fds := {5}\<rparr>) = (8208, Some (1, c'), s') \<and>
    trace s' = [ESend 5 msg (Some (Sockaddr_nl 0 0))] \<and> nlmsg_len (header_of msg) = 2 \<and> faults s' = [Dead_Stack]"
proof -
  have "netlink_bufs_ok sample_netlink" by (simp add: netlink_bufs_ok_def sample_netlink_def)
  from netlink_send_message [OF this, of "(boot () [Done])\<lparr>fds := {5}\<rparr>" 2 "[1, 2]" "[]" "Sockaddr_nl 0 0" 1 3 4 5]
  show ?thesis by (auto simp: sample_netlink_def)
qed

text \<open>
  What the application gets for a message of the kernel: the size it is told is the length of
  the message with its header, but the data starts behind the header, so after the payload come
  16 bytes that earlier messages left in the buffer. The flags are those of the message.
\<close>

theorem netlink_receive_size:
  assumes b: "netlink_bufs_ok c" and r: "pRecvFunc c \<noteq> NULL" "fd c \<in> fds s" "t \<notin> cancels s"
    and k: "script s = Data (header_bytes h @ dat) src # rs" "length dat \<le> 8192"
      "nlmsg_len h = word_of_nat (16 + length dat)"
  shows "\<exists>c' s'. netlinkRecvBody (pure_app f) t (c, s) = (Next, c', s') \<and> netlink_bufs_ok c' \<and>
    calls s' = calls s @ [RecvFlagsCb (pRecvFunc c) (pArg c)
      (dat @ take 16 (drop (16 + length dat) (recvBuf c))) (word_of_nat (16 + length dat)) (nlmsg_flags h)]"
proof -
  let ?m = "header_bytes h @ dat"
  have len: "length (recvBuf c) = 8208" "recvIov_len c = 8208" using b by (simp_all add: netlink_bufs_ok_def)
  have lm: "length ?m = 16 + length dat" by (simp add: NLMSG_HDRLEN_def)
  have t: "take 8208 ?m = ?m" using lm k(2) by simp
  have recv: "sys_recvmsg (fd c) 8208 s = (int (length ?m), ?m, fault Dead_Stack (s\<lparr>script := rs\<rparr>))"
    using sys_recvfrom_payload [OF r(2) k(1), of 8208] unfolding t by (simp add: sys_recvmsg_def)
  let ?buf = "fill (recvBuf c) ?m"
  have h: "header_of ?buf = h" by (simp add: fill_def)
  have u: "(ucast (nlmsg_len h) :: u16) = word_of_nat (16 + length dat)"
    unfolding k(3) by (rule ucast_word_of_nat)
  have n: "unat (word_of_nat (16 + length dat) :: u16) = 16 + length dat"
    using k(2) by (intro unat_word_of_nat16) simp
  have d: "take (16 + length dat) (drop 16 ?buf) = dat @ take 16 (drop (16 + length dat) (recvBuf c))"
    using lm by (simp add: fill_def NLMSG_HDRLEN_def)
  have lb: "length ?buf = 8208" using length_fill [of ?m "recvBuf c"] len lm k(2) by simp
  let ?c = "c\<lparr>recvBuf := ?buf\<rparr>"
  let ?s = "invoke (pure_app f) (RecvFlagsCb (pRecvFunc c) (pArg c)
      (dat @ take 16 (drop (16 + length dat) (recvBuf c))) (word_of_nat (16 + length dat)) (nlmsg_flags h))
      (fault Dead_Stack (s\<lparr>script := rs\<rparr>))"
  have "netlinkRecvBody (pure_app f) t (c, s) = (Next, ?c, ?s)"
    using r len recv h u n d lm by (simp add: netlinkRecvBody_def pthread_testcancel_def Let_def NLMSG_HDRLEN_def)
  moreover have "netlink_bufs_ok ?c" using b lb by (simp add: netlink_bufs_ok_def)
  ultimately show ?thesis by auto
qed

theorem netlink_receive_size_witness:
  "\<exists>c' s'. netlinkRecvBody (pure_app (\<lambda>c n. n + (1::nat))) 4 (sample_netlink,
      (boot 0 [Data (header_bytes \<lparr>nlmsg_len = 18, nlmsg_type = 0, nlmsg_flags = 2, nlmsg_seq = 0, nlmsg_pid = 0\<rparr> @ [1, 2])
        (Sockaddr_nl 0 0)])\<lparr>fds := {5}\<rparr>) = (Next, c', s') \<and>
    calls s' = [RecvFlagsCb 9 3 ([1, 2] @ replicate 16 0) 18 2]"
proof -
  let ?h = "\<lparr>nlmsg_len = 18, nlmsg_type = 0, nlmsg_flags = 2, nlmsg_seq = 0, nlmsg_pid = 0\<rparr>"
  have "netlink_bufs_ok sample_netlink" by (simp add: netlink_bufs_ok_def sample_netlink_def)
  from netlink_receive_size [OF this, of "(boot 0 [Data (header_bytes ?h @ [1, 2]) (Sockaddr_nl 0 0)])\<lparr>fds := {5}\<rparr>" 4 ?h "[1, 2]"
      "Sockaddr_nl 0 0" "[]" "\<lambda>c n. n + (1::nat)"]
  show ?thesis by (auto simp: sample_netlink_def netlinkNewContext_def)
qed

end
