(* ===== verification/Uart.thy ===== *)
theory Uart
  imports Recv_Loop
begin

text \<open>
  \<^verbatim>\<open>source/comm_uart.c\<close>: a serial device with a joinable receive thread, and its line
  settings. Sleeping (\<^verbatim>\<open>usleep\<close>) has no effect on the state the model keeps.
\<close>

section \<open>Context\<close>

record uart_ctx =
  devName :: string
  baudRate :: int
  parity :: int
  waitTime :: int
  fd :: int
  pRecvFunc :: fptr
  pArg :: addr
  thread :: tid
  running :: int
  recvMsg :: "u8 list"

section \<open>The receive thread\<close>

text \<open>
  The thread leaves its loop only through the loop's condition: errors other than EAGAIN, and an
  end of file in blocking mode, clear \<open>running\<close>. The data gets a terminating zero.
\<close>

definition uartRecvBody :: "'a application \<Rightarrow> tid \<Rightarrow> uart_ctx \<times> 'a world \<Rightarrow> flow \<times> uart_ctx \<times> 'a world" where
  "uartRecvBody cb t st = (case st of (pContext, s) \<Rightarrow>
     if pthread_testcancel t s then (Cancel, st)
     else
       let (len, bs, s) = sys_read (fd pContext) COMM_BUF_SIZE s;
           pContext = pContext\<lparr>recvMsg := fill (recvMsg pContext) bs\<rparr>
       in if len < 0 \<and> errno s = EAGAIN
          then (if pthread_testcancel t s then Cancel else Next, pContext, s)
          else
            let (pContext, s) =
              (if len < 0 then (pContext\<lparr>running := 0\<rparr>, s)
               else if len = 0
               then (if waitTime pContext < 0 then pContext\<lparr>running := 0\<rparr> else pContext, s)
               else
                 let s = (if nat len < length (recvMsg pContext) then s
                       else fault (Out_Of_Bounds (length (recvMsg pContext)) (nat len)) s);
                     pContext = pContext\<lparr>recvMsg := (recvMsg pContext)[nat len := 0]\<rparr>
                 in (pContext,
                   if pRecvFunc pContext \<noteq> NULL
                   then invoke cb (RecvCb (pRecvFunc pContext) (pArg pContext)
                          (take (nat len) (recvMsg pContext)) (word_of_int len)) s
                   else s))
            in (if pthread_testcancel t s then Cancel else Next, pContext, s))"

definition uartRecvTask :: "'a application \<Rightarrow> tid \<Rightarrow> uart_ctx \<Rightarrow> 'a world \<Rightarrow> (uart_ctx \<times> 'a world) option" where
  "uartRecvTask cb t pContext s =
     map_option (\<lambda>(cancelled, pContext, s).
         (if cancelled then pContext else pContext\<lparr>running := 0\<rparr>, pthread_exit t s))
       (c_while (\<lambda>(pContext, s). running pContext \<noteq> 0) (uartRecvBody cb t) (pContext, s))"

section \<open>Opening and closing\<close>

definition uart_openDev :: "string \<Rightarrow> fptr \<Rightarrow> addr \<Rightarrow> 'a world \<Rightarrow> uart_ctx handle \<times> 'a world" where
  "uart_openDev pDevName recvFunc arg s =
     (let (p, s) = c_malloc s in
      if p = NULL then (None, s)
      else
        let (n, s) = sys_open pDevName ''O_RDWR|O_NOCTTY'' s in
        if n < 0 then (None, s)
        else
          let pContext = \<lparr>devName = c_strncpy 31 pDevName, baudRate = 0, parity = 0, waitTime = 0, fd = n,
                pRecvFunc = recvFunc, pArg = arg, thread = 0, running = 1, recvMsg = recv_buffer\<rparr>;
              (error, t, s) = pthread_create False s;
              pContext = pContext\<lparr>thread := t\<rparr>
          in if error \<noteq> 0 then (None, c_free p (sys_close n s))
             else (Some (p, pContext), s))"

definition uart_closeDev :: "uart_ctx handle \<Rightarrow> 'a world \<Rightarrow> 'a world" where
  "uart_closeDev handle s = (case handle of
       None \<Rightarrow> s
     | Some (p, pContext) \<Rightarrow>
         let s = pthread_cancel (thread pContext) s;
             pContext = pContext\<lparr>running := 0\<rparr>;
             s = (if 0 < fd pContext then sys_close (fd pContext) s else s);
             s = pthread_join (thread pContext) s
         in c_free p s)"

section \<open>Settings\<close>

text \<open>The speed constants and the flags, with the values Linux gives them.\<close>

definition uart_baudRate :: "int \<Rightarrow> u32" where
  "uart_baudRate rate =
     (if rate = 9600 then 13 else if rate = 19200 then 14 else if rate = 38400 then 15
      else if rate = 57600 then 4097 else if rate = 115200 then 4098 else 0)"

definition CSIZE :: u32 where "CSIZE = 0x30"
definition CS8 :: u32 where "CS8 = 0x30"
definition CSTOPB :: u32 where "CSTOPB = 0x40"
definition CREAD :: u32 where "CREAD = 0x80"
definition PARENB :: u32 where "PARENB = 0x100"
definition PARODD :: u32 where "PARODD = 0x200"
definition CLOCAL :: u32 where "CLOCAL = 0x800"
definition CRTSCTS :: u32 where "CRTSCTS = 0x80000000"
definition IGNBRK :: u32 where "IGNBRK = 0x1"
definition IXON :: u32 where "IXON = 0x400"
definition IXANY :: u32 where "IXANY = 0x800"
definition IXOFF :: u32 where "IXOFF = 0x1000"
definition CBAUD :: u32 where "CBAUD = 0x100F"

text \<open>Setting a speed also stores its constant in the control flags, as Linux does.\<close>

definition uartTermios :: "u32 \<Rightarrow> int \<Rightarrow> int \<Rightarrow> termios \<Rightarrow> termios" where
  "uartTermios speed par wait tty =
     (let blockingMode = (if wait < 0 then 1 else 0 :: int);
          tty = tty\<lparr>c_speed := speed, c_cflag := (c_cflag tty AND NOT CBAUD) OR speed\<rparr>;
          tty = tty\<lparr>c_cflag := (c_cflag tty AND NOT CSIZE) OR CS8\<rparr>;
          tty = tty\<lparr>c_iflag := c_iflag tty AND NOT IGNBRK\<rparr>;
          tty = tty\<lparr>c_lflag := 0\<rparr>;
          tty = tty\<lparr>c_oflag := 0\<rparr>;
          tty = tty\<lparr>c_vmin := (if blockingMode = 1 then 1 else 0)\<rparr>;
          tty = tty\<lparr>c_vtime := (if blockingMode = 1 then 0 else word_of_int wait)\<rparr>;
          tty = tty\<lparr>c_iflag := c_iflag tty AND NOT (IXON OR IXOFF OR IXANY)\<rparr>;
          tty = tty\<lparr>c_cflag := c_cflag tty OR (CLOCAL OR CREAD)\<rparr>;
          tty = tty\<lparr>c_cflag := c_cflag tty AND NOT (PARENB OR PARODD)\<rparr>;
          tty = tty\<lparr>c_cflag := c_cflag tty OR word_of_int par\<rparr>;
          tty = tty\<lparr>c_cflag := c_cflag tty AND NOT CSTOPB\<rparr>
      in tty\<lparr>c_cflag := c_cflag tty AND NOT CRTSCTS\<rparr>)"

definition zero_termios :: termios where
  "zero_termios = \<lparr>c_iflag = 0, c_oflag = 0, c_cflag = 0, c_lflag = 0, c_vmin = 0, c_vtime = 0, c_speed = 0\<rparr>"

definition uart_configDev :: "uart_ctx handle \<Rightarrow> int \<Rightarrow> int \<Rightarrow> int \<Rightarrow> 'a world \<Rightarrow> int \<times> uart_ctx handle \<times> 'a world" where
  "uart_configDev handle rate par wait s = (case handle of
       None \<Rightarrow> (-1, handle, s)
     | Some (p, pContext) \<Rightarrow>
         if fd pContext < 0 then (-1, handle, s)
         else
           let speed = uart_baudRate rate in
           if speed = 0 then (-1, handle, s)
           else
             let wait = (if 255 < wait then 255 else wait);
                 (r, v, s) = sys_ioctl (fd pContext) s in
             if r \<noteq> 0 then (-1, handle, s)
             else
               let tty = (case v of Tty tty \<Rightarrow> tty | _ \<Rightarrow> zero_termios);
                   (r, s) = sys_tcsetattr (fd pContext) (uartTermios speed par wait tty) s in
               if r \<noteq> 0 then (-1, handle, s)
               else (0, Some (p, pContext\<lparr>baudRate := rate, parity := par, waitTime := wait\<rparr>), s))"

section \<open>Sending\<close>

definition uart_send :: "uart_ctx handle \<Rightarrow> u8 list option \<Rightarrow> u16 \<Rightarrow> 'a world \<Rightarrow> int \<times> 'a world" where
  "uart_send handle pData dataSize s = (case handle of
       None \<Rightarrow> (-1, s)
     | Some (p, pContext) \<Rightarrow>
         if fd pContext \<le> 0 then (-1, s)
         else (case pData of
             None \<Rightarrow> (-1, s)
           | Some bs \<Rightarrow>
               if dataSize = 0 then (-1, s)
               else sys_write (fd pContext) (take (unat dataSize) bs) s))"

section \<open>The thread's loop\<close>

text \<open>What the loop hands over of the answers of the kernel: it skips EAGAIN and, in timed mode, empty reads.\<close>

fun uart_input :: "int \<Rightarrow> reply list \<Rightarrow> u8 list list" where
  "uart_input w [] = []"
| "uart_input w (Fail e # rs) = (if e = EAGAIN then uart_input w rs else [])"
| "uart_input w (r # rs) =
     (if reply_data r \<noteq> [] then take COMM_BUF_SIZE (reply_data r) # uart_input w rs
      else if w < 0 then [] else uart_input w rs)"

definition uart_calls :: "fptr \<Rightarrow> addr \<Rightarrow> u8 list list \<Rightarrow> callback list" where
  "uart_calls f a ds = (if f = NULL then [] else map (\<lambda>d. RecvCb f a d (word_of_nat (length d))) ds)"

definition uart_rest :: "uart_ctx \<Rightarrow> int \<times> int \<times> fptr \<times> addr \<times> tid" where
  "uart_rest c = (fd c, waitTime c, pRecvFunc c, pArg c, thread c)"

definition uart_quiet :: "'a world \<Rightarrow> 'a world \<Rightarrow> bool" where
  "uart_quiet s s' \<longleftrightarrow> faults s' = faults s \<and> fds s' = fds s \<and> heap s' = heap s \<and> threads s' = threads s \<and>
     cancels s' = cancels s \<and> wf_world s' = wf_world s"

text \<open>One turn, by the answer it gets.\<close>

lemma uartRecvBody_turn:
  assumes r: "t \<notin> cancels s" "fd c \<in> fds s" "length (recvMsg c) = COMM_BUF_SIZE + 1"
  shows "\<exists>c' s'. uartRecvBody (pure_app f) t (c, s) = (Next, c', s') \<and> uart_rest c' = uart_rest c \<and>
    length (recvMsg c') = COMM_BUF_SIZE + 1 \<and> uart_quiet s s' \<and>
    (case script s of
       [] \<Rightarrow> running c' = 0 \<and> calls s' = calls s
     | Fail e # rs \<Rightarrow> script s' = rs \<and> running c' = (if e = EAGAIN then running c else 0) \<and> calls s' = calls s
     | r # rs \<Rightarrow> script s' = rs \<and>
         (if reply_data r \<noteq> [] then running c' = running c \<and>
            calls s' = calls s @ uart_calls (pRecvFunc c) (pArg c) [take COMM_BUF_SIZE (reply_data r)]
          else running c' = (if waitTime c < 0 then 0 else running c) \<and> calls s' = calls s))"
proof (cases "script s")
  case Nil
  with r show ?thesis
    by (auto simp: uartRecvBody_def pthread_testcancel_def sys_read_def sys_recv_def sys_recvfrom_def pop_def
        Let_def EBADF_def EAGAIN_def uart_rest_def uart_quiet_def fill_def)
next
  case (Cons x rs)
  show ?thesis
  proof (cases "answered x")
    case False
    then obtain e where x: "x = Fail e" by (cases x) auto
    with r Cons show ?thesis
      by (auto simp: uartRecvBody_def pthread_testcancel_def sys_read_def sys_recv_def sys_recvfrom_def pop_def
          Let_def uart_rest_def uart_quiet_def fill_def)
  next
    case True
    obtain d where d: "d = take COMM_BUF_SIZE (reply_data x)" by simp
    have read: "sys_read (fd c) COMM_BUF_SIZE s = (int (length d), d, s\<lparr>script := rs\<rparr>)"
      using sys_recvfrom_answered [OF r(2) Cons True, of COMM_BUF_SIZE] by (simp add: sys_read_def sys_recv_def d)
    have ld: "length d \<le> COMM_BUF_SIZE" by (simp add: d)
    have e: "d = [] \<longleftrightarrow> reply_data x = []" by (auto simp: d COMM_BUF_SIZE_def)
    have lf: "length (fill (recvMsg c) d) = COMM_BUF_SIZE + 1" using length_fill [of d "recvMsg c"] r(3) ld by simp
    have tk: "take (length d) ((fill (recvMsg c) d)[length d := 0]) = d" by simp
    let ?P = "\<lambda>c' s'. uartRecvBody (pure_app f) t (c, s) = (Next, c', s') \<and> uart_rest c' = uart_rest c \<and>
      length (recvMsg c') = COMM_BUF_SIZE + 1 \<and> uart_quiet s s' \<and> script s' = rs \<and>
      (if d \<noteq> [] then running c' = running c \<and> calls s' = calls s @ uart_calls (pRecvFunc c) (pArg c) [d]
       else running c' = (if waitTime c < 0 then 0 else running c) \<and> calls s' = calls s)"
    have "\<exists>c' s'. ?P c' s'"
      using r lf ld tk
      by (cases "d = []") (auto simp: uartRecvBody_def pthread_testcancel_def read Let_def uart_rest_def uart_quiet_def
          uart_calls_def invoke_deliver fill_def)
    with Cons True e d show ?thesis by (cases x) auto
  qed
qed

lemma uart_calls_append: "uart_calls f a (ds @ es) = uart_calls f a ds @ uart_calls f a es"
  by (simp add: uart_calls_def)

lemma uart_quiet_trans: "uart_quiet s t \<Longrightarrow> uart_quiet t u \<Longrightarrow> uart_quiet s u"
  by (simp add: uart_quiet_def)

lemma uart_calls_Nil [simp]: "uart_calls f a [] = []"
  by (simp add: uart_calls_def)

lemma uart_input_data:
  "uart_input w (r # rs) = (case r of Fail e \<Rightarrow> if e = EAGAIN then uart_input w rs else []
    | _ \<Rightarrow> if reply_data r \<noteq> [] then take COMM_BUF_SIZE (reply_data r) # uart_input w rs
        else if w < 0 then [] else uart_input w rs)"
  by (cases r) simp_all

lemma uart_loop:
  assumes "t \<notin> cancels s" "fd c \<in> fds s" "length (recvMsg c) = COMM_BUF_SIZE + 1" "running c \<noteq> 0"
  shows "\<exists>c' s'. c_while (\<lambda>(c, s). running c \<noteq> 0) (uartRecvBody (pure_app f) t) (c, s) = Some (False, c', s') \<and>
    running c' = 0 \<and> uart_rest c' = uart_rest c \<and> uart_quiet s s' \<and>
    calls s' = calls s @ uart_calls (pRecvFunc c) (pArg c) (uart_input (waitTime c) (script s))"
  using assms
proof (induction "script s" arbitrary: c s)
  case Nil
  then have e: "script s = []" by simp
  from uartRecvBody_turn [OF Nil.prems(1-3), of f] e Nil.prems(4) show ?case
    by (auto simp: c_while_next c_while_done)
next
  case (Cons r rs)
  then have e: "script s = r # rs" by simp
  let ?w = "waitTime c"
  from uartRecvBody_turn [OF Cons.prems(1-3), of f] obtain c1 s1
    where b: "uartRecvBody (pure_app f) t (c, s) = (Next, c1, s1)"
      and k: "uart_rest c1 = uart_rest c" "length (recvMsg c1) = COMM_BUF_SIZE + 1" "uart_quiet s s1"
      and x: "script s1 = rs"
      and y: "running c1 = 0 \<and> calls s1 = calls s \<and> uart_input ?w (script s) = [] \<or>
        running c1 = running c \<and> (\<exists>ds. calls s1 = calls s @ uart_calls (pRecvFunc c) (pArg c) ds \<and>
          uart_input ?w (script s) = ds @ uart_input ?w rs)"
    unfolding e by (cases r) (force simp: e split: if_splits)+
  have step: "c_while (\<lambda>(c, s). running c \<noteq> 0) (uartRecvBody (pure_app f) t) (c, s) =
      c_while (\<lambda>(c, s). running c \<noteq> 0) (uartRecvBody (pure_app f) t) (c1, s1)"
    using Cons.prems(4) b by (simp add: c_while_next)
  show ?case
  proof (cases "running c1 = 0")
    case True
    with y Cons.prems(4) have "calls s1 = calls s" "uart_input ?w (script s) = []" by auto
    with True k Cons.prems(4) show ?thesis by (simp add: step c_while_done)
  next
    case False
    with y obtain ds where ds: "calls s1 = calls s @ uart_calls (pRecvFunc c) (pArg c) ds"
      "uart_input ?w (script s) = ds @ uart_input ?w rs" by auto
    have k': "fd c1 = fd c" "waitTime c1 = waitTime c" "pRecvFunc c1 = pRecvFunc c" "pArg c1 = pArg c"
      using k(1) by (simp_all add: uart_rest_def)
    have p: "t \<notin> cancels s1" "fd c1 \<in> fds s1" using Cons.prems k(3) k' by (simp_all add: uart_quiet_def)
    from Cons.hyps(1) [OF x [symmetric] p k(2) False] obtain c' s' where
      "c_while (\<lambda>(c, s). running c \<noteq> 0) (uartRecvBody (pure_app f) t) (c1, s1) = Some (False, c', s')"
      "running c' = 0" "uart_rest c' = uart_rest c1" "uart_quiet s1 s'"
      "calls s' = calls s1 @ uart_calls (pRecvFunc c1) (pArg c1) (uart_input (waitTime c1) (script s1))"
      by blast
    with Cons.prems(4) k k' ds x show ?thesis
      by (auto simp: step uart_calls_append intro: uart_quiet_trans)
  qed
qed


section \<open>Life cycle rules\<close>

text \<open>An initialisation that cannot open the device keeps its block: the context is not freed.\<close>

lemma uart_openDev_adds:
  assumes i: "uart_openDev dev gf a s = (h, s')" and w: "wf_world s" and z: "0 \<in> fds s"
  shows "case h of None \<Rightarrow> adds s s' {} {} {} \<or> (\<exists>p. p \<noteq> NULL \<and> p \<notin> heap s \<and> adds s s' {} {p} {})
    | Some (p, c) \<Rightarrow> p \<noteq> NULL \<and> 0 < fd c \<and> thread c \<notin> cancels s' \<and> adds s s' {fd c} {p} {thread c} \<and>
        c = \<lparr>devName = take 31 dev, baudRate = 0, parity = 0, waitTime = 0, fd = fd c, pRecvFunc = gf, pArg = a,
          thread = thread c, running = 1, recvMsg = recv_buffer\<rparr>"
proof -
  obtain p s1 where 1: "c_malloc s = (p, s1)" by fastforce
  note a1 = adds_malloc [OF adds_refl [OF w] 1]
  show ?thesis
  proof (cases "p = NULL")
    case True
    with a1 i 1 show ?thesis by (auto simp: uart_openDev_def)
  next
    case False
    with a1 have p: "p \<notin> heap s" "adds s s1 {} {p} {}" by simp_all
    obtain n s2 where 2: "sys_open dev ''O_RDWR|O_NOCTTY'' s1 = (n, s2)" by fastforce
    note a2 = adds_open [OF p(2) 2]
    show ?thesis
    proof (cases "n < 0")
      case True
      with a2 have "adds s s2 {} {p} {}" by auto
      with i 1 2 True False p show ?thesis by (auto simp: uart_openDev_def)
    next
      case n: False
      with a2 have c: "n \<notin> fds s" "adds s s2 {n} {p} {}" by auto
      with z n have pos: "0 < n" using order_le_less [of 0 n] by auto
      obtain e t s3 where 3: "pthread_create False s2 = (e, t, s3)" by (metis prod_cases3)
      note a3 = adds_create [OF c(2) 3]
      have w2: "wf_world s2" using c(2) by (simp add: adds_def)
      note r3 = pthread_create_rule [OF 3 w2]
      show ?thesis
      proof (cases "e = 0")
        case True
        with i 1 2 3 False n a3 pos r3 show ?thesis
          by (simp add: uart_openDev_def c_strncpy_def quiet_def) (auto simp: c_strncpy_def)
      next
        case f: False
        from a3 f have "adds s s3 {n} {p} {}" by simp
        from adds_close [OF this, of n] have "adds s (sys_close n s3) {} {p} {}" by simp
        from adds_free [OF this, of p] i 1 2 3 False n f show ?thesis by (simp add: uart_openDev_def)
      qed
    qed
  qed
qed

lemma uart_closeDev_rule:
  assumes w: "wf_world s" and p: "p \<in> heap s"
  shows "wf_world (uart_closeDev (Some (p, c)) s) \<and> faults (uart_closeDev (Some (p, c)) s) = faults s \<and>
    fds (uart_closeDev (Some (p, c)) s) = (if 0 < fd c then fds s - {fd c} else fds s) \<and>
    heap (uart_closeDev (Some (p, c)) s) = heap s - {p} \<and>
    threads (uart_closeDev (Some (p, c)) s) = threads s - {thread c} \<and>
    calls (uart_closeDev (Some (p, c)) s) = calls s"
proof -
  obtain s1 where s1: "s1 = pthread_cancel (thread c) s" by simp
  have w1: "wf_world s1" "fds s1 = fds s" "heap s1 = heap s" "threads s1 = threads s"
    "faults s1 = faults s" "calls s1 = calls s"
    using pthread_cancel_rule [of "thread c" s] w by (simp_all add: s1 res_def)
  obtain s2 where s2: "s2 = (if 0 < fd c then sys_close (fd c) s1 else s1)" by simp
  have w2: "wf_world s2" "fds s2 = (if 0 < fd c then fds s - {fd c} else fds s)" "heap s2 = heap s"
    "threads s2 = threads s" "faults s2 = faults s" "calls s2 = calls s"
    using sys_close_rule [of s1 "fd c"] w1 by (simp_all add: s2 quiet_def)
  obtain s3 where s3: "s3 = pthread_join (thread c) s2" by simp
  have w3: "wf_world s3" "fds s3 = fds s2" "heap s3 = heap s2" "threads s3 = threads s2 - {thread c}"
    "faults s3 = faults s2" "calls s3 = calls s2"
    using pthread_join_rule [of "thread c" s2] w2 by (simp_all add: s3)
  have "p \<in> heap s3" using w2 w3 p by simp
  note f = c_free_rule [OF w3(1) this]
  have e: "uart_closeDev (Some (p, c)) s = c_free p s3"
    by (simp add: uart_closeDev_def Let_def s1 s2 s3)
  show ?thesis unfolding e using f w2 w3 by (simp add: quiet_def)
qed

lemma uart_configDev_rule:
  assumes "uart_configDev (Some (p, c)) rate par w s = (r, h, s')" "wf_world s"
  shows "quiet s s' \<and> res s' = res s \<and> wf_world s' \<and>
    (r = 0 \<and> h = Some (p, c\<lparr>baudRate := rate, parity := par, waitTime := min w 255\<rparr>) \<or> r = -1 \<and> h = Some (p, c))"
proof -
  obtain r1 v s1 where 1: "sys_ioctl (fd c) s = (r1, v, s1)" by (metis prod_cases3)
  note i = sys_ioctl_rule [OF 1 assms(2)]
  let ?tty = "uartTermios (uart_baudRate rate) par (if 255 < w then 255 else w) (case v of Tty tty \<Rightarrow> tty | _ \<Rightarrow> zero_termios)"
  obtain r2 s2 where 2: "sys_tcsetattr (fd c) ?tty s1 = (r2, s2)" by fastforce
  have "wf_world s1" using i by simp
  note j = sys_tcsetattr_rule [OF 2 this]
  have m: "(if 255 < w then 255 else w) = min w 255" by simp
  show ?thesis
  proof (cases "fd c < 0 \<or> uart_baudRate rate = 0 \<or> r1 \<noteq> 0 \<or> r2 \<noteq> 0")
    case True
    with assms i j show ?thesis
      by (simp add: uart_configDev_def 1 2 Let_def split: if_splits) (auto intro: quiet_trans)
  next
    case False
    with assms i j show ?thesis
      by (simp add: uart_configDev_def 1 2 [unfolded m] Let_def m) (auto intro: quiet_trans)
  qed
qed
section \<open>Properties\<close>

text \<open>
  C37. A session with a serial device: opened, configured (or not, when the request fails), read
  until the device is lost, closed. The thread ends and has handed over the data in order,
  skipping interrupted reads and, in the timed mode, reads that timed out; it never writes past
  its buffer, and every descriptor, block and thread is given back.
\<close>

theorem uart_session:
  assumes o: "uart_openDev dev gf a s = (Some (p, c), s1)"
    and g: "uart_configDev (Some (p, c)) rate par w s1 = (r, Some (p, c1), s2)"
    and w: "wf_world s" "0 \<in> fds s"
  shows "\<exists>c2 s3. uartRecvTask (pure_app f) (thread c) c1 s2 = Some (c2, s3) \<and> running c2 = 0 \<and>
    calls s3 = calls s @ uart_calls gf a (uart_input (if r = 0 then min w 255 else 0) (script s2)) \<and>
    res (uart_closeDev (Some (p, c2)) s3) = res s \<and> faults (uart_closeDev (Some (p, c2)) s3) = faults s"
proof -
  from uart_openDev_adds [OF o w] have c: "p \<noteq> NULL" "0 < fd c" "thread c \<notin> cancels s1"
    "adds s s1 {fd c} {p} {thread c}"
    and cc: "c = \<lparr>devName = take 31 dev, baudRate = 0, parity = 0, waitTime = 0, fd = fd c, pRecvFunc = gf, pArg = a,
          thread = thread c, running = 1, recvMsg = recv_buffer\<rparr>" by simp_all
  have fields: "waitTime c = 0" "pRecvFunc c = gf" "pArg c = a" "running c = 1" "recvMsg c = recv_buffer"
    by (subst cc, simp)+
  have "wf_world s1" using c(4) by (simp add: adds_def)
  note q = uart_configDev_rule [OF g this]
  have a2: "adds s s2 {fd c} {p} {thread c}" using adds_same [OF c(4)] q by blast
  have c1: "fd c1 = fd c" "thread c1 = thread c" "waitTime c1 = (if r = 0 then min w 255 else 0)"
    "pRecvFunc c1 = gf" "pArg c1 = a" "running c1 = 1" "length (recvMsg c1) = COMM_BUF_SIZE + 1"
    using q fields by (auto simp: recv_buffer_def)
  have r: "thread c \<notin> cancels s2" "fd c1 \<in> fds s2" "running c1 \<noteq> 0"
    using c(3) q a2 c1 by (simp_all add: quiet_def adds_def)
  obtain c' s' where l: "c_while (\<lambda>(c, s). running c \<noteq> 0) (uartRecvBody (pure_app f) (thread c)) (c1, s2) = Some (False, c', s')"
    "uart_rest c' = uart_rest c1" "uart_quiet s2 s'"
    "calls s' = calls s2 @ uart_calls gf a (uart_input (waitTime c1) (script s2))"
    using uart_loop [OF r(1,2) c1(7) r(3), of f] c1 by auto
  let ?c = "c'\<lparr>running := 0\<rparr>" and ?u = "pthread_exit (thread c) s'"
  have t: "uartRecvTask (pure_app f) (thread c) c1 s2 = Some (?c, ?u)" using l by (simp add: uartRecvTask_def)
  have cs: "calls s2 = calls s" "faults s2 = faults s" using a2 by (simp_all add: adds_def quiet_def)
  have d: "fd ?c = fd c" "thread ?c = thread c" using l(2) c1 by (simp_all add: uart_rest_def)
  have u: "wf_world ?u" "p \<in> heap ?u" "fds ?u = fds s2" "heap ?u = heap s2" "threads ?u = threads s2 - {thread c}"
    "faults ?u = faults s" "calls ?u = calls s'"
    using a2 l(3) cs wf_exit [of s' "thread c"] by (auto simp: pthread_exit_def uart_quiet_def adds_def)
  have "res (uart_closeDev (Some (p, ?c)) ?u) = res s" "faults (uart_closeDev (Some (p, ?c)) ?u) = faults s"
    using uart_closeDev_rule [OF u(1,2), of ?c] u d a2 c(2) by (auto simp: res_def adds_def)
  with t u(7) l(4) cs c1 show ?thesis by auto
qed

theorem uart_session_witness:
  "\<exists>p c s1 c1 s2 c2 s3. uart_openDev ''/dev/ttyS0'' 7 3 (boot (0::nat) [Done, Val 5, Done, Done, Done, Fail 11,
      Data [65, 66] (Sockaddr_in 0 0), Fail 5]) = (Some (p, c), s1) \<and>
    uart_configDev (Some (p, c)) 9600 0 10 s1 = (0, Some (p, c1), s2) \<and>
    uartRecvTask (pure_app (\<lambda>c n. n + 1)) (thread c) c1 s2 = Some (c2, s3) \<and>
    calls s3 = [RecvCb 7 3 [65, 66] 2] \<and> res (uart_closeDev (Some (p, c2)) s3) = ({0, 1, 2}, {}, {0})"
proof -
  let ?s = "boot (0::nat) [Done, Val 5, Done, Done, Done, Fail 11, Data [65, 66] (Sockaddr_in 0 0), Fail 5]"
  obtain p c s1 where o: "uart_openDev ''/dev/ttyS0'' 7 3 ?s = (Some (p, c), s1)" and fc: "fd c = 5" "5 \<in> fds s1"
    and x: "script s1 = [Done, Done, Fail 11, Data [65, 66] (Sockaddr_in 0 0), Fail 5]"
    by (simp add: uart_openDev_def sys_open_def c_strncpy_def posix_eval)
  obtain c1 s2 where g: "uart_configDev (Some (p, c)) 9600 0 10 s1 = (0, Some (p, c1), s2)"
    and y: "script s2 = [Fail 11, Data [65, 66] (Sockaddr_in 0 0), Fail 5]"
    using fc x by (simp add: uart_configDev_def uart_baudRate_def sys_ioctl_def sys_tcsetattr_def status_def pop_def)
  from uart_session [OF o g, of "\<lambda>c n. n + 1"] o g y show ?thesis
    by (auto simp: res_def EAGAIN_def COMM_BUF_SIZE_def uart_calls_def)
qed

text \<open>
  C38. An initialisation that fails acquires no descriptor and no thread; it gives back its memory,
  except when the device could not be opened: then exactly one new block stays allocated.
\<close>

theorem uart_failed_open_leaks:
  assumes i: "uart_openDev dev gf a s = (None, s')" and w: "wf_world s" "0 \<in> fds s"
  shows "fds s' = fds s \<and> threads s' = threads s \<and>
    (if \<exists>n<0. trace s' = trace s @ [EOpen dev ''O_RDWR|O_NOCTTY'' n]
     then \<exists>p. p \<notin> heap s \<and> heap s' = insert p (heap s) else heap s' = heap s)"
proof -
  from uart_openDev_adds [OF i w] have a: "fds s' = fds s" "threads s' = threads s"
    by (auto simp: adds_def)
  obtain p s1 where 1: "c_malloc s = (p, s1)" by fastforce
  note a1 = adds_malloc [OF adds_refl [OF w(1)] 1]
  have t1: "trace s1 = trace s" using 1 by (auto simp: c_malloc_def pop_def split: reply.splits list.splits)
  show ?thesis
  proof (cases "p = NULL")
    case True
    with i 1 a1 t1 a show ?thesis by (simp add: uart_openDev_def adds_def)
  next
    case False
    with a1 have p: "p \<notin> heap s" "adds s s1 {} {p} {}" by simp_all
    obtain n s2 where 2: "sys_open dev ''O_RDWR|O_NOCTTY'' s1 = (n, s2)" by fastforce
    note a2 = adds_open [OF p(2) 2]
    have t2: "trace s2 = trace s @ [EOpen dev ''O_RDWR|O_NOCTTY'' n]"
      using 2 t1 by (auto simp: sys_open_def new_fd_def pop_def split: reply.splits list.splits if_splits)
    show ?thesis
    proof (cases "n < 0")
      case True
      with i 1 2 False have "s' = s2" by (simp add: uart_openDev_def)
      with True t2 a2 p a show ?thesis by (auto simp: adds_def)
    next
      case n: False
      obtain e t s3 where 3: "pthread_create False s2 = (e, t, s3)" by (metis prod_cases3)
      have t3: "e \<noteq> 0 \<Longrightarrow> trace s3 = trace s2"
        using 3 by (auto simp: pthread_create_def pop_def split: reply.splits list.splits)
      from i 1 2 3 False n have e: "e \<noteq> 0" and s': "s' = c_free p (sys_close n s3)"
        by (auto simp: uart_openDev_def split: if_splits)
      from adds_create [OF _ 3, of s "{n}" "{p}" "{}"] a2 n e have "adds s s3 {n} {p} {}" by auto
      from adds_free [OF adds_close [OF this], of n p] have "heap s' = heap s" by (simp add: s' adds_def)
      moreover have "trace s' = trace s @ [EOpen dev ''O_RDWR|O_NOCTTY'' n, EClose n]"
        using t2 t3 e by (simp add: s' c_free_def sys_close_def)
      ultimately show ?thesis using a by simp
    qed
  qed
qed

theorem uart_failed_open_leaks_witness:
  "\<exists>p s'. uart_openDev ''/dev/ttyS9'' 7 3 (boot () [Done, Fail 2]) = (None, s') \<and> heap s' = {p}"
proof -
  obtain s' where o: "uart_openDev ''/dev/ttyS9'' 7 3 (boot () [Done, Fail 2]) = (None, s')"
    "trace s' = [EOpen ''/dev/ttyS9'' ''O_RDWR|O_NOCTTY'' (-1)]"
    by (simp add: uart_openDev_def posix_eval)
  from uart_failed_open_leaks [OF o(1)] o show ?thesis by auto
qed

text \<open>A context for the examples.\<close>

definition uart_example :: uart_ctx where
  "uart_example = \<lparr>devName = '''', baudRate = 0, parity = 0, waitTime = 0, fd = 0, pRecvFunc = 0, pArg = 0,
    thread = 0, running = 1, recvMsg = []\<rparr>"








text \<open>
  Sending: refused with -1 and no effect, or one write of a prefix of the buffer whose length
  is the result, at most the given size.
\<close>

theorem uart_send_effect:
  assumes "uart_send handle pData n s = (r, s')"
  shows "quiet s s' \<and> res s' = res s \<and>
    (r = -1 \<and> trace s' = trace s \<or>
     (\<exists>p c bs. handle = Some (p, c) \<and> 0 < fd c \<and> pData = Some bs \<and> n \<noteq> 0 \<and> 0 \<le> r \<and>
        nat r \<le> unat n \<and> trace s' = trace s @ [ESend (fd c) (take (nat r) bs) None]))"
proof (cases "\<exists>p c bs. handle = Some (p, c) \<and> 0 < fd c \<and> pData = Some bs \<and> n \<noteq> 0")
  case False
  with assms show ?thesis by (auto simp: uart_send_def not_le split: option.splits if_splits)
next
  case True
  then obtain p c bs where h: "handle = Some (p, c)" "0 < fd c" "pData = Some bs" "n \<noteq> 0" by blast
  from assms h have "sys_sendto (fd c) (take (unat n) bs) None s = (r, s')"
    by (simp add: uart_send_def sys_write_def sys_send_def)
  from sys_sendto_prefix [OF this] h show ?thesis by auto
qed

theorem uart_send_effect_witness:
  "\<exists>r s'. uart_send (Some (1, uart_example\<lparr>fd := 5\<rparr>)) (Some [1, 2, 3]) 2
      ((boot () [Val 1])\<lparr>fds := {5}\<rparr>) = (r, s') \<and> r = 1 \<and> trace s' = [ESend 5 [1] None]"
proof -
  obtain r s' where e: "uart_send (Some (1, uart_example\<lparr>fd := 5\<rparr>)) (Some [1, 2, 3]) 2
      ((boot () [Val 1])\<lparr>fds := {5}\<rparr>) = (r, s')" and r: "r = 1"
    by (simp add: uart_send_def posix_eval)
  from uart_send_effect [OF e] r have "trace s' = [ESend 5 [1] None]" by auto
  with e r show ?thesis by blast
qed

end
