(* ===== verification/Link.thy ===== *)
theory Link
  imports Stream_Client Stream_Server Fifo "HOL-Library.Sublist"
begin

text \<open>
  Two programs on the library, each with its own world, and what the kernel promises for the byte
  stream between them: what the reader gets is what the writer put on its descriptor, in order, cut
  into pieces as the kernel likes. \<open>byte_writer\<close> is the contract of the operations that write; the
  readers are the threads of the stream client, of a user of the stream server and of a FIFO.
\<close>

section \<open>Writing\<close>

text \<open>An application that writes messages, with the results it gets.\<close>

primrec puts :: "(u8 list \<Rightarrow> 'a world \<Rightarrow> int \<times> 'a world) \<Rightarrow> u8 list list \<Rightarrow> 'a world \<Rightarrow> int list \<times> 'a world" where
  "puts put [] s = ([], s)"
| "puts put (m # ms) s = (let (r, s) = put m s; (rs, s) = puts put ms s in (r # rs, s))"

text \<open>By the results, what was taken of the messages.\<close>

fun accepted :: "u8 list list \<Rightarrow> int list \<Rightarrow> u8 list" where
  "accepted (m # ms) (r # rs) = take (nat r) m @ accepted ms rs"
| "accepted _ _ = []"

text \<open>By the trace, what was put on descriptor \<open>n\<close>.\<close>

definition sent_since :: "int \<Rightarrow> 'a world \<Rightarrow> 'a world \<Rightarrow> u8 list" where
  "sent_since n s s' = concat (drop (length (sends n s)) (sends n s'))"

lemma accepted_all: "rs = map (int \<circ> length) ms \<Longrightarrow> accepted ms rs = concat ms"
  by (induction ms arbitrary: rs) auto

lemma sends_trace: "trace s' = trace s @ es \<Longrightarrow> sends n s' = sends n s @
    List.map_filter (\<lambda>e. case e of ESend k bs a \<Rightarrow> if k = n then Some bs else None | _ \<Rightarrow> None) es"
  by (simp add: sends_def List.map_filter_def)

lemma sendto_put:
  assumes "sys_sendto n (take k m) None s = (r, s')"
  shows "quiet s s' \<and> res s' = res s \<and> (wf_world s \<longrightarrow> wf_world s')"
    "r = -1 \<and> trace s' = trace s \<or> 0 \<le> r \<and> trace s' = trace s @ [ESend n (take (nat r) m) None]"
  using sys_sendto_prefix [OF assms] sys_sendto_rule [OF assms] by auto

text \<open>
  A write to descriptor \<open>n\<close> is refused (-1) without effect or is one call of \<^verbatim>\<open>send\<close> with a prefix of the
  message; \<open>valid\<close> is what the operation needs.
\<close>

locale byte_writer =
  fixes put :: "u8 list \<Rightarrow> 'a world \<Rightarrow> int \<times> 'a world" and n :: int and valid :: bool
  assumes put_send: "valid \<Longrightarrow> put m s = (r, s') \<Longrightarrow>
      r = -1 \<and> s' = s \<or> (\<exists>j. sys_sendto n (take j m) None s = (r, s'))"
begin

lemma put_quiet: "valid \<Longrightarrow> put m s = (r, s') \<Longrightarrow> quiet s s' \<and> res s' = res s \<and> (wf_world s \<longrightarrow> wf_world s')"
  by (drule (1) put_send) (auto dest: sendto_put)

lemma put_sends: "valid \<Longrightarrow> put m s = (r, s') \<Longrightarrow>
    r = -1 \<and> trace s' = trace s \<or> 0 \<le> r \<and> trace s' = trace s @ [ESend n (take (nat r) m) None]"
  by (drule (1) put_send) (auto dest: sendto_put)

lemma puts_quiet:
  assumes "valid" "puts put ms s = (rs, s')"
  shows "quiet s s' \<and> res s' = res s \<and> (wf_world s \<longrightarrow> wf_world s')"
  using assms(2)
proof (induction ms arbitrary: s rs)
  case (Cons m ms)
  obtain r t where 1: "put m s = (r, t)" by fastforce
  obtain q where 2: "puts put ms t = (q, s')" using Cons.prems 1 by (auto split: prod.splits)
  from put_quiet [OF assms(1) 1] Cons.IH [OF 2] show ?case using quiet_trans by auto
qed simp

lemma puts_sends:
  assumes "valid" "puts put ms s = (rs, s')"
  shows "\<exists>bs. sends n s' = sends n s @ bs \<and> concat bs = accepted ms rs"
  using assms(2)
proof (induction ms arbitrary: s rs)
  case (Cons m ms)
  obtain r t where 1: "put m s = (r, t)" by fastforce
  obtain q where 2: "puts put ms t = (q, s')" "rs = r # q" using Cons.prems 1 by (auto split: prod.splits)
  obtain bs where bs: "sends n s' = sends n t @ bs" "concat bs = accepted ms q" using Cons.IH [OF 2(1)] by blast
  obtain b where "sends n t = sends n s @ b" "concat b = take (nat r) m"
    using put_sends [OF assms(1) 1] sends_trace [of t s _ n] by (fastforce simp: sends_def List.map_filter_def)
  then have "sends n s' = sends n s @ (b @ bs)" "concat (b @ bs) = accepted (m # ms) rs" using bs 2 by simp_all
  then show ?case by blast
qed simp

lemma puts_sent: "valid \<Longrightarrow> puts put ms s = (rs, s') \<Longrightarrow> sent_since n s s' = accepted ms rs"
  using puts_sends by (fastforce simp: sent_since_def)

end

text \<open>The writers of the library.\<close>

definition client_put :: "stream_client_ctx handle \<Rightarrow> u8 list \<Rightarrow> 'a world \<Rightarrow> int \<times> 'a world" where
  "client_put handle m s = streamClientSend handle (Some m) (word_of_nat (length m)) s"

definition user_put :: "addr \<Rightarrow> user_store \<Rightarrow> u8 list \<Rightarrow> 'a world \<Rightarrow> int \<times> 'a world" where
  "user_put p us m s = streamServerSend p us (Some m) (word_of_nat (length m)) s"

definition fifo_put :: "fifo_ctx handle \<Rightarrow> u8 list \<Rightarrow> 'a world \<Rightarrow> int \<times> 'a world" where
  "fifo_put handle m s = fifoWritePut handle (Some m) (word_of_nat (length m)) s"

interpretation client_writer: byte_writer "client_put (Some (q, k))" "stream_client_ctx.fd k" True for q k
  by unfold_locales (auto simp: client_put_def streamClientSend_def sys_send_def split: if_splits)

interpretation user_writer: byte_writer "user_put p us" "user_fd (the (us p))" "us p \<noteq> None" for p us
  by unfold_locales (auto simp: user_put_def streamServerSend_def sys_send_def split: if_splits)

interpretation fifo_writer: byte_writer "fifo_put (Some (q, k))" "fifo_ctx.fd k" True for q k
  by unfold_locales (auto simp: fifo_put_def fifoWritePut_def sys_write_def sys_send_def split: if_splits)

section \<open>Reading\<close>

text \<open>The answers of the kernel that carry the bytes \<open>bs\<close> to a reader, in pieces it has room for.\<close>

definition carries :: "u8 list \<Rightarrow> reply list \<Rightarrow> bool" where
  "carries bs rs \<longleftrightarrow> list_all (\<lambda>r. payload r \<and> length (reply_data r) \<le> COMM_BUF_SIZE) rs \<and> concat (map reply_data rs) = bs"

text \<open>The pieces handed over are messages the application may get.\<close>

definition pieces :: "u8 list list \<Rightarrow> bool" where
  "pieces ds \<longleftrightarrow> list_all (\<lambda>d. d \<noteq> [] \<and> length d \<le> COMM_BUF_SIZE) ds"

lemma payload_data: "payload r \<Longrightarrow> \<exists>a. r = Data (reply_data r) a \<and> reply_data r \<noteq> []"
  by (cases r) simp_all

lemma carries_user:
  assumes "carries bs rs" "pServerRecvFunc c \<noteq> NULL"
  shows "\<exists>ds. concat (map (user_calls c p) rs) =
      map (\<lambda>d. UserRecvCb (pServerRecvFunc c) (pServerArg c) p d (word_of_nat (length d))) ds \<and> concat ds = bs \<and> pieces ds"
proof (intro exI conjI)
  show "concat (map (user_calls c p) rs) =
      map (\<lambda>d. UserRecvCb (pServerRecvFunc c) (pServerArg c) p d (word_of_nat (length d))) (map reply_data rs)"
    using assms by (induction rs arbitrary: bs) (auto simp: carries_def user_calls_def)
qed (use assms in \<open>auto simp: carries_def pieces_def list_all_iff dest: payload_data\<close>)

lemma carries_client:
  assumes "carries bs rs" "f \<noteq> NULL"
  shows "\<exists>ds. concat (map (recv_calls (n, f, x, a)) rs) = map (\<lambda>d. RecvCb f a d (word_of_nat (length d))) ds \<and>
    concat ds = bs \<and> pieces ds"
proof (intro exI conjI)
  show "concat (map (recv_calls (n, f, x, a)) rs) = map (\<lambda>d. RecvCb f a d (word_of_nat (length d))) (map reply_data rs)"
    using assms
  proof (induction rs arbitrary: bs)
    case (Cons r rs)
    then show ?case by (cases r) (auto simp: carries_def)
  qed simp
qed (use assms in \<open>auto simp: carries_def pieces_def list_all_iff dest: payload_data\<close>)

text \<open>A thread gets what the kernel carries to it.\<close>

lemma user_receives:
  assumes c: "server_inv H F pc c us w" "us p = Some u" "0 < user_fd u" "t \<notin> cancels w" "pServerRecvFunc c \<noteq> NULL"
    and up: "carries up (takeWhile (server_good (localAddr c)) (script w))"
  shows "\<exists>c' us' w' ds. streamServerRecvTask (pure_app g) t p (c, us, w) = Some (c', us', w') \<and>
    calls w' = calls w @ map (\<lambda>d. UserRecvCb (pServerRecvFunc c) (pServerArg c) p d (word_of_nat (length d))) ds @
      user_exit_calls c p \<and> pieces ds \<and> concat ds = up \<and>
    us' = us(p := None) \<and> server_inv H F pc c' us' w' \<and> faults w' = faults w"
proof -
  obtain ds where "concat (map (user_calls c p) (takeWhile (server_good (localAddr c)) (script w))) =
      map (\<lambda>d. UserRecvCb (pServerRecvFunc c) (pServerArg c) p d (word_of_nat (length d))) ds" "concat ds = up" "pieces ds"
    using carries_user [OF up c(5)] by blast
  with streamServerRecvTask_run [OF c(1-4), of g] show ?thesis by fastforce
qed

lemma client_receives:
  assumes k: "stream_client_ctx.running k \<noteq> 0" "stream_client_ctx.fd k \<in> fds s" "t \<notin> cancels s" "pClientRecvFunc k \<noteq> NULL"
    and down: "carries down (takeWhile payload (script s))"
  shows "\<exists>k' s' es. streamClientRecvTask (pure_app f) t k s = Some (k', s') \<and>
    calls s' = calls s @ map (\<lambda>d. RecvCb (pClientRecvFunc k) (pClientArg k) d (word_of_nat (length d))) es @
      exit_calls (client_key (k, s)) (stop_code (dropWhile payload (script s))) \<and> pieces es \<and> concat es = down \<and>
    fds s' = fds s - {stream_client_ctx.fd k} \<and> faults s' = faults s"
proof -
  have n: "fst (client_key (k, s)) = stream_client_ctx.fd k" by (simp add: client_key_def)
  obtain es where es: "concat (map (recv_calls (client_key (k, s))) (takeWhile payload (script s))) =
      map (\<lambda>d. RecvCb (pClientRecvFunc k) (pClientArg k) d (word_of_nat (length d))) es" "concat es = down" "pieces es"
    using carries_client [OF down k(4), of "stream_client_ctx.fd k" "pClientExitFunc k" "pClientArg k"] by (auto simp: client_key_def)
  obtain k' where "streamClientRecvTask (pure_app f) t k s = Some (k', pthread_exit t (conversation f (client_key (k, s)) s))"
    using streamClientRecvTask_run [OF k(1-3), of f] by (auto simp: conversation_def)
  moreover have "calls (pthread_exit t (conversation f (client_key (k, s)) s)) = calls s @
      map (\<lambda>d. RecvCb (pClientRecvFunc k) (pClientArg k) d (word_of_nat (length d))) es @
      exit_calls (client_key (k, s)) (stop_code (dropWhile payload (script s)))"
    "fds (pthread_exit t (conversation f (client_key (k, s)) s)) = fds s - {stream_client_ctx.fd k}"
    "faults (pthread_exit t (conversation f (client_key (k, s)) s)) = faults s"
    using conversation_rule [of "client_key (k, s)" s f] k(2) es(1) by (simp_all add: n conversation_calls_def pthread_exit_def)
  ultimately show ?thesis using es(2,3) by blast
qed

section \<open>From end to end\<close>

text \<open>
  C5. A client and a server on the two ends of a connection, both sending and receiving. If the kernel carries to each
  end what the other has put on its descriptor, or the beginning of it when the connection breaks,
  then the threads of both ends end; each application has been handed, in messages of 1 to 8191 bytes
  with exact sizes, a beginning of the bytes the results of the other's sends say were taken, and all of
  them when the kernel has carried all; the messages' borders are the kernel's. It is told the end
  once, last, and each end gives back its descriptor. The same holds for TCP and UNIX domain
  connections.
\<close>

theorem stream_link:
  assumes k: "stream_client_ctx.running k \<noteq> 0" "stream_client_ctx.fd k \<in> fds s" "stream_client_ctx.thread k \<notin> cancels s"
      "pClientRecvFunc k \<noteq> NULL"
    and c: "server_inv H F pc c us w" "us p = Some u" "0 < user_fd u" "user_thread u \<notin> cancels w" "pServerRecvFunc c \<noteq> NULL"
    and ms: "puts (client_put (Some (q, k))) ms s = (rs, s1)"
    and ns: "puts (user_put p us) ns w = (qs, w1)"
    and up: "carries up (takeWhile (server_good (localAddr c)) (script w1))" "prefix up (sent_since (stream_client_ctx.fd k) s s1)"
    and down: "carries down (takeWhile payload (script s1))" "prefix down (sent_since (user_fd u) w w1)"
  shows "\<exists>c' us' w2 ds k' s2 es.
    streamServerRecvTask (pure_app g) (user_thread u) p (c, us, w1) = Some (c', us', w2) \<and>
    calls w2 = calls w @ map (\<lambda>d. UserRecvCb (pServerRecvFunc c) (pServerArg c) p d (word_of_nat (length d))) ds @
      user_exit_calls c p \<and> pieces ds \<and> prefix (concat ds) (accepted ms rs) \<and>
    (up = sent_since (stream_client_ctx.fd k) s s1 \<longrightarrow> concat ds = accepted ms rs) \<and>
    us' = us(p := None) \<and> server_inv H F pc c' us' w2 \<and> faults w2 = faults w \<and>
    streamClientRecvTask (pure_app f) (stream_client_ctx.thread k) k s1 = Some (k', s2) \<and>
    calls s2 = calls s @ map (\<lambda>d. RecvCb (pClientRecvFunc k) (pClientArg k) d (word_of_nat (length d))) es @
      exit_calls (client_key (k, s)) (stop_code (dropWhile payload (script s1))) \<and> pieces es \<and> prefix (concat es) (accepted ns qs) \<and>
    (down = sent_since (user_fd u) w w1 \<longrightarrow> concat es = accepted ns qs) \<and>
    fds s2 = fds s - {stream_client_ctx.fd k} \<and> faults s2 = faults s"
proof -
  have v: "us p \<noteq> None" and n: "user_fd (the (us p)) = user_fd u" using c(2) by simp_all
  note s1 = client_writer.puts_quiet [OF TrueI ms] client_writer.puts_sent [OF TrueI ms]
  note w1 = user_writer.puts_quiet [OF v ns] user_writer.puts_sent [OF v ns, unfolded n]
  have q: "calls w1 = calls w" "faults w1 = faults w" "user_thread u \<notin> cancels w1" "calls s1 = calls s" "faults s1 = faults s"
    "stream_client_ctx.thread k \<notin> cancels s1" "fds s1 = fds s" "stream_client_ctx.fd k \<in> fds s1" "client_key (k, s1) = client_key (k, s)"
    using w1(1) s1(1) c(4) k(2,3) by (simp_all add: quiet_def res_def client_key_def)
  have "server_inv H F pc c us w1"
    using c(1) w1(1) by (intro server_inv_frame [OF c(1)]) (simp_all add: res_def server_inv_def server_core_def)
  from user_receives [OF this c(2,3) q(3) c(5) up(1), of g] obtain c' us' w2 ds where S:
    "streamServerRecvTask (pure_app g) (user_thread u) p (c, us, w1) = Some (c', us', w2)" "concat ds = up" "pieces ds"
    "calls w2 = calls w @ map (\<lambda>d. UserRecvCb (pServerRecvFunc c) (pServerArg c) p d (word_of_nat (length d))) ds @ user_exit_calls c p"
    "us' = us(p := None)" "server_inv H F pc c' us' w2" "faults w2 = faults w" unfolding q by blast
  from client_receives [OF k(1) q(8,6) k(4) down(1), of f] obtain k' s2 es where C:
    "streamClientRecvTask (pure_app f) (stream_client_ctx.thread k) k s1 = Some (k', s2)" "concat es = down" "pieces es"
    "calls s2 = calls s @ map (\<lambda>d. RecvCb (pClientRecvFunc k) (pClientArg k) d (word_of_nat (length d))) es @
      exit_calls (client_key (k, s)) (stop_code (dropWhile payload (script s1)))"
    "fds s2 = fds s - {stream_client_ctx.fd k}" "faults s2 = faults s" unfolding q by blast
  show ?thesis
    by (rule exI [of _ c'], rule exI [of _ us'], rule exI [of _ w2], rule exI [of _ ds], rule exI [of _ k'], rule exI [of _ s2],
        rule exI [of _ es]) (use S C up(2) down(2) s1(2) w1(2) in simp)
qed


theorem stream_link_witness:
  "\<exists>c us w w1 c' us' w2 ds s s1 k' s2 es. sample_accept = (Next, c, us, w) \<and>
    puts (user_put 2 us) [[9]] (w\<lparr>script := [Done, Data [1] (Sockaddr_in 1 1), Data [2, 3] (Sockaddr_in 1 1), Done]\<rparr>) = ([1], w1) \<and>
    s = (boot () [Done, Val 1, Data [9] (Sockaddr_in 1 1), Done])\<lparr>fds := {0, 5}\<rparr> \<and>
    puts (client_put (Some (1, sample_client))) [[1, 2], [3, 4]] s = ([2, 1], s1) \<and>
    streamServerRecvTask (pure_app (\<lambda>c n. n + 1)) 2 2 (c, us, w1) = Some (c', us', w2) \<and>
    calls w2 = calls w @ map (\<lambda>d. UserRecvCb 9 3 2 d (word_of_nat (length d))) ds @ [UserExitCb 8 3 2] \<and> concat ds = [1, 2, 3] \<and>
    streamClientRecvTask (pure_app (\<lambda>c u. u)) 4 sample_client s1 = Some (k', s2) \<and>
    calls s2 = map (\<lambda>d. RecvCb 9 3 d (word_of_nat (length d))) es @ [ExitCb 8 3 0] \<and> concat es = [9]"
proof -
  let ?a = "Sockaddr_in 1 1"
  obtain c us w u where a: "sample_accept = (Next, c, us, w)" "server_inv {} {0, 1, 2} 1 c us w" "us 2 = Some u"
    and f: "user_fd u = 6" "user_thread u = 2" "cancels w = {}" "6 \<in> fds w" "pServerRecvFunc c = 9" "pServerExitFunc c = 8"
      "pServerArg c = 3" "localAddr c = Sockaddr_in 80 0" by (rule sample_user) blast
  let ?w = "w\<lparr>script := [Done, Data [1] ?a, Data [2, 3] ?a, Done]\<rparr>"
  let ?s = "(boot () [Done, Val 1, Data [9] ?a, Done])\<lparr>fds := {0, 5}\<rparr>"
  have inv: "server_inv {} {0, 1, 2} 1 c us ?w"
    using a(2) by (intro server_inv_frame [OF a(2)]) (simp_all add: server_inv_def server_core_def)
  obtain w1 where w1: "puts (user_put 2 us) [[9]] ?w = ([1], w1)" "script w1 = [Data [1] ?a, Data [2, 3] ?a, Done]"
    "sends 6 w1 = sends 6 ?w @ [[9]]"
    using a(3) f by (simp add: user_put_def streamServerSend_def posix_eval sends_def List.map_filter_def)
  obtain s1 where s1: "puts (client_put (Some (1, sample_client))) [[1, 2], [3, 4]] ?s = ([2, 1], s1)" "script s1 = [Data [9] ?a, Done]"
    "sends 5 s1 = [[1, 2], [3]]" "sends 5 ?s = []"
    by (simp add: client_put_def streamClientSend_def sample_client_def posix_eval sends_def List.map_filter_def boot_def)
  have k: "stream_client_ctx.running sample_client \<noteq> 0" "stream_client_ctx.fd sample_client \<in> fds ?s"
    "stream_client_ctx.thread sample_client \<notin> cancels ?s" "pClientRecvFunc sample_client \<noteq> NULL"
    by (simp_all add: sample_client_def boot_def)
  have t: "0 < user_fd u" "user_thread u \<notin> cancels ?w" "pServerRecvFunc c \<noteq> NULL" using f by simp_all
  have up: "carries [1, 2, 3] (takeWhile (server_good (localAddr c)) (script w1))"
    "prefix [1, 2, 3] (sent_since (stream_client_ctx.fd sample_client) ?s s1)" "sent_since (stream_client_ctx.fd sample_client) ?s s1 = [1, 2, 3]"
    using w1(2) s1(3,4) f(8) by (simp_all add: carries_def server_good_def COMM_BUF_SIZE_def sent_since_def sample_client_def)
  have down: "carries [9] (takeWhile payload (script s1))" "prefix [9] (sent_since (user_fd u) ?w w1)" "sent_since (user_fd u) ?w w1 = [9]" "calls ?s = []"
    using s1(2) w1(3) f(1) by (simp_all add: carries_def COMM_BUF_SIZE_def sent_since_def calls_def boot_def List.map_filter_def)
  obtain c' us' w2 ds k' s2 es where
    "streamServerRecvTask (pure_app (\<lambda>c n. n + 1)) 2 2 (c, us, w1) = Some (c', us', w2)"
    "calls w2 = calls w @ map (\<lambda>d. UserRecvCb 9 3 2 d (word_of_nat (length d))) ds @ [UserExitCb 8 3 2]" "concat ds = [1, 2, 3]"
    "streamClientRecvTask (pure_app (\<lambda>c u. u)) 4 sample_client s1 = Some (k', s2)"
    "calls s2 = map (\<lambda>d. RecvCb 9 3 d (word_of_nat (length d))) es @ [ExitCb 8 3 0]" "concat es = [9]"
    using stream_link [OF k inv a(3) t s1(1) w1(1) up(1,2) down(1,2), of "\<lambda>c n. n + 1" "\<lambda>c u. u"] f s1(2)
    unfolding up(3) down(3,4) by (auto simp: user_exit_calls_def client_key_def sample_client_def)
  with a(1) s1(1) w1(1) show ?thesis by blast
qed

text \<open>
  C35. Two processes and a FIFO, from end to end: one opens it, writes messages and closes it, the other reads it
  from its initialisation to its un-initialisation. If the kernel carries to the reader what the writer put into the
  pipe (or the beginning of it), the reader's application has been handed, in pieces of 1 to 8191
  bytes with exact sizes, the bytes that the results of the writes say were taken (or the beginning of
  them), then the close callback once, last; and both processes have given back every
  descriptor, block and thread; the name is gone if the reader was asked to make the pipe.
\<close>

theorem fifo_link:
  assumes wr: "fifoWriteInit path mk s = (Some (q, k), s0)" "wf_world s" "0 \<in> fds s"
    and ms: "puts (fifo_put (Some (q, k))) ms s0 = (rs, s1)"
    and rd: "fifoReadInit path mk' gf cf a w = (Some (p, c), w1)" "wf_world w" "0 \<in> fds w" "gf \<noteq> NULL"
    and up: "carries up (takeWhile payload (script w1))" "prefix up (sent_since (fifo_ctx.fd k) s0 s1)"
  shows "\<exists>c' w2 ds. fifoGetTask (pure_app f) (fifo_ctx.thread c) c w1 = Some (c', w2) \<and>
    calls w2 = calls w @ map (\<lambda>d. RecvCb gf a d (word_of_nat (length d))) ds @
      exit_calls (fifo_ctx.fd c, gf, cf, a) (stop_code (dropWhile payload (script w1))) \<and>
    pieces ds \<and> prefix (concat ds) (accepted ms rs) \<and>
    (up = sent_since (fifo_ctx.fd k) s0 s1 \<longrightarrow> concat ds = accepted ms rs) \<and>
    res (fifoReadUninit (Some (p, c')) w2) = res w \<and> faults (fifoReadUninit (Some (p, c')) w2) = faults w \<and>
    (mk' \<noteq> 0 \<longrightarrow> take 255 path \<notin> files (fifoReadUninit (Some (p, c')) w2)) \<and>
    res (fifoWriteUninit (Some (q, k)) s1) = res s \<and> faults (fifoWriteUninit (Some (q, k)) s1) = faults s"
proof -
  note s1 = fifo_writer.puts_quiet [OF TrueI ms] fifo_writer.puts_sent [OF TrueI ms]
  have k: "q \<noteq> NULL" "0 \<le> fifo_ctx.fd k" "adds s s0 {fifo_ctx.fd k} {q} {}"
    using fifoWriteInit_adds [OF wr(1,2)] by simp_all
  then have n: "0 < fifo_ctx.fd k" "fifo_ctx.fd k \<notin> fds s" "q \<notin> heap s" "q \<in> heap s1" "wf_world s1" "faults s1 = faults s"
    "res s1 = (insert (fifo_ctx.fd k) (fds s), insert q (heap s), threads s)"
    using wr(3) s1(1) order_le_less [of 0 "fifo_ctx.fd k"] by (auto simp: adds_def res_def quiet_def)
  have u: "res (fifoWriteUninit (Some (q, k)) s1) = res s" "faults (fifoWriteUninit (Some (q, k)) s1) = faults s"
    using fifoWriteUninit_rule [OF n(5,4), of k] n by (auto simp: res_def)
  obtain c' w2 where r: "fifoGetTask (pure_app f) (fifo_ctx.thread c) c w1 = Some (c', w2)"
    "calls w2 = calls w @ conversation_calls (fifo_ctx.fd c, gf, cf, a) (script w1)"
    "res (fifoReadUninit (Some (p, c')) w2) = res w" "faults (fifoReadUninit (Some (p, c')) w2) = faults w"
    "mk' \<noteq> 0 \<longrightarrow> take 255 path \<notin> files (fifoReadUninit (Some (p, c')) w2)"
    using fifo_read_session [OF rd(1-3), of f] by blast
  obtain ds where "concat (map (recv_calls (fifo_ctx.fd c, gf, cf, a)) (takeWhile payload (script w1))) =
      map (\<lambda>d. RecvCb gf a d (word_of_nat (length d))) ds" "concat ds = up" "pieces ds"
    using carries_client [OF up(1) rd(4)] by blast
  with r u up(2) s1(2) show ?thesis by (auto simp: conversation_calls_def)
qed

theorem fifo_link_witness:
  "\<exists>q k s0 s1 p c w1 c' w2 ds. fifoWriteInit ''/f'' 1 (boot () [Done, Done, Val 5, Val 2, Done]) = (Some (q, k), s0) \<and>
    puts (fifo_put (Some (q, k))) [[1, 2, 3], [4]] s0 = ([2, 1], s1) \<and>
    fifoReadInit ''/f'' 1 9 8 3 (boot () [Done, Done, Val 5, Done, Data [1] (Sockaddr_in 0 0), Data [2, 4] (Sockaddr_in 0 0), Done]) =
      (Some (p, c), w1) \<and>
    fifoGetTask (pure_app (\<lambda>c u. u)) (fifo_ctx.thread c) c w1 = Some (c', w2) \<and>
    calls w2 = map (\<lambda>d. RecvCb 9 3 d (word_of_nat (length d))) ds @ [ExitCb 8 3 0] \<and> concat ds = [1, 2, 4] \<and>
    res (fifoReadUninit (Some (p, c')) w2) = ({0, 1, 2}, {}, {0}) \<and> res (fifoWriteUninit (Some (q, k)) s1) = ({0, 1, 2}, {}, {0})"
proof -
  let ?s = "boot () [Done, Done, Val 5, Val 2, Done]"
  let ?w = "boot () [Done, Done, Val 5, Done, Data [1] (Sockaddr_in 0 0), Data [2, 4] (Sockaddr_in 0 0), Done]"
  obtain q k s0 where wr: "fifoWriteInit ''/f'' 1 ?s = (Some (q, k), s0)" and k: "fifo_ctx.fd k = 5" "5 \<in> fds s0" "script s0 = [Val 2, Done]"
    by (simp add: fifoWriteInit_def openFifoWrite_def fifoOpen_def fifoNewContext_def c_strncpy_def posix_eval)
  obtain s1 where ms: "puts (fifo_put (Some (q, k))) [[1, 2, 3], [4]] s0 = ([2, 1], s1)" "sends 5 s1 = sends 5 s0 @ [[1, 2], [4]]"
    using k by (simp add: fifo_put_def fifoWritePut_def posix_eval sends_def List.map_filter_def)
  obtain p c w1 where rd: "fifoReadInit ''/f'' 1 9 8 3 ?w = (Some (p, c), w1)"
    and m: "script w1 = [Data [1] (Sockaddr_in 0 0), Data [2, 4] (Sockaddr_in 0 0), Done]"
    by (simp add: fifoReadInit_def openFifoRead_def fifoOpen_def fifoNewContext_def c_strncpy_def posix_eval)
  have w: "0 \<in> fds ?s" "0 \<in> fds ?w" "(9 :: fptr) \<noteq> NULL" by (simp_all add: boot_def)
  have up: "carries [1, 2, 4] (takeWhile payload (script w1))" "prefix [1, 2, 4] (sent_since (fifo_ctx.fd k) s0 s1)"
    "sent_since (fifo_ctx.fd k) s0 s1 = [1, 2, 4]"
    using m ms(2) k(1) by (simp_all add: carries_def COMM_BUF_SIZE_def sent_since_def)
  from fifo_link [OF wr wf_boot w(1) ms(1) rd wf_boot w(2,3) up(1,2), of "\<lambda>c u. u"] wr ms(1) rd m
  show ?thesis unfolding up(3) by (auto simp: res_def)
qed

end
