(* ===== verification/Nptp.thy ===== *)
theory Nptp
  imports Comm_Log Tcp Ipc_Stream Ipc_Dgram
begin

text \<open>
  The state of the program in \<^verbatim>\<open>application/\<close>, the named pipe TCP proxy \<^verbatim>\<open>nptp_serv\<close>: the data
  of \<^verbatim>\<open>nptp_serv.h\<close> and the globals of \<^verbatim>\<open>nptp_serv.c\<close> and \<^verbatim>\<open>nptp_event.c\<close>. The program is the
  application of the library, so its state is the \<open>app\<close> of the worlds the library works on.
\<close>

section \<open>Mappings\<close>

text \<open>
  A mapping is a heap block, reached through \<open>g_pMapping\<close> and through the argument of the
  library's callbacks. Its character arrays are strings of a fixed length. The handles are
  addresses of contexts; the model keeps the context with the one handle to it. \<open>tcpUsers\<close> holds
  the blocks of the users of the mapping's server, which \<open>pTcpUser\<close> points to.
\<close>

record tMapping =
  tcpServerHandle :: "stream_server_ctx handle"
  ipcStreamHandle :: "stream_client_ctx handle"
  tcpConnect :: u8
  pipeConnect :: u8
  tcpPort :: u16
  pipePath :: string
  pipeName :: string
  descript :: string
  wd :: int
  pTcpUser :: addr
  index :: int
  tcpUsers :: user_store

definition MAX_MAPPING_NUM :: nat where "MAX_MAPPING_NUM = 64"

text \<open>A block filled by \<^verbatim>\<open>memset(pMapping, 0, sizeof( tMapping ))\<close>.\<close>

definition zero_mapping :: tMapping where
  "zero_mapping = \<lparr>tcpServerHandle = None, ipcStreamHandle = None, tcpConnect = 0, pipeConnect = 0, tcpPort = 0,
     pipePath = replicate 160 (CHR 0x00), pipeName = replicate 80 (CHR 0x00), descript = replicate 80 (CHR 0x00),
     wd = 0, pTcpUser = NULL, index = 0, tcpUsers = Map.empty\<rparr>"

record nptp =
  g_pMapping :: "addr list"
  g_mappingNum :: nat
  mappings :: "addr \<rightharpoonup> tMapping"        \<comment> \<open>the blocks \<open>g_pMapping\<close> points to\<close>
  g_inotifyFd :: int
  g_ipcDgramhandle :: "ipc_dgram_ctx handle"
  logs :: log_state
  xml_docs :: nat                        \<comment> \<open>documents the XML library has not freed\<close>

text \<open>The globals before \<^verbatim>\<open>main\<close>.\<close>

definition nptp_start :: nptp where
  "nptp_start = \<lparr>g_pMapping = replicate MAX_MAPPING_NUM NULL, g_mappingNum = 0, mappings = Map.empty, g_inotifyFd = -1,
     g_ipcDgramhandle = None, logs = log_start, xml_docs = 0\<rparr>"

definition IPC_DGRAM_FILE_PATH :: string where "IPC_DGRAM_FILE_PATH = ''./nptp_serv_dgram.sock''"
definition IPC_STREAM_FILE_PATH :: string where "IPC_STREAM_FILE_PATH = ''./nptp_serv_stream.sock''"

section \<open>Access to the state\<close>

definition set_app :: "(nptp \<Rightarrow> nptp) \<Rightarrow> nptp world \<Rightarrow> nptp world" where
  "set_app f s = s\<lparr>app := f (app s)\<rparr>"

definition set_log :: "(log_state \<Rightarrow> log_state) \<Rightarrow> nptp world \<Rightarrow> nptp world" where
  "set_log f = set_app (\<lambda>g. g\<lparr>logs := f (logs g)\<rparr>)"

definition PRINT :: "string \<Rightarrow> nptp world \<Rightarrow> nptp world" where
  "PRINT str = set_log (printf (''[nptp] '' @ str))"

text \<open>Writing to the fields of a mapping through a pointer.\<close>

definition on_mapping :: "addr \<Rightarrow> (tMapping \<Rightarrow> tMapping) \<Rightarrow> nptp world \<Rightarrow> nptp world" where
  "on_mapping p f s = (case mappings (app s) p of
       None \<Rightarrow> fault (Use_After_Free p) s
     | Some m \<Rightarrow> set_app (\<lambda>g. g\<lparr>mappings := (mappings g)(p \<mapsto> f m)\<rparr>) s)"

text \<open>A dereference of a null pointer ends the process: there is no result.\<close>

definition die :: "nptp world \<Rightarrow> 'r option \<times> nptp world" where
  "die s = (None, fault Null_Deref s)"

lemma set_app_sel [simp]:
  "script (set_app f s) = script s" "fds (set_app f s) = fds s" "heap (set_app f s) = heap s"
  "brk (set_app f s) = brk s" "threads (set_app f s) = threads s" "cancels (set_app f s) = cancels s"
  "next_tid (set_app f s) = next_tid s" "files (set_app f s) = files s" "errno (set_app f s) = errno s"
  "faults (set_app f s) = faults s" "trace (set_app f s) = trace s" "app (set_app f s) = f (app s)"
  "calls (set_app f s) = calls s" "wf_world (set_app f s) = wf_world s" "res (set_app f s) = res s"
  by (simp_all add: set_app_def wf_world_def res_def)

lemma PRINT_sel [simp]:
  "script (PRINT x s) = script s" "fds (PRINT x s) = fds s" "heap (PRINT x s) = heap s"
  "brk (PRINT x s) = brk s" "threads (PRINT x s) = threads s" "cancels (PRINT x s) = cancels s"
  "files (PRINT x s) = files s" "faults (PRINT x s) = faults s" "trace (PRINT x s) = trace s"
  "calls (PRINT x s) = calls s" "wf_world (PRINT x s) = wf_world s" "res (PRINT x s) = res s"
  "g_pMapping (app (PRINT x s)) = g_pMapping (app s)" "g_mappingNum (app (PRINT x s)) = g_mappingNum (app s)"
  "mappings (app (PRINT x s)) = mappings (app s)" "g_inotifyFd (app (PRINT x s)) = g_inotifyFd (app s)"
  "g_ipcDgramhandle (app (PRINT x s)) = g_ipcDgramhandle (app s)" "xml_docs (app (PRINT x s)) = xml_docs (app s)"
  by (simp_all add: PRINT_def set_log_def)

lemma on_mapping_sel:
  assumes "mappings (app s) p = Some m"
  shows "script (on_mapping p f s) = script s" "fds (on_mapping p f s) = fds s" "heap (on_mapping p f s) = heap s"
    "brk (on_mapping p f s) = brk s" "threads (on_mapping p f s) = threads s" "cancels (on_mapping p f s) = cancels s"
    "files (on_mapping p f s) = files s" "faults (on_mapping p f s) = faults s" "trace (on_mapping p f s) = trace s"
    "calls (on_mapping p f s) = calls s" "wf_world (on_mapping p f s) = wf_world s" "res (on_mapping p f s) = res s"
    "app (on_mapping p f s) = (app s)\<lparr>mappings := (mappings (app s))(p \<mapsto> f m)\<rparr>"
  using assms by (simp_all add: on_mapping_def)

section \<open>Character arrays\<close>

text \<open>Storing a character: outside of the array this is undefined.\<close>

definition put_char :: "nat \<Rightarrow> char \<Rightarrow> string \<times> 'a world \<Rightarrow> string \<times> 'a world" where
  "put_char i c st = (case st of (buf, s) \<Rightarrow>
     if i < length buf then (buf[i := c], s) else (buf, fault (Out_Of_Bounds (length buf) i) s))"

text \<open>\<^verbatim>\<open>strncpy\<close> stores exactly \<open>n\<close> characters: those of the text, then NULs.\<close>

definition strncpy_buf :: "nat \<Rightarrow> string \<Rightarrow> string \<Rightarrow> string" where
  "strncpy_buf n src buf = take n (src @ replicate n (CHR 0x00)) @ drop n buf"

text \<open>Reading a string from an array without a NUL runs beyond it.\<close>

definition read_chars :: "string \<Rightarrow> 'a world \<Rightarrow> string \<times> 'a world" where
  "read_chars buf s = (c_string buf,
     if CHR 0x00 \<in> set buf then s else fault (Out_Of_Bounds (length buf) (length buf)) s)"

text \<open>\<^verbatim>\<open>%d\<close>.\<close>

definition fmt_d :: "int \<Rightarrow> string" where
  "fmt_d k = (if k < 0 then ''-'' @ fmt_u (nat (- k)) else fmt_u (nat k))"

lemma c_string_pad: "CHR 0x00 \<notin> set p \<Longrightarrow> c_string (p @ replicate n (CHR 0x00)) = p"
  by (cases n) (auto simp: c_string_def takeWhile_append)

section \<open>The table\<close>

text \<open>
  The table holds the blocks \<open>ps\<close>, in order and nothing else; every entry is a live block, once.
\<close>

definition table_ok :: "addr list \<Rightarrow> nptp world \<Rightarrow> bool" where
  "table_ok ps s \<longleftrightarrow> g_pMapping (app s) = ps @ replicate (MAX_MAPPING_NUM - length ps) NULL \<and>
     length ps \<le> MAX_MAPPING_NUM \<and> g_mappingNum (app s) = length ps \<and> NULL \<notin> set ps \<and> distinct ps \<and>
     dom (mappings (app s)) = set ps \<and> set ps \<subseteq> heap s"

text \<open>The loop \<^verbatim>\<open>for (i=0; i<g_mappingNum; i++)\<close> goes over these.\<close>

definition table_list :: "nptp \<Rightarrow> addr list" where
  "table_list g = take (g_mappingNum g) (g_pMapping g)"

lemma table_list: "table_ok ps s \<Longrightarrow> table_list (app s) = ps"
  by (simp add: table_ok_def table_list_def)

lemma table_ok_D:
  assumes "table_ok ps s" "p \<in> set ps"
  obtains m where "mappings (app s) p = Some m" "p \<noteq> NULL" "p \<in> heap s"
proof -
  have "p \<in> dom (mappings (app s))" "p \<noteq> NULL" "p \<in> heap s" using assms by (auto simp: table_ok_def)
  with that show thesis by blast
qed

end
