(* ===== verification/Nptp_Config.thy ===== *)
theory Nptp_Config
  imports Nptp
begin

text \<open>
  \<^verbatim>\<open>application/nptp_xml.c\<close>: reading the mappings from the configuration file. The XML library
  (libxml2) is not part of the repository; the document it reads and the text it finds in a node
  are parameters.
\<close>

section \<open>The XML library\<close>

text \<open>
  The part of \<^verbatim>\<open>xmlNode\<close> the code uses. A list of siblings stands for the chain of \<^verbatim>\<open>next\<close>
  pointers; the value of an attribute is the content of its first child, \<open>None\<close> if it has none.
\<close>

datatype xml_type = XML_ELEMENT_NODE | XML_OTHER_NODE

datatype xml_node = Node (node_type: xml_type) (node_name: string) (properties: "(string \<times> string option) list")
  (children: "xml_node list")

text \<open>
  \<open>xmlReadFile\<close> is \<open>None\<close> when the file cannot be read, otherwise the root element if there is
  one. \<open>xmlNodeGetContent\<close> is \<open>None\<close> when there is no content. \<open>getcwd n buf\<close> is what
  \<^verbatim>\<open>getcwd(buf, n)\<close> leaves in the array.
\<close>

record conf_env =
  xmlReadFile :: "xml_node option option"
  xmlNodeGetContent :: "xml_node \<Rightarrow> string option"
  getcwd :: "nat \<Rightarrow> string \<Rightarrow> string"

definition TAG_NAME_MAPPING :: string where "TAG_NAME_MAPPING = ''MAPPING''"
definition TAG_NAME_PORT :: string where "TAG_NAME_PORT = ''PORT''"
definition TAG_NAME_PIPE :: string where "TAG_NAME_PIPE = ''PIPE''"
definition TAG_NAME_DESC :: string where "TAG_NAME_DESC = ''DESC''"
definition ATT_NAME_ENABLE :: string where "ATT_NAME_ENABLE = ''enable''"

section \<open>Text\<close>

text \<open>
  \<^verbatim>\<open>atoi\<close> of the C library: white space, a sign, digits; the value is that of \<^verbatim>\<open>strtol\<close> (64 bits,
  clamped) cut to an \<^verbatim>\<open>int\<close>.
\<close>

definition is_space :: "char \<Rightarrow> bool" where
  "is_space c \<longleftrightarrow> c \<in> {CHR '' '', CHR 0x09, CHR 0x0A, CHR 0x0B, CHR 0x0C, CHR 0x0D}"

definition is_digit :: "char \<Rightarrow> bool" where
  "is_digit c \<longleftrightarrow> 48 \<le> (of_char c :: nat) \<and> (of_char c :: nat) \<le> 57"

definition dec_value :: "string \<Rightarrow> nat" where
  "dec_value cs = foldl (\<lambda>n c. 10 * n + (of_char c - 48)) 0 cs"

definition strtol :: "string \<Rightarrow> int" where
  "strtol str =
     (let str = dropWhile is_space str;
          neg = (take 1 str = ''-'');
          str = (if neg \<or> take 1 str = ''+'' then tl str else str);
          n = int (dec_value (takeWhile is_digit str))
      in max (- (2 ^ 63)) (min (2 ^ 63 - 1) (if neg then - n else n)))"

definition atoi :: "string \<Rightarrow> int" where
  "atoi str = sint (word_of_int (strtol str) :: 32 word)"

text \<open>\<^verbatim>\<open>removeSpace\<close>: a loop over the start of the text, which moves the pointer, and one that cuts it.\<close>

fun skip_loop :: "nat \<Rightarrow> string \<Rightarrow> string" where
  "skip_loop (Suc n) (c # cs) =
     (if c \<noteq> CHR 0x0A \<and> c \<noteq> CHR 0x0D \<and> c \<noteq> CHR 0x20 then c # cs else skip_loop n cs)"
| "skip_loop _ pOut = pOut"

fun cut_loop :: "string \<Rightarrow> string" where
  "cut_loop (c # cs) = (if c = CHR 0x0A \<or> c = CHR 0x0D then [] else c # cut_loop cs)"
| "cut_loop [] = []"

definition removeSpace :: "string \<Rightarrow> string" where
  "removeSpace pIn = cut_loop (skip_loop (length pIn) pIn)"

text \<open>
  \<^verbatim>\<open>decomposePathName\<close>: the first loop copies the text and remembers the last slash, the second
  copies what comes after it. The results are the two arrays and the world.
\<close>

fun path_loop :: "nat \<Rightarrow> string \<Rightarrow> int \<Rightarrow> string \<times> 'a world \<Rightarrow> int \<times> string \<times> 'a world" where
  "path_loop i (c # cs) target st = path_loop (Suc i) cs (if c = CHR ''/'' then int i else target) (put_char i c st)"
| "path_loop i [] target st = (target, st)"

fun put_chars :: "nat \<Rightarrow> string \<Rightarrow> string \<times> 'a world \<Rightarrow> string \<times> 'a world" where
  "put_chars i (c # cs) st = put_chars (Suc i) cs (put_char i c st)"
| "put_chars i [] st = st"

definition decomposePathName :: "conf_env \<Rightarrow> string \<Rightarrow> string \<Rightarrow> string \<Rightarrow> 'a world \<Rightarrow> string \<times> string \<times> 'a world" where
  "decomposePathName env pIn pPath pName s =
     (let (target, pPath, s) = path_loop 0 pIn (-1) (pPath, s) in
      if 0 \<le> target
      then
        let (pPath, s) = put_char (nat target) (CHR 0x00) (pPath, s);
            tail = drop (nat target + 1) pIn;
            (pName, s) = put_chars 0 tail (pName, s);
            (pName, s) = put_char (length tail) (CHR 0x00) (pName, s)
        in (pPath, pName, s)
      else (getcwd env 159 pPath, strncpy_buf 79 pIn pName, s))"

section \<open>Attributes and elements\<close>

definition getAttribute :: "xml_node \<Rightarrow> string \<Rightarrow> nptp world \<Rightarrow> string option \<times> nptp world" where
  "getAttribute pNode pName s =
     (case find (\<lambda>a. fst a = pName) (properties pNode) of
        None \<Rightarrow> (None, PRINT (''<'' @ node_name pNode @ ''>'' @ [CHR 0x27] @ ''s attribute '' @ [CHR 0x27] @ pName @
                  [CHR 0x27] @ '' is missing'' @ newline) s)
      | Some (_, None) \<Rightarrow> (None, PRINT (''<'' @ node_name pNode @ ''>'' @ [CHR 0x27] @ ''s attribute '' @ [CHR 0x27] @
                  pName @ [CHR 0x27] @ '' is empty'' @ newline) s)
      | Some (_, Some v) \<Rightarrow> (Some v, s))"

text \<open>The loop over the children that the next three functions share: the first element of a name.\<close>

definition find_tag :: "string \<Rightarrow> xml_node \<Rightarrow> xml_node option" where
  "find_tag nam pParent = find (\<lambda>n. node_type n = XML_ELEMENT_NODE \<and> node_name n = nam) (children pParent)"

definition parseTagPort :: "conf_env \<Rightarrow> xml_node \<Rightarrow> tMapping \<Rightarrow> nptp world \<Rightarrow> tMapping option \<times> nptp world" where
  "parseTagPort env pParent pMapping s = (case find_tag TAG_NAME_PORT pParent of
       None \<Rightarrow> (Some pMapping, s)
     | Some pNode \<Rightarrow> (case xmlNodeGetContent env pNode of
           None \<Rightarrow> die s
         | Some pString \<Rightarrow> (Some (pMapping\<lparr>tcpPort := word_of_int (atoi pString)\<rparr>), s)))"

definition parseTagPipe :: "conf_env \<Rightarrow> xml_node \<Rightarrow> tMapping \<Rightarrow> nptp world \<Rightarrow> tMapping option \<times> nptp world" where
  "parseTagPipe env pParent pMapping s = (case find_tag TAG_NAME_PIPE pParent of
       None \<Rightarrow> (Some pMapping, s)
     | Some pNode \<Rightarrow> (case xmlNodeGetContent env pNode of
           None \<Rightarrow> die s
         | Some pString \<Rightarrow>
             let (pPath, pName, s) = decomposePathName env (removeSpace pString) (pipePath pMapping) (pipeName pMapping) s
             in (Some (pMapping\<lparr>pipePath := pPath, pipeName := pName\<rparr>), s)))"

definition parseTagDesc :: "conf_env \<Rightarrow> xml_node \<Rightarrow> tMapping \<Rightarrow> nptp world \<Rightarrow> tMapping option \<times> nptp world" where
  "parseTagDesc env pParent pMapping s = (case find_tag TAG_NAME_DESC pParent of
       None \<Rightarrow> (Some pMapping, s)
     | Some pNode \<Rightarrow> (case xmlNodeGetContent env pNode of
           None \<Rightarrow> die s
         | Some pString \<Rightarrow>
             (Some (pMapping\<lparr>descript := strncpy_buf 79 (removeSpace pString) (descript pMapping)\<rparr>), s)))"

text \<open>Reading one mapping into a new block, and entering it in the table. The block is not checked for null.\<close>

definition parseMapping :: "conf_env \<Rightarrow> xml_node \<Rightarrow> nptp world \<Rightarrow> unit option \<times> nptp world" where
  "parseMapping env pNode s =
     (let (p, s) = c_malloc s in
      if p = NULL then die s
      else (case parseTagPort env pNode zero_mapping s of
          (None, s) \<Rightarrow> (None, s)
        | (Some m, s) \<Rightarrow> (case parseTagPipe env pNode m s of
            (None, s) \<Rightarrow> (None, s)
          | (Some m, s) \<Rightarrow> (case parseTagDesc env pNode m s of
              (None, s) \<Rightarrow> (None, s)
            | (Some m, s) \<Rightarrow>
                (Some (), set_app (\<lambda>g. g\<lparr>g_pMapping := (g_pMapping g)[g_mappingNum g := p],
                   mappings := (mappings g)(p \<mapsto> m\<lparr>wd := -1, index := int (g_mappingNum g)\<rparr>),
                   g_mappingNum := g_mappingNum g + 1\<rparr>) s)))))"

text \<open>The loop over the children of the root, with \<^verbatim>\<open>atoi\<close> of the attribute, which may be a null pointer.\<close>

fun parseTagMapping :: "conf_env \<Rightarrow> xml_node list \<Rightarrow> nptp world \<Rightarrow> unit option \<times> nptp world" where
  "parseTagMapping env [] s = (Some (), s)"
| "parseTagMapping env (pNode # rest) s =
     (if node_type pNode = XML_ELEMENT_NODE \<and> node_name pNode = TAG_NAME_MAPPING
      then (case getAttribute pNode ATT_NAME_ENABLE s of
          (None, s) \<Rightarrow> die s
        | (Some v, s) \<Rightarrow>
            if atoi v \<noteq> 0 \<and> g_mappingNum (app s) < MAX_MAPPING_NUM
            then (case parseMapping env pNode s of
                (None, s) \<Rightarrow> (None, s)
              | (Some _, s) \<Rightarrow> parseTagMapping env rest s)
            else parseTagMapping env rest s)
      else parseTagMapping env rest s)"

definition xml_init :: "conf_env \<Rightarrow> nptp world \<Rightarrow> int option \<times> nptp world" where
  "xml_init env s = (case xmlReadFile env of
       None \<Rightarrow> (Some 0, PRINT (''ERR: cannot open file nptp_conf.xml'' @ newline) s)
     | Some doc \<Rightarrow>
         let s = set_app (\<lambda>g. g\<lparr>xml_docs := xml_docs g + 1\<rparr>) s in
         (case doc of
            None \<Rightarrow> (Some (-1), PRINT (''ERR: could not get the root element node'' @ newline) s)
          | Some pNodeRoot \<Rightarrow> (case parseTagMapping env (children pNodeRoot) s of
                (None, s) \<Rightarrow> (None, s)
              | (Some _, s) \<Rightarrow> (Some 0, set_app (\<lambda>g. g\<lparr>xml_docs := xml_docs g - 1\<rparr>) s))))"

definition xml_uninit :: "nptp world \<Rightarrow> nptp world" where
  "xml_uninit s = s"

section \<open>What the text functions compute\<close>

lemma skip_loop_eq: "length p \<le> n \<Longrightarrow> skip_loop n p = dropWhile (\<lambda>c. c \<in> {CHR 0x0A, CHR 0x0D, CHR '' ''}) p"
  by (induction n p rule: skip_loop.induct) auto

lemma cut_loop_eq: "cut_loop p = takeWhile (\<lambda>c. c \<notin> {CHR 0x0A, CHR 0x0D}) p"
  by (induction p) auto

text \<open>Line breaks and blanks before the text, and everything from the next line break on, are dropped.\<close>

lemma removeSpace_eq:
  "removeSpace p = takeWhile (\<lambda>c. c \<notin> {CHR 0x0A, CHR 0x0D}) (dropWhile (\<lambda>c. c \<in> {CHR 0x0A, CHR 0x0D, CHR '' ''}) p)"
  by (simp only: removeSpace_def skip_loop_eq [OF order_refl] cut_loop_eq)

fun last_slash :: "nat \<Rightarrow> string \<Rightarrow> int \<Rightarrow> int" where
  "last_slash i (c # cs) t = last_slash (Suc i) cs (if c = CHR ''/'' then int i else t)"
| "last_slash i [] t = t"

lemma last_slash_none: "CHR ''/'' \<notin> set cs \<Longrightarrow> last_slash i cs t = t"
  by (induction cs arbitrary: i) auto

lemma last_slash_split: "CHR ''/'' \<notin> set base \<Longrightarrow> last_slash i (dir @ CHR ''/'' # base) t = int (i + length dir)"
  by (induction dir arbitrary: i t) (simp_all add: last_slash_none)

lemma put_char_in: "i < length buf \<Longrightarrow> put_char i c (buf, s) = (buf[i := c], s)"
  by (simp add: put_char_def)

lemma take_update: "i < length buf \<Longrightarrow> take (Suc i) (buf[i := c]) = take i buf @ [c]"
  by (simp add: take_Suc_conv_app_nth)

lemma path_loop_eq:
  "i + length cs \<le> length buf \<Longrightarrow>
   path_loop i cs t (buf, s) = (last_slash i cs t, take i buf @ cs @ drop (i + length cs) buf, s)"
proof (induction cs arbitrary: i t buf)
  case Nil
  then show ?case by simp
next
  case (Cons c cs)
  then have i: "i < length buf" by simp
  with Cons.IH [of "Suc i" "buf[i := c]"] Cons.prems take_update [OF i] show ?case
    by (simp add: put_char_in)
qed

lemma put_chars_eq:
  "i + length cs \<le> length buf \<Longrightarrow> put_chars i cs (buf, s) = (take i buf @ cs @ drop (i + length cs) buf, s)"
proof (induction cs arbitrary: i buf)
  case Nil
  then show ?case by simp
next
  case (Cons c cs)
  then have i: "i < length buf" by simp
  with Cons.IH [of "Suc i" "buf[i := c]"] Cons.prems take_update [OF i] show ?case
    by (simp add: put_char_in)
qed

text \<open>A name with a slash, short enough for the arrays, is cut at its last slash.\<close>

lemma decomposePathName_fits:
  assumes b: "CHR ''/'' \<notin> set base" "CHR 0x00 \<notin> set dir" "CHR 0x00 \<notin> set base"
    and l: "length dir + 1 + length base \<le> length pPath" "length base < length pName"
  shows "\<exists>x y. decomposePathName env (dir @ CHR ''/'' # base) pPath pName s =
      (dir @ CHR 0x00 # x, base @ CHR 0x00 # y, s) \<and>
    length (dir @ CHR 0x00 # x) = length pPath \<and> length (base @ CHR 0x00 # y) = length pName"
proof -
  let ?in = "dir @ CHR ''/'' # base"
  have 1: "path_loop 0 ?in (-1) (pPath, s) =
      (int (length dir), ?in @ drop (length ?in) pPath, s)"
    using path_loop_eq [of 0 ?in pPath "-1" s] last_slash_split [OF b(1), of 0 dir "-1"] l by simp
  have 2: "put_char (length dir) (CHR 0x00) (?in @ drop (length ?in) pPath, s) =
      (dir @ CHR 0x00 # base @ drop (length ?in) pPath, s)"
    by (simp add: put_char_in list_update_append)
  have 3: "put_chars 0 base (pName, s) = (base @ drop (length base) pName, s)"
    using put_chars_eq [of 0 base pName s] l(2) by simp
  obtain d y where y: "drop (length base) pName = d # y" "length pName = length base + Suc (length y)"
    using l(2) by (metis Cons_nth_drop_Suc length_drop length_Cons le_add_diff_inverse less_imp_le)
  have 4: "put_char (length base) (CHR 0x00) (base @ d # y, s) = (base @ CHR 0x00 # y, s)"
    by (simp add: put_char_in list_update_append)
  have "decomposePathName env ?in pPath pName s =
      (dir @ CHR 0x00 # base @ drop (length ?in) pPath, base @ CHR 0x00 # y, s)"
    using 1 2 3 4 y(1) by (simp add: decomposePathName_def del: path_loop.simps put_chars.simps)
  with l y(2) show ?thesis by (intro exI [of _ "base @ drop (length ?in) pPath"] exI [of _ y]) simp
qed

text \<open>A longer name is written beyond the array.\<close>

lemma put_char_faults: "set (faults s) \<subseteq> set (faults (snd (put_char i c (buf, s)))) \<and>
    length (fst (put_char i c (buf, s))) = length buf"
  by (auto simp: put_char_def)

lemma put_char_out: "length buf \<le> i \<Longrightarrow> Out_Of_Bounds (length buf) i \<in> set (faults (snd (put_char i c (buf, s))))"
  by (simp add: put_char_def)

lemma path_loop_faults:
  "set (faults s) \<subseteq> set (faults (snd (snd (path_loop i cs t (buf, s))))) \<and>
   length (fst (snd (path_loop i cs t (buf, s)))) = length buf"
proof (induction cs arbitrary: i t buf s)
  case Nil
  then show ?case by simp
next
  case (Cons c cs)
  obtain b u where u: "put_char i c (buf, s) = (b, u)" by fastforce
  with Cons.IH [of u "Suc i" "if c = CHR ''/'' then int i else t" b] put_char_faults [of s i c buf] show ?case
    by auto
qed

lemma path_loop_out:
  "i \<le> length buf \<Longrightarrow> length buf < i + length cs \<Longrightarrow>
   Out_Of_Bounds (length buf) (length buf) \<in> set (faults (snd (snd (path_loop i cs t (buf, s)))))"
proof (induction cs arbitrary: i t buf s)
  case Nil
  then show ?case by simp
next
  case (Cons c cs)
  let ?t = "if c = CHR ''/'' then int i else t"
  obtain b u where u: "put_char i c (buf, s) = (b, u)" by fastforce
  then have l: "length b = length buf" using put_char_faults [of s i c buf] by simp
  show ?case
  proof (cases "i = length buf")
    case True
    with put_char_out [of buf i c s] u have "Out_Of_Bounds (length buf) (length buf) \<in> set (faults u)" by simp
    with path_loop_faults [of u "Suc i" cs ?t b] u show ?thesis by auto
  next
    case False
    with Cons.IH [of "Suc i" b ?t u] Cons.prems u l show ?thesis by auto
  qed
qed

lemma put_chars_faults:
  "set (faults s) \<subseteq> set (faults (snd (put_chars i cs (buf, s)))) \<and> length (fst (put_chars i cs (buf, s))) = length buf"
proof (induction cs arbitrary: i buf s)
  case Nil
  then show ?case by simp
next
  case (Cons c cs)
  obtain b u where u: "put_char i c (buf, s) = (b, u)" by fastforce
  with Cons.IH [of u "Suc i" b] put_char_faults [of s i c buf] show ?case by auto
qed

lemma decomposePathName_faults:
  assumes "decomposePathName env pIn pPath pName s = (x, y, s')"
  shows "set (faults (snd (snd (path_loop 0 pIn (-1) (pPath, s))))) \<subseteq> set (faults s')"
proof -
  obtain t b u where 1: "path_loop 0 pIn (-1) (pPath, s) = (t, b, u)" by (metis prod_cases3)
  show ?thesis
  proof (cases "0 \<le> t")
    case False
    with assms 1 show ?thesis by (simp add: decomposePathName_def)
  next
    case True
    obtain b2 u2 where 2: "put_char (nat t) (CHR 0x00) (b, u) = (b2, u2)" by fastforce
    let ?tail = "drop (nat t + 1) pIn"
    obtain b3 u3 where 3: "put_chars 0 ?tail (pName, u2) = (b3, u3)" by fastforce
    obtain b4 u4 where 4: "put_char (length ?tail) (CHR 0x00) (b3, u3) = (b4, u4)" by fastforce
    have "s' = u4" using assms True 1 2 3 4 by (simp add: decomposePathName_def)
    with 1 2 3 4 put_char_faults [of u "nat t" "CHR 0x00" b] put_chars_faults [of u2 0 ?tail pName]
      put_char_faults [of u3 "length ?tail" "CHR 0x00" b3] show ?thesis by auto
  qed
qed

section \<open>The mappings read\<close>

text \<open>The \<^verbatim>\<open>MAPPING\<close> elements, those that are enabled, and the text under a tag.\<close>

definition is_mapping :: "xml_node \<Rightarrow> bool" where
  "is_mapping n \<longleftrightarrow> node_type n = XML_ELEMENT_NODE \<and> node_name n = TAG_NAME_MAPPING"

definition enable_of :: "xml_node \<Rightarrow> string option" where
  "enable_of n = (case find (\<lambda>a. fst a = ATT_NAME_ENABLE) (properties n) of None \<Rightarrow> None | Some a \<Rightarrow> snd a)"

definition enabled :: "xml_node \<Rightarrow> bool" where
  "enabled n \<longleftrightarrow> is_mapping n \<and> (\<exists>v. enable_of n = Some v \<and> atoi v \<noteq> 0)"

definition tag_text :: "conf_env \<Rightarrow> string \<Rightarrow> xml_node \<Rightarrow> string option" where
  "tag_text env nam n = (case find_tag nam n of None \<Rightarrow> None | Some c \<Rightarrow> xmlNodeGetContent env c)"

text \<open>A path the arrays have room for: with a slash, at most 160 characters, 79 after the last slash.\<close>

definition path_fits :: "string \<Rightarrow> bool" where
  "path_fits p \<longleftrightarrow> CHR ''/'' \<in> set p \<and> CHR 0x00 \<notin> set p \<and> length p \<le> 160 \<and>
     length (takeWhile (\<lambda>c. c \<noteq> CHR ''/'') (rev p)) < 80"

text \<open>Every tag that is there has content, and the path fits.\<close>

definition node_fits :: "conf_env \<Rightarrow> xml_node \<Rightarrow> bool" where
  "node_fits env n \<longleftrightarrow>
     (\<forall>nam\<in>{TAG_NAME_PORT, TAG_NAME_PIPE, TAG_NAME_DESC}. find_tag nam n \<noteq> None \<longrightarrow> tag_text env nam n \<noteq> None) \<and>
     (\<forall>t. tag_text env TAG_NAME_PIPE n = Some t \<longrightarrow> path_fits (removeSpace t))"

text \<open>What the path of a pipe is, read back from the two arrays.\<close>

definition pipe_of :: "tMapping \<Rightarrow> string" where
  "pipe_of m = c_string (pipePath m) @ ''/'' @ c_string (pipeName m)"

definition arrays_ok :: "tMapping \<Rightarrow> bool" where
  "arrays_ok m \<longleftrightarrow> length (pipePath m) = 160 \<and> length (pipeName m) = 80 \<and> CHR 0x00 \<in> set (pipePath m) \<and>
     CHR 0x00 \<in> set (pipeName m)"

definition mapping_of :: "conf_env \<Rightarrow> xml_node \<Rightarrow> nat \<Rightarrow> tMapping \<Rightarrow> bool" where
  "mapping_of env n i m \<longleftrightarrow> index m = int i \<and> wd m = -1 \<and> tcpConnect m = 0 \<and> pipeConnect m = 0 \<and>
     tcpServerHandle m = None \<and> ipcStreamHandle m = None \<and> pTcpUser m = NULL \<and> tcpUsers m = Map.empty \<and> arrays_ok m \<and>
     tcpPort m = (case tag_text env TAG_NAME_PORT n of None \<Rightarrow> 0 | Some t \<Rightarrow> word_of_int (atoi t)) \<and>
     pipe_of m = (case tag_text env TAG_NAME_PIPE n of None \<Rightarrow> ''/'' | Some t \<Rightarrow> removeSpace t) \<and>
     descript m = (case tag_text env TAG_NAME_DESC n of None \<Rightarrow> replicate 80 (CHR 0x00)
       | Some t \<Rightarrow> strncpy_buf 79 (removeSpace t) (replicate 80 (CHR 0x00)))"

lemma path_fits_split:
  assumes "path_fits p"
  obtains dir base where "p = dir @ CHR ''/'' # base" "CHR ''/'' \<notin> set base" "CHR 0x00 \<notin> set dir" "CHR 0x00 \<notin> set base"
    "length dir + 1 + length base \<le> 160" "length base < 80"
proof -
  have "CHR ''/'' \<in> set (rev p)" using assms by (simp add: path_fits_def)
  then obtain xs ys where r: "rev p = xs @ CHR ''/'' # ys" "CHR ''/'' \<notin> set xs" by (meson split_list_first)
  then have p: "p = rev ys @ CHR ''/'' # rev xs" by (simp add: rev_swap)
  have "takeWhile (\<lambda>c. c \<noteq> CHR ''/'') (rev p) = xs" using r by (simp add: takeWhile_tail) (metis takeWhile_eq_all_conv)
  with assms p r(2) that [OF p] show thesis by (simp add: path_fits_def)
qed

lemma parseTagPort_text:
  assumes "find_tag TAG_NAME_PORT n \<noteq> None \<longrightarrow> tag_text env TAG_NAME_PORT n \<noteq> None"
  shows "parseTagPort env n m s =
    (Some (case tag_text env TAG_NAME_PORT n of None \<Rightarrow> m | Some t \<Rightarrow> m\<lparr>tcpPort := word_of_int (atoi t)\<rparr>), s)"
  using assms by (auto simp: parseTagPort_def tag_text_def split: option.splits)

lemma parseTagDesc_text:
  assumes "find_tag TAG_NAME_DESC n \<noteq> None \<longrightarrow> tag_text env TAG_NAME_DESC n \<noteq> None"
  shows "parseTagDesc env n m s = (Some (case tag_text env TAG_NAME_DESC n of None \<Rightarrow> m
      | Some t \<Rightarrow> m\<lparr>descript := strncpy_buf 79 (removeSpace t) (descript m)\<rparr>), s)"
  using assms by (auto simp: parseTagDesc_def tag_text_def split: option.splits)

lemma parseTagPipe_text:
  assumes "find_tag TAG_NAME_PIPE n \<noteq> None \<longrightarrow> tag_text env TAG_NAME_PIPE n \<noteq> None"
    and f: "\<forall>t. tag_text env TAG_NAME_PIPE n = Some t \<longrightarrow> path_fits (removeSpace t)"
    and m: "arrays_ok m" "pipe_of m = ''/''"
  shows "\<exists>x y. parseTagPipe env n m s = (Some (m\<lparr>pipePath := x, pipeName := y\<rparr>), s) \<and>
    arrays_ok (m\<lparr>pipePath := x, pipeName := y\<rparr>) \<and>
    pipe_of (m\<lparr>pipePath := x, pipeName := y\<rparr>) =
      (case tag_text env TAG_NAME_PIPE n of None \<Rightarrow> ''/'' | Some t \<Rightarrow> removeSpace t)"
proof (cases "tag_text env TAG_NAME_PIPE n")
  case None
  with assms(1) have "parseTagPipe env n m s = (Some (m\<lparr>pipePath := pipePath m, pipeName := pipeName m\<rparr>), s)"
    by (auto simp: parseTagPipe_def tag_text_def split: option.splits)
  with None m show ?thesis by (intro exI [of _ "pipePath m"] exI [of _ "pipeName m"]) simp
next
  case (Some t)
  with f have "path_fits (removeSpace t)" by blast
  then obtain dir base where p: "removeSpace t = dir @ CHR ''/'' # base" "CHR ''/'' \<notin> set base"
    "CHR 0x00 \<notin> set dir" "CHR 0x00 \<notin> set base" "length dir + 1 + length base \<le> 160" "length base < 80"
    by (rule path_fits_split)
  have l: "length dir + 1 + length base \<le> length (pipePath m)" "length base < length (pipeName m)"
    using m(1) p by (simp_all add: arrays_ok_def)
  obtain x y where d: "decomposePathName env (dir @ CHR ''/'' # base) (pipePath m) (pipeName m) s =
      (dir @ CHR 0x00 # x, base @ CHR 0x00 # y, s)"
    and e: "length (dir @ CHR 0x00 # x) = length (pipePath m)" "length (base @ CHR 0x00 # y) = length (pipeName m)"
    using decomposePathName_fits [OF p(2-4) l, of env s] by blast
  obtain c where c: "find_tag TAG_NAME_PIPE n = Some c" "xmlNodeGetContent env c = Some t"
    using Some by (auto simp: tag_text_def split: option.splits)
  let ?x = "dir @ CHR 0x00 # x" and ?y = "base @ CHR 0x00 # y"
  have "parseTagPipe env n m s = (Some (m\<lparr>pipePath := ?x, pipeName := ?y\<rparr>), s)"
    unfolding parseTagPipe_def by (simp add: c p(1) d)
  moreover have "pipe_of (m\<lparr>pipePath := ?x, pipeName := ?y\<rparr>) = removeSpace t"
    using p(3,4) by (simp add: pipe_of_def c_string_append p(1))
  moreover have "arrays_ok (m\<lparr>pipePath := ?x, pipeName := ?y\<rparr>)" using m(1) e by (simp add: arrays_ok_def)
  ultimately show ?thesis using Some by (intro exI [of _ ?x] exI [of _ ?y]) simp
qed

lemma zero_mapping_arrays: "arrays_ok zero_mapping" "pipe_of zero_mapping = ''/''"
  using c_string_pad [of "[]" 160] c_string_pad [of "[]" 80]
  by (simp_all add: arrays_ok_def zero_mapping_def pipe_of_def)

text \<open>One mapping, when there is memory and room.\<close>

lemma parseMapping_fits:
  assumes n: "node_fits env n" and t: "table_ok ps s" "length ps < MAX_MAPPING_NUM" and w: "wf_world s"
    and k: "script s = Done # rs"
  shows "\<exists>p m s'. parseMapping env n s = (Some (), s') \<and> table_ok (ps @ [p]) s' \<and> mapping_of env n (length ps) m \<and>
    mappings (app s') = (mappings (app s))(p \<mapsto> m) \<and> p \<notin> heap s \<and> heap s' = insert p (heap s) \<and> wf_world s' \<and>
    script s' = rs \<and> faults s' = faults s \<and> fds s' = fds s \<and> threads s' = threads s \<and>
    g_inotifyFd (app s') = g_inotifyFd (app s) \<and> g_ipcDgramhandle (app s') = g_ipcDgramhandle (app s) \<and>
    xml_docs (app s') = xml_docs (app s) \<and> logs (app s') = logs (app s)"
proof -
  let ?u = "s\<lparr>script := rs, heap := insert (brk s) (heap s), brk := Suc (brk s)\<rparr>"
  have b: "0 < brk s" "brk s \<notin> heap s" using w by (auto simp: wf_world_def)
  have u: "wf_world ?u" using w by (auto simp: wf_world_def)
  let ?m1 = "case tag_text env TAG_NAME_PORT n of None \<Rightarrow> zero_mapping
    | Some t \<Rightarrow> zero_mapping\<lparr>tcpPort := word_of_int (atoi t)\<rparr>"
  have m1: "arrays_ok ?m1" "pipe_of ?m1 = ''/''"
    using zero_mapping_arrays by (simp_all add: arrays_ok_def pipe_of_def split: option.split)
  from n have f: "find_tag TAG_NAME_PORT n \<noteq> None \<longrightarrow> tag_text env TAG_NAME_PORT n \<noteq> None"
    "find_tag TAG_NAME_PIPE n \<noteq> None \<longrightarrow> tag_text env TAG_NAME_PIPE n \<noteq> None"
    "find_tag TAG_NAME_DESC n \<noteq> None \<longrightarrow> tag_text env TAG_NAME_DESC n \<noteq> None"
    "\<forall>t. tag_text env TAG_NAME_PIPE n = Some t \<longrightarrow> path_fits (removeSpace t)" by (simp_all add: node_fits_def)
  obtain x y where m2: "parseTagPipe env n ?m1 ?u = (Some (?m1\<lparr>pipePath := x, pipeName := y\<rparr>), ?u)"
    "arrays_ok (?m1\<lparr>pipePath := x, pipeName := y\<rparr>)"
    "pipe_of (?m1\<lparr>pipePath := x, pipeName := y\<rparr>) =
      (case tag_text env TAG_NAME_PIPE n of None \<Rightarrow> ''/'' | Some t \<Rightarrow> removeSpace t)"
    using parseTagPipe_text [OF f(2,4) m1] by blast
  let ?m2 = "?m1\<lparr>pipePath := x, pipeName := y\<rparr>"
  let ?m3 = "case tag_text env TAG_NAME_DESC n of None \<Rightarrow> ?m2
    | Some t \<Rightarrow> ?m2\<lparr>descript := strncpy_buf 79 (removeSpace t) (descript ?m2)\<rparr>"
  let ?m = "?m3\<lparr>wd := -1, index := int (length ps)\<rparr>"
  let ?s = "set_app (\<lambda>g. g\<lparr>g_pMapping := (g_pMapping g)[g_mappingNum g := brk s],
      mappings := (mappings g)(brk s \<mapsto> ?m3\<lparr>wd := -1, index := int (g_mappingNum g)\<rparr>),
      g_mappingNum := g_mappingNum g + 1\<rparr>) ?u"
  have g: "g_mappingNum (app s) = length ps" using t(1) by (simp add: table_ok_def)
  have "parseMapping env n s = (Some (), ?s)"
    using b(1) k m2(1) parseTagPort_text [OF f(1), of zero_mapping ?u] parseTagDesc_text [OF f(3), of ?m2 ?u]
    by (simp add: parseMapping_def c_malloc_def pop_def del: set_app_sel)
  moreover have "table_ok (ps @ [brk s]) ?s"
  proof -
    have r: "replicate (MAX_MAPPING_NUM - length ps) NULL = NULL # replicate (MAX_MAPPING_NUM - length (ps @ [brk s])) NULL"
      using t(2) by (simp add: Suc_diff_Suc flip: replicate_Suc)
    have "g_pMapping (app ?s) = (ps @ [brk s]) @ replicate (MAX_MAPPING_NUM - length (ps @ [brk s])) NULL"
      using t(1) r by (simp add: table_ok_def list_update_append)
    moreover have "brk s \<notin> set ps" using t(1) b(2) by (auto simp: table_ok_def)
    ultimately show ?thesis using t b(1) by (auto simp: table_ok_def)
  qed
  moreover have "mapping_of env n (length ps) ?m"
    using m2(2,3) by (simp add: mapping_of_def arrays_ok_def pipe_of_def zero_mapping_def split: option.splits)
  ultimately show ?thesis
    using b u g by (intro exI [of _ "brk s"] exI [of _ ?m] exI [of _ ?s]) simp
qed

lemma getAttribute_some: "enable_of n = Some v \<Longrightarrow> getAttribute n ATT_NAME_ENABLE s = (Some v, s)"
  by (auto simp: enable_of_def getAttribute_def split: option.splits)

lemma getAttribute_none:
  "enable_of n = None \<Longrightarrow> \<exists>str. getAttribute n ATT_NAME_ENABLE s = (None, PRINT str s)"
  by (auto simp: enable_of_def getAttribute_def split: option.splits)

text \<open>Reading \<open>qs\<close> more mappings into the table, from the elements \<open>ns\<close>, changes nothing else.\<close>

definition reads :: "conf_env \<Rightarrow> addr list \<Rightarrow> xml_node list \<Rightarrow> addr list \<Rightarrow> nptp world \<Rightarrow> nptp world \<Rightarrow> bool" where
  "reads env ps ns qs s s' \<longleftrightarrow> table_ok (ps @ qs) s' \<and> length qs = length ns \<and> wf_world s' \<and>
     (\<forall>i<length ns. \<exists>m. mappings (app s') (qs ! i) = Some m \<and> mapping_of env (ns ! i) (length ps + i) m) \<and>
     (\<forall>p\<in>set ps. mappings (app s') p = mappings (app s) p) \<and>
     heap s' = set qs \<union> heap s \<and> set qs \<inter> heap s = {} \<and> faults s' = faults s \<and> fds s' = fds s \<and>
     threads s' = threads s \<and> g_inotifyFd (app s') = g_inotifyFd (app s) \<and>
     g_ipcDgramhandle (app s') = g_ipcDgramhandle (app s) \<and> xml_docs (app s') = xml_docs (app s) \<and>
     logs (app s') = logs (app s)"

lemma reads_Nil: "table_ok ps s \<Longrightarrow> wf_world s \<Longrightarrow> reads env ps [] [] s s"
  by (simp add: reads_def)

lemma reads_Cons:
  assumes m: "mapping_of env n (length ps) m" "mappings (app t) = (mappings (app s))(p \<mapsto> m)"
    and h: "p \<notin> heap s" "heap t = insert p (heap s)" "set ps \<subseteq> heap s"
    and e: "faults t = faults s" "fds t = fds s" "threads t = threads s"
      "g_inotifyFd (app t) = g_inotifyFd (app s)" "g_ipcDgramhandle (app t) = g_ipcDgramhandle (app s)"
      "xml_docs (app t) = xml_docs (app s)" "logs (app t) = logs (app s)"
    and r: "reads env (ps @ [p]) ns qs t s'"
  shows "reads env ps (n # ns) (p # qs) s s'"
proof -
  have "\<exists>m. mappings (app s') ((p # qs) ! i) = Some m \<and> mapping_of env ((n # ns) ! i) (length ps + i) m"
    if "i < length (n # ns)" for i
  proof (cases i)
    case 0
    have "mappings (app s') p = mappings (app t) p" using r by (simp add: reads_def)
    with 0 m show ?thesis by simp
  next
    case (Suc j)
    then have "j < length ns" using that by simp
    with r have "\<exists>m. mappings (app s') (qs ! j) = Some m \<and> mapping_of env (ns ! j) (length (ps @ [p]) + j) m"
      unfolding reads_def by blast
    with Suc show ?thesis by simp
  qed
  moreover have "mappings (app s') q = mappings (app s) q" if "q \<in> set ps" for q
  proof -
    have "q \<noteq> p" using that h by auto
    with r that m(2) show ?thesis by (simp add: reads_def)
  qed
  moreover have "table_ok (ps @ p # qs) s'" "length qs = length ns" "wf_world s'" "heap s' = set qs \<union> insert p (heap s)"
    "set qs \<inter> insert p (heap s) = {}" "faults s' = faults s" "fds s' = fds s" "threads s' = threads s"
    "g_inotifyFd (app s') = g_inotifyFd (app s)" "g_ipcDgramhandle (app s') = g_ipcDgramhandle (app s)"
    "xml_docs (app s') = xml_docs (app s)" "logs (app s') = logs (app s)"
    using r h e by (simp_all add: reads_def)
  ultimately show ?thesis using h(1) by (simp add: reads_def Un_insert_right)
qed

lemma parseTagMapping_reads:
  "\<forall>n\<in>set ns. is_mapping n \<longrightarrow> enable_of n \<noteq> None \<Longrightarrow> \<forall>n\<in>set ns. enabled n \<longrightarrow> node_fits env n \<Longrightarrow>
   table_ok ps s \<Longrightarrow> wf_world s \<Longrightarrow> k = min (MAX_MAPPING_NUM - length ps) (length (filter enabled ns)) \<Longrightarrow>
   script s = replicate k Done @ rs \<Longrightarrow>
   \<exists>qs s'. parseTagMapping env ns s = (Some (), s') \<and> reads env ps (take k (filter enabled ns)) qs s s' \<and> script s' = rs"
proof (induction ns arbitrary: ps s k)
  case Nil
  then show ?case using reads_Nil [of ps s env] by (intro exI [of _ "[]"] exI [of _ s]) simp
next
  case (Cons n ns)
  show ?case
  proof (cases "enabled n")
    case False
    have step: "parseTagMapping env (n # ns) s = parseTagMapping env ns s"
    proof (cases "is_mapping n")
      case True
      with Cons.prems(1) obtain v where v: "enable_of n = Some v" by auto
      with True False have "atoi v = 0" by (simp add: enabled_def)
      with v True show ?thesis by (simp add: is_mapping_def getAttribute_some)
    next
      case False
      then show ?thesis by (auto simp: is_mapping_def)
    qed
    from False Cons.prems Cons.IH [of ps s k] show ?thesis unfolding step by simp
  next
    case True
    then obtain v where v: "is_mapping n" "enable_of n = Some v" "atoi v \<noteq> 0" by (auto simp: enabled_def)
    have g: "g_mappingNum (app s) = length ps" "set ps \<subseteq> heap s" using Cons.prems(3) by (simp_all add: table_ok_def)
    show ?thesis
    proof (cases "length ps < MAX_MAPPING_NUM")
      case False
      then have "parseTagMapping env (n # ns) s = parseTagMapping env ns s" "k = 0"
        using v g Cons.prems(5) by (simp_all add: is_mapping_def getAttribute_some)
      with False Cons.prems Cons.IH [of ps s 0] show ?thesis by simp
    next
      case room: True
      have k: "k = Suc (min (MAX_MAPPING_NUM - Suc (length ps)) (length (filter enabled ns)))"
        using Cons.prems(5) True room by (simp add: Suc_diff_Suc flip: min_Suc_Suc)
      let ?l = "min (MAX_MAPPING_NUM - Suc (length ps)) (length (filter enabled ns))"
      have sc: "script s = Done # replicate ?l Done @ rs" using Cons.prems(6) unfolding k by simp
      from Cons.prems(2) True have "node_fits env n" by simp
      from parseMapping_fits [OF this Cons.prems(3) room Cons.prems(4) sc] obtain p m t where
        t: "parseMapping env n s = (Some (), t)" "table_ok (ps @ [p]) t" "mapping_of env n (length ps) m"
        "mappings (app t) = (mappings (app s))(p \<mapsto> m)" "p \<notin> heap s" "heap t = insert p (heap s)" "wf_world t"
        "script t = replicate ?l Done @ rs" "faults t = faults s" "fds t = fds s" "threads t = threads s"
        "g_inotifyFd (app t) = g_inotifyFd (app s)" "g_ipcDgramhandle (app t) = g_ipcDgramhandle (app s)"
        "xml_docs (app t) = xml_docs (app s)" "logs (app t) = logs (app s)" by blast
      from Cons.IH [of "ps @ [p]" t ?l] Cons.prems(1,2) t(2,7,8) obtain qs s' where
        r: "parseTagMapping env ns t = (Some (), s')" "reads env (ps @ [p]) (take ?l (filter enabled ns)) qs t s'"
        "script s' = rs" by auto
      have "parseTagMapping env (n # ns) s = (Some (), s')"
        using v g room t(1) r(1) by (simp add: is_mapping_def getAttribute_some)
      moreover have "reads env ps (take k (filter enabled (n # ns))) (p # qs) s s'"
        using reads_Cons [OF t(3-6) g(2) t(9-15) r(2)] True by (simp add: k)
      ultimately show ?thesis using r(3) by blast
    qed
  qed
qed

text \<open>A whole document.\<close>

lemma xml_init_reads:
  assumes d: "xmlReadFile env = Some (Some root)" "\<forall>n\<in>set (children root). is_mapping n \<longrightarrow> enable_of n \<noteq> None"
    "\<forall>n\<in>set (children root). enabled n \<longrightarrow> node_fits env n"
    and t: "table_ok [] s" "wf_world s" and sc: "script s = replicate k Done @ rs"
    and k: "k = min MAX_MAPPING_NUM (length (filter enabled (children root)))"
  shows "\<exists>qs s'. xml_init env s = (Some 0, s') \<and> reads env [] (take k (filter enabled (children root))) qs s s' \<and>
    script s' = rs"
proof -
  let ?s = "set_app (\<lambda>g. g\<lparr>xml_docs := xml_docs g + 1\<rparr>) s"
  have "table_ok [] ?s" "wf_world ?s" "script ?s = replicate k Done @ rs"
    "k = min (MAX_MAPPING_NUM - length []) (length (filter enabled (children root)))"
    using t sc k by (simp_all add: table_ok_def)
  from parseTagMapping_reads [OF d(2,3) this(1,2,4,3)] obtain qs s' where
    r: "parseTagMapping env (children root) ?s = (Some (), s')"
    "reads env [] (take k (filter enabled (children root))) qs ?s s'" "script s' = rs" by blast
  let ?t = "set_app (\<lambda>g. g\<lparr>xml_docs := xml_docs g - 1\<rparr>) s'"
  have "xml_init env s = (Some 0, ?t)" using d(1) r(1) by (simp add: xml_init_def)
  moreover have "reads env [] (take k (filter enabled (children root))) qs s ?t"
    using r(2) by (simp add: reads_def table_ok_def)
  ultimately show ?thesis using r(3) by (intro exI [of _ qs] exI [of _ ?t]) simp
qed

section \<open>Properties\<close>

text \<open>
  C11. Reading a configuration. When every \<^verbatim>\<open>MAPPING\<close> element says whether it is enabled, the enabled
  ones have text that fits the arrays, and there is memory, then after \<^verbatim>\<open>xml_init\<close> the table holds
  the first 64 enabled elements in the order of the document, each in a block of its own and with
  its position, its port (modulo 65536), the path of its pipe and its description; nothing of the
  document is left.
\<close>

theorem nptp_config_table:
  assumes d: "xmlReadFile env = Some (Some root)" "\<forall>n\<in>set (children root). is_mapping n \<longrightarrow> enable_of n \<noteq> None"
    "\<forall>n\<in>set (children root). enabled n \<longrightarrow> node_fits env n"
    and t: "table_ok [] s" "wf_world s"
    and k: "k = min 64 (length (filter enabled (children root)))" "script s = replicate k Done @ rs"
  shows "\<exists>qs s'. xml_init env s = (Some 0, s') \<and> g_mappingNum (app s') = k \<and> length qs = k \<and> distinct qs \<and>
    g_pMapping (app s') = qs @ replicate (64 - k) NULL \<and> set qs \<inter> heap s = {} \<and> heap s' = set qs \<union> heap s \<and>
    (\<forall>i<k. \<exists>m. mappings (app s') (qs ! i) = Some m \<and> mapping_of env (filter enabled (children root) ! i) i m) \<and>
    faults s' = faults s \<and> xml_docs (app s') = xml_docs (app s)"
proof -
  from xml_init_reads [OF d t k(2)] k(1) obtain qs s' where r: "xml_init env s = (Some 0, s')"
    "reads env [] (take k (filter enabled (children root))) qs s s'" by (auto simp: MAX_MAPPING_NUM_def)
  moreover have l: "length qs = k" using r(2) k(1) by (simp add: reads_def)
  moreover have "g_mappingNum (app s') = k" "distinct qs" "g_pMapping (app s') = qs @ replicate (64 - k) NULL"
    "set qs \<inter> heap s = {}" "heap s' = set qs \<union> heap s" "faults s' = faults s" "xml_docs (app s') = xml_docs (app s)"
    using r(2) l by (simp_all add: reads_def table_ok_def MAX_MAPPING_NUM_def)
  moreover have "\<forall>i<k. \<exists>m. mappings (app s') (qs ! i) = Some m \<and> mapping_of env (filter enabled (children root) ! i) i m"
    using r(2) k(1) by (auto simp: reads_def)
  ultimately show ?thesis by (intro exI [of _ qs] exI [of _ s']) blast
qed

theorem nptp_config_table_witness:
  "\<exists>qs s'. xml_init \<lparr>xmlReadFile = Some (Some (Node XML_ELEMENT_NODE ''NPTP'' []
        [Node XML_ELEMENT_NODE ''MAPPING'' [(''enable'', Some ''1'')]
          [Node XML_ELEMENT_NODE ''PORT'' [] [], Node XML_ELEMENT_NODE ''PIPE'' [] []],
         Node XML_ELEMENT_NODE ''MAPPING'' [(''enable'', Some ''0'')] []])),
      xmlNodeGetContent = (\<lambda>n. Some (if node_name n = ''PORT'' then ''9001'' else '' /run/a.sock'')),
      getcwd = (\<lambda>n buf. buf)\<rparr> (boot nptp_start [Done]) = (Some 0, s') \<and>
    g_mappingNum (app s') = 1 \<and> (\<exists>m. mappings (app s') (qs ! 0) = Some m \<and> tcpPort m = 9001 \<and> pipe_of m = ''/run/a.sock'')"
proof -
  let ?n = "Node XML_ELEMENT_NODE ''MAPPING'' [(''enable'', Some ''1'')]
      [Node XML_ELEMENT_NODE ''PORT'' [] [], Node XML_ELEMENT_NODE ''PIPE'' [] []]"
  let ?o = "Node XML_ELEMENT_NODE ''MAPPING'' [(''enable'', Some ''0'')] []"
  let ?root = "Node XML_ELEMENT_NODE ''NPTP'' [] [?n, ?o]"
  let ?env = "\<lparr>xmlReadFile = Some (Some ?root),
      xmlNodeGetContent = (\<lambda>n. Some (if node_name n = ''PORT'' then ''9001'' else '' /run/a.sock'')),
      getcwd = (\<lambda>n buf. buf)\<rparr>"
  have a: "atoi ''1'' = 1" "atoi ''0'' = 0" "atoi ''9001'' = 9001"
    by (simp_all add: atoi_def strtol_def is_space_def dec_value_def is_digit_def signed_take_bit_eq_if_positive)
  have e: "enable_of ?n = Some ''1''" "enable_of ?o = Some ''0''" by (simp_all add: enable_of_def ATT_NAME_ENABLE_def)
  then have en: "enabled ?n" "\<not> enabled ?o" using a by (simp_all add: enabled_def is_mapping_def TAG_NAME_MAPPING_def)
  have p: "removeSpace '' /run/a.sock'' = ''/run/a.sock''" by (simp add: removeSpace_eq)
  have x: "tag_text ?env TAG_NAME_PORT ?n = Some ''9001''" "tag_text ?env TAG_NAME_PIPE ?n = Some '' /run/a.sock''"
    "find_tag TAG_NAME_DESC ?n = None"
    by (simp_all add: tag_text_def find_tag_def TAG_NAME_PORT_def TAG_NAME_PIPE_def TAG_NAME_DESC_def)
  have "node_fits ?env ?n" unfolding node_fits_def x by (auto simp: x p path_fits_def)
  moreover have "table_ok [] (boot nptp_start [Done])"
    by (simp add: table_ok_def nptp_start_def)
  ultimately show ?thesis
    using nptp_config_table [of ?env ?root "boot nptp_start [Done]" 1 "[]"] en e x a p
    by (force simp: mapping_of_def)
qed

lemma parseMapping_dies:
  "fst (parseMapping env n s) = None \<Longrightarrow> Null_Deref \<in> set (faults (snd (parseMapping env n s)))"
  by (auto simp: parseMapping_def parseTagPort_def parseTagPipe_def parseTagDesc_def die_def Let_def
      split: prod.splits option.splits if_splits)
    
lemma parseTagMapping_dies:
  assumes "n \<in> set ns" "is_mapping n" "enable_of n = None"
  shows "fst (parseTagMapping env ns s) = None \<and> Null_Deref \<in> set (faults (snd (parseTagMapping env ns s)))"
  using assms(1)
proof (induction ns arbitrary: s)
  case Nil
  then show ?case by simp
next
  case (Cons x ns)
  show ?case
  proof (cases "is_mapping x \<and> enable_of x = None")
    case True
    with getAttribute_none [of x s] show ?thesis by (auto simp: is_mapping_def die_def)
  next
    case False
    with Cons.prems assms(2,3) have IH: "fst (parseTagMapping env ns u) = None \<and>
        Null_Deref \<in> set (faults (snd (parseTagMapping env ns u)))" for u using Cons.IH by auto
    show ?thesis
    proof (cases "is_mapping x")
      case False
      with IH show ?thesis by (auto simp: is_mapping_def)
    next
      case True
      with False obtain v where "enable_of x = Some v" by auto
      moreover obtain r t where "parseMapping env x s = (r, t)" by fastforce
      ultimately show ?thesis using True IH [of s] IH [of t] parseMapping_dies [of env x s]
        by (cases r) (auto simp: is_mapping_def getAttribute_some)
    qed
  qed
qed

text \<open>
  C20. A \<^verbatim>\<open>MAPPING\<close> element without a value for \<^verbatim>\<open>enable\<close>, anywhere in the document, crashes the
  program: the missing value is a null pointer, which \<^verbatim>\<open>atoi\<close> reads.
\<close>

theorem nptp_config_missing_enable:
  assumes "xmlReadFile env = Some (Some root)" "n \<in> set (children root)" "is_mapping n" "enable_of n = None"
  shows "fst (xml_init env s) = None \<and> Null_Deref \<in> set (faults (snd (xml_init env s)))"
proof -
  let ?s = "set_app (\<lambda>g. g\<lparr>xml_docs := xml_docs g + 1\<rparr>) s"
  obtain t where "parseTagMapping env (children root) ?s = (None, t)" "Null_Deref \<in> set (faults t)"
    using parseTagMapping_dies [OF assms(2-4), of env ?s] by (cases "parseTagMapping env (children root) ?s") auto
  with assms(1) show ?thesis by (simp add: xml_init_def)
qed

theorem nptp_config_missing_enable_witness:
  "fst (xml_init \<lparr>xmlReadFile = Some (Some (Node XML_ELEMENT_NODE ''NPTP'' [] [Node XML_ELEMENT_NODE ''MAPPING'' [] []])),
      xmlNodeGetContent = (\<lambda>n. Some []), getcwd = (\<lambda>n buf. buf)\<rparr> (boot nptp_start [])) = None"
  using nptp_config_missing_enable [of "\<lparr>xmlReadFile = Some (Some (Node XML_ELEMENT_NODE ''NPTP'' []
      [Node XML_ELEMENT_NODE ''MAPPING'' [] []])), xmlNodeGetContent = (\<lambda>n. Some []), getcwd = (\<lambda>n buf. buf)\<rparr>"
      "Node XML_ELEMENT_NODE ''NPTP'' [] [Node XML_ELEMENT_NODE ''MAPPING'' [] []]"
      "Node XML_ELEMENT_NODE ''MAPPING'' [] []" "boot nptp_start []"]
  by (simp add: is_mapping_def TAG_NAME_MAPPING_def enable_of_def)

text \<open>
  C18. Splitting the path of a pipe stays within the arrays exactly when the path has at most 160
  characters, of which at most 79 come after the last slash; nothing checks that.
\<close>

theorem nptp_path_bounds:
  assumes "decomposePathName env pIn pPath pName s = (x, y, s')" "length pPath = 160" "length pName = 80"
    "CHR 0x00 \<notin> set pIn" "faults s = []"
  shows "faults s' = [] \<longleftrightarrow> length pIn \<le> 160 \<and>
    (CHR ''/'' \<in> set pIn \<longrightarrow> length (takeWhile (\<lambda>c. c \<noteq> CHR ''/'') (rev pIn)) < 80)"
proof (cases "length pIn \<le> 160")
  case False
  with path_loop_out [of 0 pPath pIn "-1" s] assms(2) decomposePathName_faults [OF assms(1)] show ?thesis by auto
next
  case True
  have 1: "path_loop 0 pIn (-1) (pPath, s) = (last_slash 0 pIn (-1), pIn @ drop (length pIn) pPath, s)"
    using path_loop_eq [of 0 pIn pPath "-1" s] True assms(2) by simp
  show ?thesis
  proof (cases "CHR ''/'' \<in> set pIn")
    case False
    with assms(1,5) True 1 last_slash_none [OF False] show ?thesis by (simp add: decomposePathName_def)
  next
    case slash: True
    then obtain xs ys where r: "rev pIn = xs @ CHR ''/'' # ys" "CHR ''/'' \<notin> set xs" by (metis set_rev split_list_first)
    then have p: "pIn = rev ys @ CHR ''/'' # rev xs" by (simp add: rev_swap)
    have t: "takeWhile (\<lambda>c. c \<noteq> CHR ''/'') (rev pIn) = xs" using r by (simp add: takeWhile_tail) (metis takeWhile_eq_all_conv)
    show ?thesis
    proof (cases "length xs < 80")
      case True
      with path_fits_split [of pIn] slash assms(4) \<open>length pIn \<le> 160\<close> t obtain dir base where
        d: "pIn = dir @ CHR ''/'' # base" "CHR ''/'' \<notin> set base" "CHR 0x00 \<notin> set dir" "CHR 0x00 \<notin> set base"
        "length dir + 1 + length base \<le> 160" "length base < 80" by (metis path_fits_def)
      with decomposePathName_fits [OF d(2-4), of pPath pName env s] assms True t \<open>length pIn \<le> 160\<close> show ?thesis
        by auto
    next
      case False
      have l: "last_slash 0 pIn (-1) = int (length ys)" using last_slash_split [of "rev xs" 0 "rev ys" "-1"] r(2) p by simp
      obtain b u where b: "put_char (length ys) (CHR 0x00) (pIn @ drop (length pIn) pPath, s) = (b, u)" by fastforce
      obtain b3 u3 where 3: "put_chars 0 (rev xs) (pName, u) = (b3, u3)" by fastforce
      obtain b4 u4 where 4: "put_char (length xs) (CHR 0x00) (b3, u3) = (b4, u4)" by fastforce
      have s': "s' = u4" using assms(1) 1 l b 3 4 by (simp add: decomposePathName_def p)
      have l3: "length b3 = 80" using put_chars_faults [of u 0 "rev xs" pName] 3 assms(3) by simp
      have "faults u4 \<noteq> []" using put_char_out [of b3 "length xs" "CHR 0x00" u3] False l3 4 by auto
      with s' True False t slash show ?thesis by simp
    qed
  qed
qed

theorem nptp_path_bounds_witness:
  "\<exists>x y s'. decomposePathName \<lparr>xmlReadFile = None, xmlNodeGetContent = (\<lambda>n. None), getcwd = (\<lambda>n buf. buf)\<rparr>
      (''/'' @ replicate 100 (CHR ''x'')) (pipePath zero_mapping) (pipeName zero_mapping) (boot () []) = (x, y, s') \<and>
    faults s' \<noteq> []"
proof -
  let ?env = "\<lparr>xmlReadFile = None, xmlNodeGetContent = (\<lambda>n. None), getcwd = (\<lambda>n buf. buf)\<rparr>"
  let ?p = "''/'' @ replicate 100 (CHR ''x'')"
  obtain x y s' where d: "decomposePathName ?env ?p (pipePath zero_mapping) (pipeName zero_mapping) (boot () []) = (x, y, s')"
    by (metis prod_cases3)
  have "takeWhile (\<lambda>c. c \<noteq> CHR ''/'') (rev ?p) = replicate 100 (CHR ''x'')"
    by (simp add: takeWhile_append)
  with nptp_path_bounds [OF d] d show ?thesis by (simp add: zero_mapping_def)
qed

end
