(* ===== verification/Nptp_Proxy.thy ===== *)
theory Nptp_Proxy
  imports Nptp_Config
begin

text \<open>
  \<^verbatim>\<open>application/nptp_proxy.c\<close>: for each mapping a TCP server for one client and a UNIX domain stream
  client, connected to the named pipe; what arrives on one side is sent on the other.
\<close>

section \<open>Callbacks\<close>

text \<open>The addresses of the callbacks; all that matters is that they differ and are not null.\<close>

definition p_tcpIpv4AcptFunc :: fptr where "p_tcpIpv4AcptFunc = 1"
definition p_tcpIpv4ExitFunc :: fptr where "p_tcpIpv4ExitFunc = 2"
definition p_tcpIpv4RecvFunc :: fptr where "p_tcpIpv4RecvFunc = 3"
definition p_ipcStreamExitFunc :: fptr where "p_ipcStreamExitFunc = 4"
definition p_ipcStreamRecvFunc :: fptr where "p_ipcStreamRecvFunc = 5"

lemmas proxy_pointers = p_tcpIpv4AcptFunc_def p_tcpIpv4ExitFunc_def p_tcpIpv4RecvFunc_def p_ipcStreamExitFunc_def
  p_ipcStreamRecvFunc_def

definition tcpIpv4AcptFunc :: "addr \<Rightarrow> addr \<Rightarrow> nptp world \<Rightarrow> nptp world" where
  "tcpIpv4AcptFunc arg pUser s = on_mapping arg (\<lambda>m. m\<lparr>tcpConnect := 1, pTcpUser := pUser\<rparr>) s"

definition tcpIpv4ExitFunc :: "addr \<Rightarrow> addr \<Rightarrow> nptp world \<Rightarrow> nptp world" where
  "tcpIpv4ExitFunc arg pUser s = on_mapping arg (\<lambda>m. m\<lparr>tcpConnect := 0, pTcpUser := NULL\<rparr>) s"

definition tcpIpv4RecvFunc :: "addr \<Rightarrow> addr \<Rightarrow> u8 list \<Rightarrow> u16 \<Rightarrow> nptp world \<Rightarrow> nptp world" where
  "tcpIpv4RecvFunc arg pUser pData dataSize s = (case mappings (app s) arg of
       None \<Rightarrow> fault (Use_After_Free arg) s
     | Some m \<Rightarrow> snd (comm_ipcStreamClientSend (ipcStreamHandle m) (Some pData) dataSize s))"

definition ipcStreamExitFunc :: "addr \<Rightarrow> int \<Rightarrow> nptp world \<Rightarrow> nptp world" where
  "ipcStreamExitFunc arg code s = on_mapping arg (\<lambda>m. m\<lparr>pipeConnect := 0\<rparr>) s"

definition ipcStreamRecvFunc :: "addr \<Rightarrow> u8 list \<Rightarrow> u16 \<Rightarrow> nptp world \<Rightarrow> nptp world" where
  "ipcStreamRecvFunc arg pData dataSize s = (case mappings (app s) arg of
       None \<Rightarrow> fault (Use_After_Free arg) s
     | Some m \<Rightarrow>
         if pTcpUser m \<noteq> NULL
         then snd (comm_tcpIpv4ServerSend (pTcpUser m) (tcpUsers m) (Some pData) dataSize s)
         else s)"

section \<open>The TCP side\<close>

definition proxy_launchTcp :: "addr \<Rightarrow> nptp world \<Rightarrow> int \<times> nptp world" where
  "proxy_launchTcp p s = (case mappings (app s) p of
       None \<Rightarrow> (-1, fault (Use_After_Free p) s)
     | Some m \<Rightarrow>
         let (handle, s) = comm_tcpIpv4ServerInit (tcpPort m) 1 p_tcpIpv4AcptFunc p_tcpIpv4ExitFunc
               p_tcpIpv4RecvFunc p s in
         if handle = None
         then (-1, on_mapping p (\<lambda>m. m\<lparr>tcpServerHandle := None\<rparr>)
                (PRINT (''ERR: comm_tcpIpv4ServerInit'' @ newline) s))
         else (0, on_mapping p (\<lambda>m. m\<lparr>tcpServerHandle := handle\<rparr>) s))"

definition proxy_ceaseTcp :: "addr \<Rightarrow> nptp world \<Rightarrow> nptp world" where
  "proxy_ceaseTcp p s = (case mappings (app s) p of
       None \<Rightarrow> fault (Use_After_Free p) s
     | Some m \<Rightarrow>
         let (us, s) = comm_tcpIpv4ServerUninit (tcpServerHandle m) (tcpUsers m) s
         in on_mapping p (\<lambda>m. m\<lparr>tcpUsers := us, tcpServerHandle := None, tcpConnect := 0, pTcpUser := NULL\<rparr>) s)"

section \<open>The pipe side\<close>

text \<open>
  The name of the own socket and that of the pipe are written into arrays of 256 characters. The
  old handle is gone before the new one is made.
\<close>

definition proxy_connectIpc :: "addr \<Rightarrow> nptp world \<Rightarrow> int \<times> nptp world" where
  "proxy_connectIpc p s = (case mappings (app s) p of
       None \<Rightarrow> (-1, fault (Use_After_Free p) s)
     | Some m \<Rightarrow>
         let s = (if ipcStreamHandle m \<noteq> None then comm_ipcStreamClientUninit (ipcStreamHandle m) s else s);
             (clientPath, s) = c_strcpy 256 (IPC_STREAM_FILE_PATH @ fmt_d (index m)) s;
             (handle, s) = comm_ipcStreamClientInit clientPath p_ipcStreamRecvFunc p_ipcStreamExitFunc p s in
         if handle = None
         then (-1, on_mapping p (\<lambda>m. m\<lparr>ipcStreamHandle := None\<rparr>)
                (PRINT (''ERR: comm_ipcStreamClientInit'' @ newline) s))
         else
           let s = on_mapping p (\<lambda>m. m\<lparr>ipcStreamHandle := handle\<rparr>) s;
               (path, s) = read_chars (pipePath m) s;
               (nam, s) = read_chars (pipeName m) s;
               (serverPath, s) = c_strcpy 256 (path @ ''/'' @ nam) s in
           if sys_access serverPath s = 0
           then
             let (error, handle, s) = comm_ipcStreamClientConnect handle serverPath s;
                 s = on_mapping p (\<lambda>m. m\<lparr>ipcStreamHandle := handle\<rparr>) s in
             if error \<noteq> 0
             then (0, on_mapping p (\<lambda>m. m\<lparr>pipeConnect := 0\<rparr>)
                    (PRINT (''WRN: comm_ipcStreamClientConnect'' @ newline) s))
             else (0, on_mapping p (\<lambda>m. m\<lparr>pipeConnect := 1\<rparr>) s)
           else (0, s))"

definition proxy_disconnectIpc :: "addr \<Rightarrow> nptp world \<Rightarrow> nptp world" where
  "proxy_disconnectIpc p s = (case mappings (app s) p of
       None \<Rightarrow> fault (Use_After_Free p) s
     | Some m \<Rightarrow> on_mapping p (\<lambda>m. m\<lparr>ipcStreamHandle := None, pipeConnect := 0\<rparr>)
         (comm_ipcStreamClientUninit (ipcStreamHandle m) s))"

section \<open>All mappings\<close>

fun proxy_init_loop :: "addr list \<Rightarrow> nptp world \<Rightarrow> int \<times> nptp world" where
  "proxy_init_loop [] s = (0, s)"
| "proxy_init_loop (p # ps) s =
     (if p \<noteq> NULL
      then
        let (e, s) = proxy_launchTcp p s in
        if e \<noteq> 0 then (-1, s)
        else
          let (e, s) = proxy_connectIpc p s in
          if e \<noteq> 0 then (-1, s) else proxy_init_loop ps s
      else proxy_init_loop ps s)"

definition proxy_init :: "nptp world \<Rightarrow> int \<times> nptp world" where
  "proxy_init s = proxy_init_loop (table_list (app s)) s"

definition proxy_uninit :: "nptp world \<Rightarrow> nptp world" where
  "proxy_uninit s =
     fold (\<lambda>p s. if p \<noteq> NULL then proxy_ceaseTcp p (proxy_disconnectIpc p s) else s) (table_list (app s)) s"

end
