(* ===== verification/Nptp_Event.thy ===== *)
theory Nptp_Event
  imports Nptp_Proxy
begin

text \<open>
  \<^verbatim>\<open>application/nptp_event.c\<close>: the directories of the pipes are watched, and when a pipe is created
  the mapping with its name is connected. Events come as a sequence of records of bytes: the
  watch, a mask, a cookie, the length of the name (each 4 bytes), and the name, padded with NULs.
\<close>

section \<open>The events\<close>

definition EVENT_SIZE :: nat where "EVENT_SIZE = 16"
definition EVENT_BUFFER :: nat where "EVENT_BUFFER = (EVENT_SIZE + 16) * 1024"

definition event_len :: "u8 list \<Rightarrow> nat \<Rightarrow> nat" where
  "event_len buf j = unat (buf ! (j + 12)) + 256 * unat (buf ! (j + 13)) + 256 ^ 2 * unat (buf ! (j + 14)) +
     256 ^ 3 * unat (buf ! (j + 15))"

definition event_name :: "u8 list \<Rightarrow> nat \<Rightarrow> string" where
  "event_name buf j = c_string (map (\<lambda>b. char_of (unat b)) (drop (j + EVENT_SIZE) buf))"

text \<open>The first unconnected mapping with the name is connected; the watch is not compared.\<close>

definition event_match :: "string \<Rightarrow> nptp world \<Rightarrow> nptp world" where
  "event_match nam s =
     (case find (\<lambda>p. p \<noteq> NULL \<and> (case mappings (app s) p of None \<Rightarrow> False
               | Some m \<Rightarrow> pipeConnect m = 0 \<and> c_string (pipeName m) = nam)) (g_pMapping (app s)) of
        None \<Rightarrow> s
      | Some p \<Rightarrow> snd (proxy_connectIpc p s))"

function event_walk :: "u8 list \<Rightarrow> nat \<Rightarrow> nat \<Rightarrow> nptp world \<Rightarrow> nptp world" where
  "event_walk buf len j s =
     (if j < len then event_walk buf len (j + (EVENT_SIZE + event_len buf j)) (event_match (event_name buf j) s)
      else s)"
  by auto
termination by (relation "measure (\<lambda>(buf, len, j, s). len - j)") (auto simp: EVENT_SIZE_def)

declare event_walk.simps [simp del]

text \<open>One turn of the loop \<^verbatim>\<open>for (;;)\<close>.\<close>

definition eventBody :: "nptp world \<Rightarrow> flow \<times> nptp world" where
  "eventBody s =
     (let (len, bs, s) = sys_read (g_inotifyFd (app s)) EVENT_BUFFER s;
          buf = fill (replicate EVENT_BUFFER 0) bs
      in if len \<le> 0
         then if g_inotifyFd (app s) = -1 then (Break, s) else (Next, s)
         else (Next, event_walk buf (nat len) 0 s))"

definition event_monitor :: "nptp world \<Rightarrow> nptp world option" where
  "event_monitor s = map_option snd (c_while (\<lambda>s. True) eventBody s)"

section \<open>Watching\<close>

definition watch_mapping :: "addr \<Rightarrow> nptp world \<Rightarrow> nptp world" where
  "watch_mapping p s = (case mappings (app s) p of
       None \<Rightarrow> fault (Use_After_Free p) s
     | Some m \<Rightarrow>
         let (path, s) = read_chars (pipePath m) s;
             (k, s) = sys_inotify_add_watch (g_inotifyFd (app s)) path s
         in if k < 0 then s else on_mapping p (\<lambda>m. m\<lparr>wd := k\<rparr>) s)"

definition event_init :: "nptp world \<Rightarrow> int \<times> nptp world" where
  "event_init s =
     (let (n, s) = sys_inotify_init s;
          s = set_app (\<lambda>g. g\<lparr>g_inotifyFd := n\<rparr>) s
      in if n < 0 then (-1, s)
         else (0, fold (\<lambda>p s. if p \<noteq> NULL then watch_mapping p s else s) (table_list (app s)) s))"

definition unwatch_mapping :: "addr \<Rightarrow> nptp world \<Rightarrow> nptp world" where
  "unwatch_mapping p s = (case mappings (app s) p of
       None \<Rightarrow> fault (Use_After_Free p) s
     | Some m \<Rightarrow>
         if 0 \<le> wd m
         then on_mapping p (\<lambda>m. m\<lparr>wd := -1\<rparr>) (sys_inotify_rm_watch (g_inotifyFd (app s)) (wd m) s)
         else s)"

definition event_uninit :: "nptp world \<Rightarrow> nptp world" where
  "event_uninit s =
     (let s = fold (\<lambda>p s. if p \<noteq> NULL then unwatch_mapping p s else s) (table_list (app s)) s
      in if 0 \<le> g_inotifyFd (app s)
         then set_app (\<lambda>g. g\<lparr>g_inotifyFd := -1\<rparr>) (sys_close (g_inotifyFd (app s)) s)
         else s)"

end
