(* ===== verification/Nptp_Serv.thy ===== *)
theory Nptp_Serv
  imports Nptp_Event
begin

text \<open>
  \<^verbatim>\<open>application/nptp_serv.c\<close>: the service, its life cycle, its options and the commands it takes over a UNIX
  domain datagram socket. \<^verbatim>\<open>main\<close> itself, which works beside the other threads, is in \<open>Nptp_Main\<close>.
\<close>

section \<open>Commands\<close>

definition serv_line :: "tMapping \<Rightarrow> string" where
  "serv_line m =
     (let red = [CHR 0x1B] @ ''[1;31m''; normal = [CHR 0x1B] @ ''[0m'';
          mark = (\<lambda>b :: u8. if b \<noteq> 0 then ''*'' else ''-'')
      in fmt_u (unat (tcpPort m)) @ '':'' @ red @ mark (tcpConnect m) @ normal @ '' '' @ c_string (pipePath m) @ ''/'' @
         c_string (pipeName m) @ '':'' @ red @ mark (pipeConnect m) @ normal @ '' '' @ [CHR 0x22] @
         c_string (descript m) @ [CHR 0x22] @ newline)"

definition serv_list :: "nptp world \<Rightarrow> nptp world" where
  "serv_list s =
     (let s = PRINT newline s;
          s = fold (\<lambda>p s. if p \<noteq> NULL
                then (case mappings (app s) p of
                    None \<Rightarrow> fault (Use_After_Free p) s
                  | Some m \<Rightarrow> PRINT (serv_line m) s)
                else s) (table_list (app s)) s
      in PRINT newline s)"

text \<open>
  A command is the text in the received bytes; the code ends it with a NUL, for which the receive
  buffer has room.
\<close>

definition command_text :: "u8 list \<Rightarrow> string" where
  "command_text pData = c_string (map (\<lambda>b. char_of (unat b)) pData)"

definition p_ipcRecvFunc :: fptr where "p_ipcRecvFunc = 6"

definition ipcRecvFunc :: "addr \<Rightarrow> u8 list \<Rightarrow> u16 \<Rightarrow> string \<Rightarrow> nptp world \<Rightarrow> nptp world" where
  "ipcRecvFunc arg pData dataSize pPath s =
     (let cmd = command_text (take (unat dataSize) pData) in
      if cmd = ''help'' then PRINT (''service ready'' @ newline) s
      else if cmd = ''list'' then serv_list s
      else if cmd = ''exit'' then event_uninit s
      else if cmd = ''dump'' then
        let flag = comm_getDumpFlag (logs (app s)) in set_log (comm_setDumpFlag (flag XOR 1)) s
      else if cmd = ''0'' then set_log (comm_setLogMask LOG_MASK_NONE) s
      else if cmd = ''1'' then set_log (comm_setLogMask LOG_MASK_1) s
      else if cmd = ''2'' then set_log (comm_setLogMask LOG_MASK_2) s
      else if cmd = ''3'' then set_log (comm_setLogMask (LOG_MASK_1 OR LOG_MASK_2)) s
      else if cmd = ''4'' then set_log (comm_setLogMask LOG_MASK_3) s
      else if cmd = ''5'' then set_log (comm_setLogMask (LOG_MASK_1 OR LOG_MASK_3)) s
      else if cmd = ''6'' then set_log (comm_setLogMask (LOG_MASK_2 OR LOG_MASK_3)) s
      else if cmd = ''7'' then set_log (comm_setLogMask LOG_MASK_ALL) s
      else s)"

section \<open>The program as the library's application\<close>

fun nptp_app :: "nptp application" where
  "nptp_app (AcptCb f a u) s = (if f = p_tcpIpv4AcptFunc then tcpIpv4AcptFunc a u s else s)"
| "nptp_app (UserExitCb f a u) s = (if f = p_tcpIpv4ExitFunc then tcpIpv4ExitFunc a u s else s)"
| "nptp_app (UserRecvCb f a u bs n) s = (if f = p_tcpIpv4RecvFunc then tcpIpv4RecvFunc a u bs n s else s)"
| "nptp_app (ExitCb f a code) s = (if f = p_ipcStreamExitFunc then ipcStreamExitFunc a code s else s)"
| "nptp_app (RecvCb f a bs n) s = (if f = p_ipcStreamRecvFunc then ipcStreamRecvFunc a bs n s else s)"
| "nptp_app (RecvPathCb f a bs n path) s = (if f = p_ipcRecvFunc then ipcRecvFunc a bs n path s else s)"
| "nptp_app _ s = s"

section \<open>Life cycle\<close>

definition serv_init :: "conf_env \<Rightarrow> nptp world \<Rightarrow> int option \<times> nptp world" where
  "serv_init env s =
     (let s = set_log (comm_setLogMask LOG_MASK_NONE) s;
          s = set_app (\<lambda>g. g\<lparr>g_pMapping := replicate MAX_MAPPING_NUM NULL, g_mappingNum := 0\<rparr>) s
      in (case xml_init env s of
          (None, s) \<Rightarrow> (None, s)
        | (Some e, s) \<Rightarrow>
            if e \<noteq> 0 then (Some (-1), PRINT (''ERR: xml_init ... failed'' @ newline) s)
            else if g_mappingNum (app s) = 0
            then (Some (-1), xml_uninit (PRINT (''ERR: mapping is empty'' @ newline) s))
            else
              let (e, s) = proxy_init s in
              if e \<noteq> 0 then (Some (-1), xml_uninit (PRINT (''ERR: proxy_init ... failed'' @ newline) s))
              else
                let s = PRINT (''service ready'' @ newline) (serv_list s);
                    (e, s) = event_init s in
                if e \<noteq> 0
                then (Some (-1), xml_uninit (proxy_uninit (PRINT (''ERR: event_init ... failed'' @ newline) s)))
                else
                  let (h, s) = ipcDgramInit IPC_DGRAM_FILE_PATH p_ipcRecvFunc NULL s;
                      s = set_app (\<lambda>g. g\<lparr>g_ipcDgramhandle := h\<rparr>) s in
                  if h = None
                  then (Some (-1), xml_uninit (proxy_uninit (event_uninit
                         (PRINT (''ERR: comm_ipcDgramInit ... failed'' @ newline) s))))
                  else (Some 0, s)))"

definition free_mapping :: "addr \<Rightarrow> nptp world \<Rightarrow> nptp world" where
  "free_mapping p s = set_app (\<lambda>g. g\<lparr>mappings := (mappings g)(p := None),
     g_pMapping := map (\<lambda>q. if q = p then NULL else q) (g_pMapping g)\<rparr>) (c_free p s)"

definition serv_uninit :: "nptp world \<Rightarrow> nptp world" where
  "serv_uninit s =
     (let s = ipcDgramUninit (g_ipcDgramhandle (app s)) s;
          s = event_uninit s;
          s = proxy_uninit s;
          s = xml_uninit s;
          s = fold (\<lambda>p s. if p \<noteq> NULL then free_mapping p s else s) (g_pMapping (app s)) s;
          s = set_app (\<lambda>g. g\<lparr>g_mappingNum := 0\<rparr>) s
      in PRINT (''service terminate'' @ newline) s)"

section \<open>The options\<close>

text \<open>
  The options that \<^verbatim>\<open>getopt\<close> finds: \<open>None\<close> when the program only prints its usage, otherwise
  whether it runs in the background.
\<close>

fun serv_options :: "string \<Rightarrow> bool \<Rightarrow> bool option" where
  "serv_options [] background = Some background"
| "serv_options (ch # opts) background =
     (if ch = CHR ''f'' then serv_options opts False
      else if ch = CHR ''h'' then None
      else serv_options opts background)"

end
