(* ===== verification/Nptp_Inv.thy ===== *)
theory Nptp_Inv
  imports Nptp_Serv
begin

text \<open>
  What the service owns: every mapping has its block, the context and the users of its server, the
  context of its client, and their descriptors, each once; and nothing else of the process is
  touched. The invariant is kept by every operation of the service.
\<close>

section \<open>What a mapping owns\<close>

definition server_heap :: "tMapping \<Rightarrow> addr set" where
  "server_heap m = (case tcpServerHandle m of None \<Rightarrow> {} | Some (pc, c) \<Rightarrow> insert pc (dom (tcpUsers m)))"

definition client_heap :: "tMapping \<Rightarrow> addr set" where
  "client_heap m = (case ipcStreamHandle m of None \<Rightarrow> {} | Some (q, c) \<Rightarrow> {q})"

definition server_fds :: "tMapping \<Rightarrow> int set" where
  "server_fds m = (case tcpServerHandle m of None \<Rightarrow> {}
     | Some (pc, c) \<Rightarrow> insert (stream_server_ctx.fd c) (user_fds (tcpUsers m)))"

definition client_fds :: "tMapping \<Rightarrow> int set" where
  "client_fds m = (case ipcStreamHandle m of None \<Rightarrow> {}
     | Some (q, c) \<Rightarrow> if 0 < stream_client_ctx.fd c then {stream_client_ctx.fd c} else {})"

definition map_heap :: "addr \<Rightarrow> tMapping \<Rightarrow> addr set" where
  "map_heap p m = insert p (server_heap m \<union> client_heap m)"

definition map_fds :: "tMapping \<Rightarrow> int set" where
  "map_fds m = server_fds m \<union> client_fds m"

lemmas owned_defs = server_heap_def client_heap_def server_fds_def client_fds_def map_heap_def map_fds_def

section \<open>A mapping in order\<close>

text \<open>The server's own part of \<open>server_inv\<close>, and what the service set it up with.\<close>

definition server_pure :: "addr \<Rightarrow> stream_server_ctx \<Rightarrow> user_store \<Rightarrow> bool" where
  "server_pure pc c us \<longleftrightarrow> slots_ok (table c) (dom us) \<and> pc \<notin> dom us \<and> 0 < stream_server_ctx.fd c \<and>
     stream_server_ctx.fd c \<notin> user_fds us \<and> users_ok us"

definition server_set_up :: "addr \<Rightarrow> stream_server_ctx \<Rightarrow> bool" where
  "server_set_up p c \<longleftrightarrow> pServerArg c = p \<and> pServerAcptFunc c = p_tcpIpv4AcptFunc \<and> pServerExitFunc c = p_tcpIpv4ExitFunc \<and>
     pServerRecvFunc c = p_tcpIpv4RecvFunc \<and> cap (table c) = 1 \<and> \<not> is_unix (stream_server_ctx.localAddr c)"

definition client_set_up :: "addr \<Rightarrow> stream_client_ctx \<Rightarrow> bool" where
  "client_set_up p c \<longleftrightarrow> pClientArg c = p \<and> pClientExitFunc c = p_ipcStreamExitFunc \<and>
     pClientRecvFunc c = p_ipcStreamRecvFunc \<and> fits (stream_client_ctx.localAddr c) \<and>
     (0 < stream_client_ctx.fd c \<or> stream_client_ctx.fd c = -1)"

text \<open>
  The user to whom the data of the pipe goes is one of the server's users, and connected. The path
  of the pipe fits the address of a socket.
\<close>

fun server_ok :: "addr \<Rightarrow> stream_server_ctx handle \<Rightarrow> user_store \<Rightarrow> bool" where
  "server_ok p None us \<longleftrightarrow> us = Map.empty"
| "server_ok p (Some (pc, c)) us \<longleftrightarrow> server_pure pc c us \<and> server_set_up p c"

fun client_ok :: "addr \<Rightarrow> stream_client_ctx handle \<Rightarrow> bool" where
  "client_ok p None \<longleftrightarrow> True"
| "client_ok p (Some (q, c)) \<longleftrightarrow> client_set_up p c"

definition user_ok :: "addr \<Rightarrow> user_store \<Rightarrow> bool" where
  "user_ok u us \<longleftrightarrow> (u \<noteq> NULL \<longrightarrow> (\<exists>w. us u = Some w \<and> 0 < user_fd w))"

text \<open>The flag of the TCP side says whether there is a user, and both flags are 0 or 1.\<close>

definition flags_ok :: "tMapping \<Rightarrow> bool" where
  "flags_ok m \<longleftrightarrow> tcpConnect m = (if pTcpUser m = NULL then 0 else 1) \<and> (pipeConnect m = 0 \<or> pipeConnect m = 1)"

lemma flags_update [simp]:
  "flags_ok (m\<lparr>tcpServerHandle := x0\<rparr>) = flags_ok m" "flags_ok (m\<lparr>ipcStreamHandle := x1\<rparr>) = flags_ok m"
  "flags_ok (m\<lparr>wd := x2\<rparr>) = flags_ok m" "flags_ok (m\<lparr>tcpUsers := x3\<rparr>) = flags_ok m"
  "flags_ok m \<Longrightarrow> x4 = 0 \<or> x4 = 1 \<Longrightarrow> flags_ok (m\<lparr>pipeConnect := x4\<rparr>)"
  "flags_ok m \<Longrightarrow> flags_ok (m\<lparr>tcpConnect := 0, pTcpUser := NULL\<rparr>)"
  "flags_ok m \<Longrightarrow> x5 \<noteq> NULL \<Longrightarrow> flags_ok (m\<lparr>tcpConnect := 1, pTcpUser := x5\<rparr>)"
  by (auto simp: flags_ok_def)

definition fields_ok :: "addr \<Rightarrow> tMapping \<Rightarrow> bool" where
  "fields_ok p m \<longleftrightarrow> arrays_ok m \<and> flags_ok m \<and> length (pipe_of m) < SUN_PATH \<and> 0 \<le> index m \<and> index m < 64 \<and>
     server_ok p (tcpServerHandle m) (tcpUsers m) \<and> user_ok (pTcpUser m) (tcpUsers m) \<and> client_ok p (ipcStreamHandle m)"

definition mapping_ok :: "addr \<Rightarrow> tMapping \<Rightarrow> bool" where
  "mapping_ok p m \<longleftrightarrow> fields_ok p m \<and> p \<notin> server_heap m \<and> p \<notin> client_heap m \<and>
     server_heap m \<inter> client_heap m = {} \<and> server_fds m \<inter> client_fds m = {}"

section \<open>The whole service\<close>

definition watch_fds :: "nptp \<Rightarrow> int set" where
  "watch_fds g = (if 0 \<le> g_inotifyFd g then {g_inotifyFd g} else {})"

text \<open>\<open>H\<close> and \<open>F\<close> are the blocks and descriptors of the rest of the process, the socket for commands included.\<close>

definition nptp_inv :: "addr set \<Rightarrow> int set \<Rightarrow> addr list \<Rightarrow> nptp world \<Rightarrow> bool" where
  "nptp_inv H F ps s \<longleftrightarrow> wf_world s \<and> 0 \<in> F \<and> watch_fds (app s) \<inter> F = {} \<and> table_ok ps s \<and>
     (\<forall>p\<in>set ps. mapping_ok p (the (mappings (app s) p))) \<and>
     parts (\<lambda>p. map_heap p (the (mappings (app s) p))) ps H (heap s) \<and>
     parts (\<lambda>p. map_fds (the (mappings (app s) p))) ps (watch_fds (app s) \<union> F) (fds s)"

section \<open>One mapping changes\<close>

lemma union_minus: "X \<inter> R = {} \<Longrightarrow> (X \<union> R) - X = R"
  by (auto simp: set_eq_iff)

lemma parts_update:
  assumes g: "parts g ps A B" and p: "p \<in> set ps" and o: "\<forall>q\<in>set ps. q \<noteq> p \<longrightarrow> g' q = g q"
    and d: "g' p \<inter> (B - g p) = {}" and b: "B' = (B - g p) \<union> g' p"
  shows "parts g' ps A B'"
proof -
  let ?rest = "A \<union> (\<Union>q\<in>set ps - {p}. g q)"
  have A: "\<forall>q\<in>set ps. g q \<inter> A = {}" and pw: "\<forall>q\<in>set ps. \<forall>r\<in>set ps. q \<noteq> r \<longrightarrow> g q \<inter> g r = {}"
    using g by (simp_all add: parts_def pairwise_def)
  have split: "(\<Union>q\<in>set ps. f q) = f p \<union> (\<Union>q\<in>set ps - {p}. f q)" for f :: "'a \<Rightarrow> 'b set"
    using UN_insert [of f p "set ps - {p}"] p by (simp only: insert_Diff)
  have "B = A \<union> (\<Union>q\<in>set ps. g q)" using g by (simp add: parts_def)
  then have "B = g p \<union> ?rest" unfolding split by (simp only: Un_ac)
  moreover have "g p \<inter> ?rest = {}" using A pw p unfolding disjoint_iff by blast
  ultimately have rest: "B - g p = ?rest" using union_minus by simp
  have d: "g' p \<inter> ?rest = {}" using d unfolding rest .
  have "(\<Union>q\<in>set ps. g' q) = g' p \<union> (\<Union>q\<in>set ps - {p}. g' q)" by (rule split)
  also have "(\<Union>q\<in>set ps - {p}. g' q) = (\<Union>q\<in>set ps - {p}. g q)" using o by (intro SUP_cong) auto
  finally have 1: "B' = A \<union> (\<Union>q\<in>set ps. g' q)" unfolding b rest by (simp add: Un_ac)
  have 2: "g' q \<inter> A = {}" if "q \<in> set ps" for q
    using that A o d by (cases "q = p") (auto simp: Int_Un_distrib)
  have x: "g' p \<inter> g' z = {}" if "z \<in> set ps" "z \<noteq> p" for z
  proof -
    have "g' z \<subseteq> ?rest" using that o by auto
    with d show ?thesis unfolding disjoint_iff by blast
  qed
  have 3: "g' q \<inter> g' r = {}" if "q \<in> set ps" "r \<in> set ps" "q \<noteq> r" for q r
    using x [of r] x [of q] that o pw by (cases "q = p"; cases "r = p") (simp_all add: Int_commute)
  show ?thesis using 1 2 3 by (simp add: parts_def pairwise_def)
qed

lemma parts_cong: "parts g ps A B \<Longrightarrow> \<forall>q\<in>set ps. g' q = g q \<Longrightarrow> parts g' ps A B"
  by (simp add: parts_def pairwise_def)

text \<open>Everything but mapping \<open>p\<close> is as it was.\<close>

definition only_mapping :: "addr \<Rightarrow> tMapping \<Rightarrow> nptp \<Rightarrow> nptp \<Rightarrow> bool" where
  "only_mapping p m' g g' \<longleftrightarrow> g_pMapping g' = g_pMapping g \<and> g_mappingNum g' = g_mappingNum g \<and>
     mappings g' = (mappings g)(p \<mapsto> m') \<and> g_inotifyFd g' = g_inotifyFd g \<and> g_ipcDgramhandle g' = g_ipcDgramhandle g"

lemma nptp_inv_update:
  assumes i: "nptp_inv H F ps s" and m: "mappings (app s) p = Some m" and g: "only_mapping p m' (app s) (app s')"
    and ok: "mapping_ok p m'" and w: "wf_world s'"
    and h: "heap s' = (heap s - map_heap p m) \<union> map_heap p m'" "map_heap p m' \<inter> (heap s - map_heap p m) = {}"
    and f: "fds s' = (fds s - map_fds m) \<union> map_fds m'" "map_fds m' \<inter> (fds s - map_fds m) = {}"
  shows "nptp_inv H F ps s'"
proof -
  have t: "table_ok ps s" using i by (simp add: nptp_inv_def)
  have "p \<in> dom (mappings (app s))" using m by blast
  with t have p: "p \<in> set ps" by (simp add: table_ok_def)
  have e: "g_pMapping (app s') = g_pMapping (app s)" "g_mappingNum (app s') = g_mappingNum (app s)"
    "mappings (app s') = (mappings (app s))(p \<mapsto> m')" "g_inotifyFd (app s') = g_inotifyFd (app s)"
    "g_ipcDgramhandle (app s') = g_ipcDgramhandle (app s)" using g by (simp_all add: only_mapping_def)
  then have gl: "watch_fds (app s') = watch_fds (app s)" by (simp add: watch_fds_def)
  have H: "parts (\<lambda>q. map_heap q (the (mappings (app s') q))) ps H (heap s')"
    by (rule parts_update [where g = "\<lambda>q. map_heap q (the (mappings (app s) q))" and B = "heap s" and p = p])
      (use i m p h e in \<open>simp_all add: nptp_inv_def\<close>)
  have F: "parts (\<lambda>q. map_fds (the (mappings (app s') q))) ps (watch_fds (app s) \<union> F) (fds s')"
    by (rule parts_update [where g = "\<lambda>q. map_fds (the (mappings (app s) q))" and B = "fds s" and p = p])
      (use i m p f e in \<open>simp_all add: nptp_inv_def\<close>)
  have "q \<in> heap s'" if "q \<in> set ps" for q
  proof -
    have "q \<in> map_heap q (the (mappings (app s') q))" by (simp add: map_heap_def)
    with H that show ?thesis unfolding parts_def by blast
  qed
  then have "table_ok ps s'" using t e p by (auto simp: table_ok_def insert_absorb)
  moreover have "\<forall>q\<in>set ps. mapping_ok q (the (mappings (app s') q))" using i ok e by (simp add: nptp_inv_def)
  ultimately show ?thesis using i w H F by (simp add: nptp_inv_def gl)
qed

lemma nptp_inv_mapping:
  assumes i: "nptp_inv H F ps s" and m: "mappings (app s) p = Some m"
  shows "mapping_ok p m \<and> map_heap p m \<subseteq> heap s \<and> map_fds m \<subseteq> fds s \<and> p \<in> set ps \<and> p \<in> heap s \<and>
    0 \<in> fds s \<and> 0 \<notin> map_fds m"
proof -
  have t: "table_ok ps s" using i by (simp add: nptp_inv_def)
  have "p \<in> dom (mappings (app s))" using m by blast
  with t have p: "p \<in> set ps" "p \<in> heap s" by (auto simp: table_ok_def)
  have F: "parts (\<lambda>q. map_fds (the (mappings (app s) q))) ps (watch_fds (app s) \<union> F) (fds s)"
    and H: "parts (\<lambda>q. map_heap q (the (mappings (app s) q))) ps H (heap s)"
    and z: "0 \<in> F" using i by (simp_all add: nptp_inv_def)
  have "map_fds (the (mappings (app s) p)) \<inter> (watch_fds (app s) \<union> F) = {}"
    "map_fds (the (mappings (app s) p)) \<subseteq> fds s" "0 \<in> fds s"
    using F p(1) z unfolding parts_def by blast+
  moreover have "map_heap p (the (mappings (app s) p)) \<subseteq> heap s" using H p(1) unfolding parts_def by blast
  ultimately show ?thesis using i m p z by (auto simp: nptp_inv_def)
qed

section \<open>One side of a mapping changes\<close>

lemma swap_part:
  assumes "X \<inter> R = {}" "R \<subseteq> B" "B' = (B - X) \<union> X'" "X' \<inter> (B - X) = {}"
  shows "B' = (B - (X \<union> R)) \<union> (X' \<union> R) \<and> (X' \<union> R) \<inter> (B - (X \<union> R)) = {} \<and> X' \<inter> R = {}"
  using assms by (auto simp: set_eq_iff disjoint_iff)

lemma nptp_inv_server:
  assumes i: "nptp_inv H F ps s" and m: "mappings (app s) p = Some m" and g: "only_mapping p m' (app s) (app s')"
    and ok: "fields_ok p m'" "ipcStreamHandle m' = ipcStreamHandle m" and w: "wf_world s'"
    and h: "heap s' = (heap s - server_heap m) \<union> server_heap m'" "server_heap m' \<inter> (heap s - server_heap m) = {}"
    and f: "fds s' = (fds s - server_fds m) \<union> server_fds m'" "server_fds m' \<inter> (fds s - server_fds m) = {}"
  shows "nptp_inv H F ps s'"
proof -
  note o = nptp_inv_mapping [OF i m]
  have c: "client_heap m' = client_heap m" "client_fds m' = client_fds m"
    using ok(2) by (simp_all add: client_heap_def client_fds_def)
  have e: "map_heap p m = server_heap m \<union> insert p (client_heap m)"
    "map_heap p m' = server_heap m' \<union> insert p (client_heap m)" by (simp_all add: map_heap_def c Un_ac)
  have d: "server_heap m \<inter> insert p (client_heap m) = {}" "insert p (client_heap m) \<subseteq> heap s"
    "server_fds m \<inter> client_fds m = {}" "client_fds m \<subseteq> fds s"
    using o by (simp_all add: mapping_ok_def map_heap_def map_fds_def)
  note H = swap_part [OF d(1,2) h] and F = swap_part [OF d(3,4) f]
  have "mapping_ok p m'" using ok(1) H F by (simp add: mapping_ok_def c o [unfolded mapping_ok_def])
  from nptp_inv_update [OF i m g this w] H F show ?thesis by (simp add: e map_fds_def c)
qed

lemma nptp_inv_client:
  assumes i: "nptp_inv H F ps s" and m: "mappings (app s) p = Some m" and g: "only_mapping p m' (app s) (app s')"
    and ok: "fields_ok p m'" "tcpServerHandle m' = tcpServerHandle m" "tcpUsers m' = tcpUsers m" and w: "wf_world s'"
    and h: "heap s' = (heap s - client_heap m) \<union> client_heap m'" "client_heap m' \<inter> (heap s - client_heap m) = {}"
    and f: "fds s' = (fds s - client_fds m) \<union> client_fds m'" "client_fds m' \<inter> (fds s - client_fds m) = {}"
  shows "nptp_inv H F ps s'"
proof -
  note o = nptp_inv_mapping [OF i m]
  have c: "server_heap m' = server_heap m" "server_fds m' = server_fds m"
    using ok(2,3) by (simp_all only: server_heap_def server_fds_def)
  have e: "map_heap p m = client_heap m \<union> insert p (server_heap m)"
    "map_heap p m' = client_heap m' \<union> insert p (server_heap m)" "map_fds m = client_fds m \<union> server_fds m"
    "map_fds m' = client_fds m' \<union> server_fds m" by (simp_all add: map_heap_def map_fds_def c Un_ac)
  have d: "client_heap m \<inter> insert p (server_heap m) = {}" "insert p (server_heap m) \<subseteq> heap s"
    "client_fds m \<inter> server_fds m = {}" "server_fds m \<subseteq> fds s"
    using o by (simp_all add: mapping_ok_def map_heap_def map_fds_def Int_commute)
  note H = swap_part [OF d(1,2) h] and F = swap_part [OF d(3,4) f]
  have "mapping_ok p m'" using ok(1) H F
    by (simp add: mapping_ok_def c o [unfolded mapping_ok_def] Int_commute)
  from nptp_inv_update [OF i m g this w] H F show ?thesis by (simp add: e)
qed

text \<open>The server of a mapping keeps the invariant of a stream server, the rest of the process being the rest.\<close>

lemma server_inv_pure:
  "server_inv H F pc c us s \<longleftrightarrow> server_pure pc c us \<and> wf_world s \<and> 0 \<in> F \<and>
     heap s = insert pc (dom us) \<union> H \<and> insert pc (dom us) \<inter> H = {} \<and>
     fds s = insert (stream_server_ctx.fd c) (user_fds us) \<union> F \<and> insert (stream_server_ctx.fd c) (user_fds us) \<inter> F = {}"
proof
  assume "server_inv H F pc c us s"
  then show "server_pure pc c us \<and> wf_world s \<and> 0 \<in> F \<and>
     heap s = insert pc (dom us) \<union> H \<and> insert pc (dom us) \<inter> H = {} \<and>
     fds s = insert (stream_server_ctx.fd c) (user_fds us) \<union> F \<and> insert (stream_server_ctx.fd c) (user_fds us) \<inter> F = {}"
    using server_inv_slots [of H F pc c us s] by (simp add: server_inv_def server_core_def server_pure_def)
next
  assume a: "server_pure pc c us \<and> wf_world s \<and> 0 \<in> F \<and>
     heap s = insert pc (dom us) \<union> H \<and> insert pc (dom us) \<inter> H = {} \<and>
     fds s = insert (stream_server_ctx.fd c) (user_fds us) \<union> F \<and> insert (stream_server_ctx.fd c) (user_fds us) \<inter> F = {}"
  then have ok: "slots_ok (table c) (dom us)" by (simp add: server_pure_def)
  then have n: "num (table c) = int (card (dom us))" by (simp add: slots_ok_def)
  then have "slots_ok ((table c)\<lparr>num := int (card (dom us))\<rparr>) (dom us)" using ok by (simp only: slots_num_id)
  with a n show "server_inv H F pc c us s" by (simp add: server_inv_def server_core_def server_pure_def)
qed

lemma nptp_server_inv:
  assumes i: "nptp_inv H F ps s" and m: "mappings (app s) p = Some m" "tcpServerHandle m = Some (pc, c)"
  shows "server_inv (heap s - server_heap m) (fds s - server_fds m) pc c (tcpUsers m) s"
proof -
  note o = nptp_inv_mapping [OF i m(1)]
  have "server_heap m \<subseteq> heap s" "server_fds m \<subseteq> fds s" "0 \<in> fds s" "0 \<notin> server_fds m"
    using o by (simp_all add: map_heap_def map_fds_def)
  moreover have "server_pure pc c (tcpUsers m)" "wf_world s"
    using o i m(2) by (simp_all add: mapping_ok_def fields_ok_def nptp_inv_def)
  ultimately show ?thesis
    unfolding server_inv_pure by (simp add: server_heap_def server_fds_def m(2) insert_Diff_if insert_absorb Un_absorb1)
qed

text \<open>After a turn of the server, its part of the mapping is what the server holds then.\<close>

lemma nptp_inv_server_turn:
  assumes i: "nptp_inv H F ps s" and m: "mappings (app s) p = Some m" "tcpServerHandle m = Some (pc, c)"
    and t: "server_inv (heap s - server_heap m) (fds s - server_fds m) pc c' us' s'"
    and g: "only_mapping p m' (app s) (app s')" and e: "tcpServerHandle m' = Some (pc, c')" "tcpUsers m' = us'"
    and ok: "fields_ok p m'" "ipcStreamHandle m' = ipcStreamHandle m"
  shows "nptp_inv H F ps s'"
  using t unfolding server_inv_pure
  by (intro nptp_inv_server [OF i m(1) g ok]) (simp_all add: server_heap_def server_fds_def e Un_commute)

section \<open>The library leaves the application's memory alone\<close>

named_theorems app_simps \<open>calls that do not touch the application's memory\<close>

lemma app_calls [app_simps]:
  "app (c_free p s) = app s" "app (sys_close n s) = app s" "app (sys_unlink x s) = app s"
  "app (pthread_cancel t s) = app s" "app (pthread_join t s) = app s" "app (unixClose n x s) = app s"
  "app (streamClose a n s) = app s" "app (sys_inotify_rm_watch n k s) = app s"
  by (auto simp: c_free_def sys_close_def sys_unlink_def pthread_cancel_def pthread_join_def unixClose_def
      sys_inotify_rm_watch_def intro: streamClose.cases [of "(a, n, s)"])

lemma app_streamClientUninit [app_simps]: "app (streamClientUninit h s) = app s"
  by (auto simp: streamClientUninit_def streamUninitClient_def app_simps split: option.splits prod.splits if_splits)

lemma app_streamDisconnectClient:
  "streamDisconnectClient p (c, us, s) = (c', us', s') \<Longrightarrow> app s' = app s"
  by (auto simp: streamDisconnectClient_def Let_def app_simps split: option.splits if_splits)

lemma app_streamDisconnectSlots:
  "streamDisconnectSlots n (c, us, s) = (c', us', s') \<Longrightarrow> app s' = app s"
proof (induction n arbitrary: c' us' s')
  case 0
  then show ?case by simp
next
  case (Suc n)
  obtain c1 us1 s1 where 1: "streamDisconnectSlots n (c, us, s) = (c1, us1, s1)" by (metis prod_cases3)
  with Suc.prems have "streamDisconnectClient (tbl (table c1) ! n) (c1, us1, s1) = (c', us', s')" by simp
  from app_streamDisconnectClient [OF this] Suc.IH [OF 1] show ?case by simp
qed

lemma app_streamServerUninit:
  assumes "streamServerUninit h us s = (us', s')"
  shows "app s' = app s"
proof (cases h)
  case None
  with assms show ?thesis by (simp add: streamServerUninit_def)
next
  case (Some q)
  then obtain pc c where h: "h = Some (pc, c)" by (cases q) auto
  let ?c = "c\<lparr>stream_server_ctx.running := 0, table := (table c)\<lparr>num := 0\<rparr>\<rparr>"
  obtain c1 us1 s1 where 1: "streamDisconnectSlots (nat (cap (table c))) (?c, us, pthread_cancel (stream_server_ctx.thread c) s) = (c1, us1, s1)"
    by (metis prod_cases3)
  from app_streamDisconnectSlots [OF 1] assms 1 show ?thesis
    by (auto simp: h streamServerUninit_def streamUninitServer_def app_simps Let_def split: prod.splits if_splits)
qed

section \<open>Operations on one mapping\<close>

text \<open>\<open>keeps\<close>: the invariant still holds, nothing undefined has happened, and only mapping \<open>p\<close> has changed.\<close>

definition keeps :: "addr set \<Rightarrow> int set \<Rightarrow> addr list \<Rightarrow> addr \<Rightarrow> nptp world \<Rightarrow> nptp world \<Rightarrow> bool" where
  "keeps H F ps p s s' \<longleftrightarrow> nptp_inv H F ps s' \<and> faults s' = faults s \<and> (\<exists>m'. only_mapping p m' (app s) (app s'))"

lemma only_mapping_refl: "mappings g p = Some m \<Longrightarrow> only_mapping p m g g"
  by (simp add: only_mapping_def fun_upd_idem)

lemma only_mapping_on:
  assumes "only_mapping p m g (app s)"
  shows "only_mapping p (f m) g (app (on_mapping p f s))"
  using assms by (simp add: only_mapping_def on_mapping_def)

lemma only_mapping_PRINT [simp]: "only_mapping p m g (app (PRINT x s)) = only_mapping p m g (app s)"
  by (simp add: only_mapping_def)

lemma only_mapping_get: "only_mapping p m g g' \<Longrightarrow> mappings g' p = Some m"
  by (simp add: only_mapping_def)

lemma on_mapping_world:
  assumes "only_mapping p m g (app s)"
  shows "wf_world (on_mapping p f s) = wf_world s" "heap (on_mapping p f s) = heap s"
    "fds (on_mapping p f s) = fds s" "faults (on_mapping p f s) = faults s"
  using on_mapping_sel [OF only_mapping_get [OF assms]] by simp_all

lemma keeps_refl: "nptp_inv H F ps s \<Longrightarrow> mappings (app s) p = Some m \<Longrightarrow> keeps H F ps p s s"
  unfolding keeps_def using only_mapping_refl by blast

lemma keeps_trans: "keeps H F ps p s t \<Longrightarrow> keeps H F ps p t u \<Longrightarrow> keeps H F ps p s u"
  by (auto simp: keeps_def only_mapping_def)

lemma adds_app: "adds s t X Y Z \<Longrightarrow> app t = app s \<and> faults t = faults s \<and> wf_world t"
  by (simp add: adds_def quiet_def)

text \<open>The arrays of a mapping are only written when it is read.\<close>

lemma paths_update [simp]:
  "arrays_ok (m\<lparr>tcpServerHandle := x0\<rparr>) = arrays_ok m" "pipe_of (m\<lparr>tcpServerHandle := x0\<rparr>) = pipe_of m"
  "arrays_ok (m\<lparr>ipcStreamHandle := x1\<rparr>) = arrays_ok m" "pipe_of (m\<lparr>ipcStreamHandle := x1\<rparr>) = pipe_of m"
  "arrays_ok (m\<lparr>tcpConnect := x2\<rparr>) = arrays_ok m" "pipe_of (m\<lparr>tcpConnect := x2\<rparr>) = pipe_of m"
  "arrays_ok (m\<lparr>pipeConnect := x3\<rparr>) = arrays_ok m" "pipe_of (m\<lparr>pipeConnect := x3\<rparr>) = pipe_of m"
  "arrays_ok (m\<lparr>wd := x4\<rparr>) = arrays_ok m" "pipe_of (m\<lparr>wd := x4\<rparr>) = pipe_of m"
  "arrays_ok (m\<lparr>pTcpUser := x5\<rparr>) = arrays_ok m" "pipe_of (m\<lparr>pTcpUser := x5\<rparr>) = pipe_of m"
  "arrays_ok (m\<lparr>tcpUsers := x6\<rparr>) = arrays_ok m" "pipe_of (m\<lparr>tcpUsers := x6\<rparr>) = pipe_of m"
  by (simp_all add: arrays_ok_def pipe_of_def)

lemma proxy_launchTcp_keeps:
  assumes i: "nptp_inv H F ps s" and m: "mappings (app s) p = Some m" "tcpServerHandle m = None"
    and r: "proxy_launchTcp p s = (e, s')"
  shows "keeps H F ps p s s'"
proof -
  note o = nptp_inv_mapping [OF i m(1)]
  have w: "wf_world s" "0 \<in> fds s" using i o by (simp_all add: nptp_inv_def)
  have f: "fields_ok p m" "tcpUsers m = Map.empty" using o m(2) by (auto simp: mapping_ok_def fields_ok_def)
  have x: "server_heap m = {}" "server_fds m = {}" using m(2) by (simp_all add: server_heap_def server_fds_def)
  obtain h s1 where 1: "comm_tcpIpv4ServerInit (tcpPort m) 1 p_tcpIpv4AcptFunc p_tcpIpv4ExitFunc p_tcpIpv4RecvFunc p s = (h, s1)"
    by fastforce
  then have init: "streamServerInit (any_addr IPv4 (tcpPort m)) 1 p_tcpIpv4AcptFunc p_tcpIpv4ExitFunc p_tcpIpv4RecvFunc p s = (h, s1)"
    by (simp add: comm_tcpIpv4ServerInit_def)
  note a = streamServerInit_adds [OF init w fits_any]
  show ?thesis
  proof (cases h)
    case None
    with a have a1: "adds s s1 {} {} {}" by simp
    let ?t = "PRINT (''ERR: comm_tcpIpv4ServerInit'' @ newline) s1" and ?f = "\<lambda>m. m\<lparr>tcpServerHandle := None\<rparr>"
    have g: "only_mapping p m (app s) (app ?t)" using adds_app [OF a1] only_mapping_refl [of "app s" p m] m(1) by simp
    have s': "s' = on_mapping p ?f ?t" using r 1 None m(1) by (simp add: proxy_launchTcp_def)
    have ef: "?f m = m" using m(2) by simp
    note g' = only_mapping_on [OF g, of ?f, folded s'] and w' = on_mapping_world [OF g, of ?f, folded s']
    have "nptp_inv H F ps s'"
      by (rule nptp_inv_server [OF i m(1) g']) (use f(1) ef w' x a1 in \<open>simp_all add: adds_def\<close>)
    with g' w' adds_app [OF a1] show ?thesis by (auto simp: keeps_def)
  next
    case (Some q)
    then obtain pc c where h: "h = Some (pc, c)" by (cases q) auto
    with a have c: "c = (streamServerNewContext (any_addr IPv4 (tcpPort m)) 1 p_tcpIpv4AcptFunc p_tcpIpv4ExitFunc
        p_tcpIpv4RecvFunc p)\<lparr>stream_server_ctx.fd := stream_server_ctx.fd c, stream_server_ctx.running := 1,
        stream_server_ctx.thread := stream_server_ctx.thread c\<rparr>"
      and a1: "adds s s1 {stream_server_ctx.fd c} {pc} {stream_server_ctx.thread c}" by simp_all
    from streamServerInit_inv [OF init [unfolded h] w fits_any] have
      si: "server_inv (heap s) (fds s) pc c Map.empty s1" and cap: "cap (table c) = 1" by simp_all
    let ?f = "\<lambda>m. m\<lparr>tcpServerHandle := h\<rparr>"
    have g: "only_mapping p m (app s) (app s1)" using adds_app [OF a1] only_mapping_refl [of "app s" p m] m(1) by simp
    have s': "s' = on_mapping p ?f s1" using r 1 h m(1) by (simp add: proxy_launchTcp_def)
    note g' = only_mapping_on [OF g, of ?f, folded s'] and w' = on_mapping_world [OF g, of ?f, folded s']
    have su: "server_set_up p c"
      unfolding server_set_up_def using cap by (subst (1 2 3 4 6) c) (simp add: streamServerNewContext_def)
    have "server_pure pc c Map.empty" using si by (simp add: server_inv_pure)
    with su f have f': "fields_ok p (?f m)" by (simp add: fields_ok_def h user_ok_def)
    have x': "server_heap (?f m) = {pc}" "server_fds (?f m) = {stream_server_ctx.fd c}"
      using f(2) by (simp_all add: server_heap_def server_fds_def h user_fds_None)
    have "nptp_inv H F ps s'"
      by (rule nptp_inv_server [OF i m(1) g' f'])
        (use w' x x' a1 in \<open>simp_all add: adds_def Un_commute\<close>)
    with g' w' adds_app [OF a1] show ?thesis by (auto simp: keeps_def)
  qed
qed

text \<open>The name of the own socket is short.\<close>

lemma fmt_d_small: "0 \<le> k \<Longrightarrow> k < 64 \<Longrightarrow> length (fmt_d k) \<le> 2"
proof -
  assume k: "0 \<le> k" "k < 64"
  have "length (fmt_u n) \<le> 2" if "n < 64" for n :: nat
    using that by (subst fmt_u.simps) (auto simp: fmt_u.simps [of "n div 10"])
  with k show ?thesis by (simp add: fmt_d_def nat_less_iff)
qed

lemma client_path_fits:
  assumes "0 \<le> k" "k < 64"
  shows "length (IPC_STREAM_FILE_PATH @ fmt_d k) < SUN_PATH"
  using fmt_d_small [OF assms] by (simp add: IPC_STREAM_FILE_PATH_def SUN_PATH_def)

lemma streamClientConnect_ctx:
  assumes "streamClientConnect (Some (q, c)) sa s = (r, h, s')"
  shows "\<exists>c'. h = Some (q, c') \<and> stream_client_ctx.fd c' = stream_client_ctx.fd c \<and>
    stream_client_ctx.localAddr c' = stream_client_ctx.localAddr c \<and> pClientArg c' = pClientArg c \<and>
    pClientExitFunc c' = pClientExitFunc c \<and> pClientRecvFunc c' = pClientRecvFunc c"
  using assms by (auto simp: streamClientConnect_def Let_def split: prod.splits if_splits)

text \<open>Leaving the pipe: the old handle's context and descriptor go.\<close>

lemma client_uninit_world:
  assumes i: "nptp_inv H F ps s" and m: "mappings (app s) p = Some m"
    and t: "t = comm_ipcStreamClientUninit (ipcStreamHandle m) s"
  shows "wf_world t \<and> app t = app s \<and> faults t = faults s \<and> heap t = heap s - client_heap m \<and>
    fds t = fds s - client_fds m"
proof (cases "ipcStreamHandle m")
  case None
  with i t show ?thesis
    by (simp add: comm_ipcStreamClientUninit_def streamClientUninit_def client_heap_def client_fds_def nptp_inv_def)
next
  case (Some x)
  then obtain q c where h: "ipcStreamHandle m = Some (q, c)" by (cases x) auto
  have w: "wf_world s" "q \<in> heap s"
    using i nptp_inv_mapping [OF i m] h by (simp_all add: nptp_inv_def map_heap_def client_heap_def)
  from streamClientUninit_rule [OF w, of c] show ?thesis
    by (simp add: t h comm_ipcStreamClientUninit_def client_heap_def client_fds_def app_simps)
qed

lemma proxy_disconnectIpc_keeps:
  assumes i: "nptp_inv H F ps s" and m: "mappings (app s) p = Some m"
  shows "keeps H F ps p s (proxy_disconnectIpc p s) \<and>
    mappings (app (proxy_disconnectIpc p s)) p = Some (m\<lparr>ipcStreamHandle := None, pipeConnect := 0\<rparr>)"
proof -
  let ?t = "comm_ipcStreamClientUninit (ipcStreamHandle m) s" and ?f = "\<lambda>m. m\<lparr>ipcStreamHandle := None, pipeConnect := 0\<rparr>"
  note u = client_uninit_world [OF i m refl]
  have g: "only_mapping p m (app s) (app ?t)" using u only_mapping_refl [OF m] by simp
  have s': "proxy_disconnectIpc p s = on_mapping p ?f ?t" using m by (simp add: proxy_disconnectIpc_def)
  note g' = only_mapping_on [OF g, of ?f, folded s'] and w' = on_mapping_world [OF g, of ?f, folded s']
  have "fields_ok p m" using nptp_inv_mapping [OF i m] by (simp add: mapping_ok_def)
  then have "fields_ok p (?f m)" by (simp add: fields_ok_def)
  then have "nptp_inv H F ps (proxy_disconnectIpc p s)"
    by (rule nptp_inv_client [OF i m g']) (use w' u in \<open>simp_all add: client_heap_def client_fds_def\<close>)
  with g' w' u show ?thesis by (auto simp: keeps_def only_mapping_def)
qed

lemma proxy_ceaseTcp_keeps:
  assumes i: "nptp_inv H F ps s" and m: "mappings (app s) p = Some m"
  shows "keeps H F ps p s (proxy_ceaseTcp p s) \<and>
    (\<exists>m'. mappings (app (proxy_ceaseTcp p s)) p = Some m' \<and> tcpServerHandle m' = None \<and>
       ipcStreamHandle m' = ipcStreamHandle m)"
proof -
  obtain us t where r: "comm_tcpIpv4ServerUninit (tcpServerHandle m) (tcpUsers m) s = (us, t)" by fastforce
  let ?f = "\<lambda>m. m\<lparr>tcpUsers := us, tcpServerHandle := None, tcpConnect := 0, pTcpUser := NULL\<rparr>"
  note o = nptp_inv_mapping [OF i m]
  have ok: "fields_ok p m" using o by (simp add: mapping_ok_def)
  have u: "us = Map.empty \<and> wf_world t \<and> app t = app s \<and> faults t = faults s \<and> heap t = heap s - server_heap m \<and>
    fds t = fds s - server_fds m"
  proof (cases "tcpServerHandle m")
    case None
    with i r ok show ?thesis
      by (auto simp: comm_tcpIpv4ServerUninit_def streamServerUninit_def server_heap_def server_fds_def nptp_inv_def
          fields_ok_def)
  next
    case (Some x)
    then obtain pc c where h: "tcpServerHandle m = Some (pc, c)" by (cases x) auto
    have "streamServerUninit (Some (pc, c)) (tcpUsers m) s = (us, t)" using r h by (simp add: comm_tcpIpv4ServerUninit_def)
    from streamServerUninit_rule [OF nptp_server_inv [OF i m h] this] app_streamServerUninit [OF this] show ?thesis by simp
  qed
  have g: "only_mapping p m (app s) (app t)" using u only_mapping_refl [OF m] by simp
  have s': "proxy_ceaseTcp p s = on_mapping p ?f t" using m r by (simp add: proxy_ceaseTcp_def)
  note g' = only_mapping_on [OF g, of ?f, folded s'] and w' = on_mapping_world [OF g, of ?f, folded s']
  have "fields_ok p (?f m)" using ok u by (simp add: fields_ok_def user_ok_def)
  then have "nptp_inv H F ps (proxy_ceaseTcp p s)"
    by (rule nptp_inv_server [OF i m g']) (use w' u in \<open>simp_all add: server_heap_def server_fds_def\<close>)
  with g' w' u show ?thesis by (auto simp: keeps_def only_mapping_def)
qed

text \<open>The pipe's context, from its creation on.\<close>

lemma client_new_set_up:
  assumes "c = (streamClientNewContext la p_ipcStreamRecvFunc p_ipcStreamExitFunc p)\<lparr>stream_client_ctx.fd := n\<rparr>"
    "fits la" "0 < n"
  shows "client_set_up p c"
  using assms by (simp add: client_set_up_def streamClientNewContext_def)

text \<open>On a mapping in order, all names fit.\<close>

lemma proxy_connectIpc_eq:
  assumes m: "mappings (app s) p = Some m" and ok: "fields_ok p m"
  shows "proxy_connectIpc p s =
    (let t = comm_ipcStreamClientUninit (ipcStreamHandle m) s;
         (h, t) = streamClientInit (Sockaddr_un (IPC_STREAM_FILE_PATH @ fmt_d (index m))) p_ipcStreamRecvFunc
           p_ipcStreamExitFunc p t in
     if h = None
     then (-1, on_mapping p (\<lambda>m. m\<lparr>ipcStreamHandle := None\<rparr>) (PRINT (''ERR: comm_ipcStreamClientInit'' @ newline) t))
     else
       let t = on_mapping p (\<lambda>m. m\<lparr>ipcStreamHandle := h\<rparr>) t in
       if sys_access (pipe_of m) t = 0
       then
         let (e, h, t) = streamClientConnect h (Sockaddr_un (pipe_of m)) t;
             t = on_mapping p (\<lambda>m. m\<lparr>ipcStreamHandle := h\<rparr>) t in
         if e \<noteq> 0
         then (0, on_mapping p (\<lambda>m. m\<lparr>pipeConnect := 0\<rparr>) (PRINT (''WRN: comm_ipcStreamClientConnect'' @ newline) t))
         else (0, on_mapping p (\<lambda>m. m\<lparr>pipeConnect := 1\<rparr>) t)
       else (0, t))"
proof -
  let ?path = "IPC_STREAM_FILE_PATH @ fmt_d (index m)"
  have "length ?path < SUN_PATH" using client_path_fits [of "index m"] ok by (simp add: fields_ok_def)
  then have cs: "c_strcpy 256 ?path v = (?path, v)" "c_strncpy 255 ?path = ?path" for v :: "nptp world"
    by (simp_all add: c_strcpy_def SUN_PATH_def c_strncpy_def)
  have rd: "read_chars (pipePath m) v = (c_string (pipePath m), v)" "read_chars (pipeName m) v = (c_string (pipeName m), v)"
    "c_strcpy 256 (c_string (pipePath m) @ ''/'' @ c_string (pipeName m)) v = (pipe_of m, v)" for v :: "nptp world"
    using ok by (simp_all add: read_chars_def fields_ok_def arrays_ok_def pipe_of_def c_strcpy_def SUN_PATH_def)
  have t: "(if ipcStreamHandle m \<noteq> None then comm_ipcStreamClientUninit (ipcStreamHandle m) s else s) =
      comm_ipcStreamClientUninit (ipcStreamHandle m) s"
    by (cases "ipcStreamHandle m") (simp_all add: comm_ipcStreamClientUninit_def streamClientUninit_def)
  show ?thesis
    unfolding proxy_connectIpc_def m option.case t Let_def cs rd prod.case comm_ipcStreamClientInit_def
      comm_ipcStreamClientConnect_def by (simp only: rd prod.case split_def)
qed

lemma proxy_connectIpc_keeps:
  assumes i: "nptp_inv H F ps s" and m: "mappings (app s) p = Some m" and r: "proxy_connectIpc p s = (e, s')"
  shows "keeps H F ps p s s'"
proof -
  note o = nptp_inv_mapping [OF i m]
  have ok: "fields_ok p m" using o by (simp add: mapping_ok_def)
  let ?t = "comm_ipcStreamClientUninit (ipcStreamHandle m) s"
  note u = client_uninit_world [OF i m refl]
  let ?path = "IPC_STREAM_FILE_PATH @ fmt_d (index m)"
  have cp: "length ?path < SUN_PATH" using client_path_fits [of "index m"] ok by (simp add: fields_ok_def)
  have z: "wf_world ?t" "0 \<in> fds ?t" using u o by (auto simp: map_fds_def)
  obtain h t1 where 1: "streamClientInit (Sockaddr_un ?path) p_ipcStreamRecvFunc p_ipcStreamExitFunc p ?t = (h, t1)"
    by fastforce
  note eq = proxy_connectIpc_eq [OF m ok, unfolded Let_def, simplified 1 prod.case]
  have fit: "fits (Sockaddr_un ?path)" using cp by simp
  note a = streamClientInit_adds [OF 1 z(1) fit]
  show ?thesis
  proof (cases h)
    case None
    with a have a1: "adds ?t t1 {} {} {}" by simp
    let ?v = "PRINT (''ERR: comm_ipcStreamClientInit'' @ newline) t1" and ?f = "\<lambda>m. m\<lparr>ipcStreamHandle := None\<rparr>"
    have g: "only_mapping p m (app s) (app ?v)" using adds_app [OF a1] u only_mapping_refl [OF m] by simp
    have s': "s' = on_mapping p ?f ?v"
      using r None by (simp add: eq)
    note g' = only_mapping_on [OF g, of ?f, folded s'] and w' = on_mapping_world [OF g, of ?f, folded s']
    have "fields_ok p (?f m)" using ok by (simp add: fields_ok_def)
    then have "nptp_inv H F ps s'"
      by (rule nptp_inv_client [OF i m g'])
        (use w' u a1 in \<open>simp_all add: client_heap_def client_fds_def adds_def\<close>)
    with g' w' u adds_app [OF a1] show ?thesis by (auto simp: keeps_def)
  next
    case (Some x)
    then obtain q c where h: "h = Some (q, c)" by (cases x) auto
    with a have c: "c = (streamClientNewContext (Sockaddr_un ?path) p_ipcStreamRecvFunc p_ipcStreamExitFunc p)
        \<lparr>stream_client_ctx.fd := stream_client_ctx.fd c\<rparr>"
      and n: "q \<notin> heap ?t" "0 \<le> stream_client_ctx.fd c" "stream_client_ctx.fd c \<notin> fds ?t"
      and a1: "adds ?t t1 {stream_client_ctx.fd c} {q} {}" by simp_all
    with z have pos: "0 < stream_client_ctx.fd c" using order_le_less [of 0 "stream_client_ctx.fd c"] by auto
    from client_new_set_up [OF c fit pos] have su: "client_set_up p c" .
    let ?f1 = "\<lambda>m. m\<lparr>ipcStreamHandle := h\<rparr>"
    let ?t2 = "on_mapping p ?f1 t1"
    have g1: "only_mapping p m (app s) (app t1)" using adds_app [OF a1] u only_mapping_refl [OF m] by simp
    note g2 = only_mapping_on [OF g1, of ?f1] and w2 = on_mapping_world [OF g1, of ?f1]
    have fin: "keeps H F ps p s (on_mapping p f v)"
      if g: "only_mapping p m1 (app s) (app v)" and f: "f m1 = m\<lparr>ipcStreamHandle := Some (q, c'), pipeConnect := k\<rparr>"
        and su': "client_set_up p c'" "stream_client_ctx.fd c' = stream_client_ctx.fd c"
        and v: "wf_world v" "heap v = insert q (heap ?t)" "fds v = insert (stream_client_ctx.fd c) (fds ?t)" "faults v = faults s"
        and kk: "k = pipeConnect m \<or> k = 0 \<or> k = 1"
      for f v c' k m1
    proof -
      note g' = only_mapping_on [OF g, of f] and w' = on_mapping_world [OF g, of f]
      have "flags_ok (f m1)" using ok kk by (auto simp: f flags_ok_def fields_ok_def)
      then have "fields_ok p (f m1)" using ok su' by (simp add: f fields_ok_def)
      then have "nptp_inv H F ps (on_mapping p f v)"
        by (rule nptp_inv_client [OF i m g'])
          (use w' v u n pos su' in \<open>simp_all add: f client_heap_def client_fds_def [of "m\<lparr>ipcStreamHandle := x, pipeConnect := y\<rparr>" for x y]\<close>)
      with g' w' v show ?thesis by (auto simp: keeps_def)
    qed
    show ?thesis
    proof (cases "sys_access (pipe_of m) ?t2 = 0")
      case False
      then have s': "s' = on_mapping p (\<lambda>m. m) ?t2"
        using r h g2 by (simp add: eq on_mapping_def [of p "\<lambda>m. m"] set_app_def only_mapping_def fun_upd_idem)
      have e: "(\<lambda>m. m) (?f1 m) = m\<lparr>ipcStreamHandle := Some (q, c), pipeConnect := pipeConnect m\<rparr>" using h by simp
      show ?thesis unfolding s'
        by (rule fin [of "?f1 m" ?t2 "\<lambda>m. m" "pipeConnect m" c, OF g2 e]) (use su w2 a1 u in \<open>simp_all add: adds_def quiet_def\<close>)
    next
      case True
      obtain er h3 t3 where 3: "streamClientConnect h (Sockaddr_un (pipe_of m)) ?t2 = (er, h3, t3)" by (metis prod_cases3)
      have k3: "streamClientConnect (Some (q, c)) (Sockaddr_un (pipe_of m)) ?t2 = (er, h3, t3)" using 3 h by simp
      have "fits (Sockaddr_un (pipe_of m))" using ok by (simp add: fields_ok_def)
      moreover have w3: "wf_world ?t2" using w2 a1 by (simp add: adds_def)
      moreover have n0: "\<not> stream_client_ctx.fd c < 0" using pos by simp
      ultimately obtain T where a3: "adds ?t2 t3 {} {} T"
        using streamClientConnect_rule [OF k3 w3, simplified n0 if_False] by blast
      from streamClientConnect_ctx [OF k3] su obtain c3 where c3: "h3 = Some (q, c3)"
        "stream_client_ctx.fd c3 = stream_client_ctx.fd c" "client_set_up p c3" by (auto simp: client_set_up_def)
      have g3: "only_mapping p (?f1 m) (app s) (app t3)" using g2 adds_app [OF a3] by simp
      let ?f4 = "\<lambda>m. m\<lparr>ipcStreamHandle := h3\<rparr>"
      note g4 = only_mapping_on [OF g3, of ?f4] and w4 = on_mapping_world [OF g3, of ?f4]
      have v: "wf_world (on_mapping p ?f4 t3)" "heap (on_mapping p ?f4 t3) = insert q (heap ?t)"
        "fds (on_mapping p ?f4 t3) = insert (stream_client_ctx.fd c) (fds ?t)" "faults (on_mapping p ?f4 t3) = faults s"
        using w4 w2 a1 a3 u by (simp_all add: adds_def quiet_def)
      show ?thesis
      proof (cases "er = 0")
        case True
        with \<open>sys_access (pipe_of m) ?t2 = 0\<close> 3 r h have s': "s' = on_mapping p (\<lambda>m. m\<lparr>pipeConnect := 1\<rparr>) (on_mapping p ?f4 t3)"
          by (simp add: eq)
        have e: "(\<lambda>m. m\<lparr>pipeConnect := 1\<rparr>) (?f4 (?f1 m)) = m\<lparr>ipcStreamHandle := Some (q, c3), pipeConnect := 1\<rparr>"
          using c3(1) by simp
        show ?thesis unfolding s' by (rule fin [of "?f4 (?f1 m)" "on_mapping p ?f4 t3" "\<lambda>m. m\<lparr>pipeConnect := 1\<rparr>" 1 c3, OF g4 e c3(3,2) v]) simp
      next
        case False
        let ?v = "PRINT (''WRN: comm_ipcStreamClientConnect'' @ newline) (on_mapping p ?f4 t3)"
        from False \<open>sys_access (pipe_of m) ?t2 = 0\<close> 3 r h have s': "s' = on_mapping p (\<lambda>m. m\<lparr>pipeConnect := 0\<rparr>) ?v"
          by (simp add: eq)
        have g5: "only_mapping p (?f4 (?f1 m)) (app s) (app ?v)" using g4 by simp
        have e: "(\<lambda>m. m\<lparr>pipeConnect := 0\<rparr>) (?f4 (?f1 m)) = m\<lparr>ipcStreamHandle := Some (q, c3), pipeConnect := 0\<rparr>"
          using c3(1) by simp
        show ?thesis unfolding s' by (rule fin [of "?f4 (?f1 m)" ?v "\<lambda>m. m\<lparr>pipeConnect := 0\<rparr>" 0 c3, OF g5 e c3(3,2)]) (use v in simp_all)
      qed
    qed
  qed
qed

end
