(* ===== verification/Nptp_Life.thy ===== *)
theory Nptp_Life
  imports Nptp_Inv
begin

text \<open>
  The operations on all mappings keep the invariant of the service: opening and closing the
  proxies, watching the directories, connecting a pipe that was created, the commands, and the
  whole life cycle from \<^verbatim>\<open>serv_init\<close> to \<^verbatim>\<open>serv_uninit\<close>.
\<close>

section \<open>Changes that own nothing\<close>

definition same_service :: "nptp \<Rightarrow> nptp \<Rightarrow> bool" where
  "same_service g g' \<longleftrightarrow> g_pMapping g' = g_pMapping g \<and> g_mappingNum g' = g_mappingNum g \<and> mappings g' = mappings g \<and>
     g_inotifyFd g' = g_inotifyFd g"

text \<open>The rest of the process may take and give back what is its own.\<close>

lemma nptp_inv_rest:
  assumes i: "nptp_inv H F ps s" and g: "same_service (app s) (app s')" and w: "wf_world s'"
    and h: "heap s' = (heap s - H) \<union> H'" "H' \<inter> (heap s - H) = {}"
    and f: "fds s' = (fds s - F) \<union> F'" "F' \<inter> (fds s - F) = {}" "0 \<in> F'"
  shows "nptp_inv H' F' ps s'"
proof -
  let ?h = "\<lambda>p. map_heap p (the (mappings (app s) p))" and ?f = "\<lambda>p. map_fds (the (mappings (app s) p))"
  have e: "g_pMapping (app s') = g_pMapping (app s)" "g_mappingNum (app s') = g_mappingNum (app s)"
    "mappings (app s') = mappings (app s)" "watch_fds (app s') = watch_fds (app s)"
    using g by (simp_all add: same_service_def watch_fds_def)
  have H: "heap s = H \<union> (\<Union>p\<in>set ps. ?h p)" "\<forall>p\<in>set ps. ?h p \<inter> H = {}" "pairwise (\<lambda>p q. ?h p \<inter> ?h q = {}) (set ps)"
    and F: "fds s = (watch_fds (app s) \<union> F) \<union> (\<Union>p\<in>set ps. ?f p)" "\<forall>p\<in>set ps. ?f p \<inter> (watch_fds (app s) \<union> F) = {}"
    "pairwise (\<lambda>p q. ?f p \<inter> ?f q = {}) (set ps)" "watch_fds (app s) \<inter> F = {}"
    using i by (simp_all add: nptp_inv_def parts_def)
  have rh: "heap s - H = (\<Union>p\<in>set ps. ?h p)" using H(1,2) by (auto simp: set_eq_iff disjoint_iff)
  have rf: "fds s - F = watch_fds (app s) \<union> (\<Union>p\<in>set ps. ?f p)" using F(1,2,4) by (auto simp: set_eq_iff disjoint_iff)
  have h2: "\<forall>p\<in>set ps. ?h p \<inter> H' = {}" using h(2) unfolding rh disjoint_iff by blast
  have f2: "\<forall>p\<in>set ps. ?f p \<inter> (watch_fds (app s) \<union> F') = {}" "watch_fds (app s) \<inter> F' = {}"
    using f(2) F(2) unfolding rf disjoint_iff by blast+
  have "parts ?h ps H' (heap s')" unfolding parts_def h(1) rh using h2 H(3) by (simp add: Un_commute)
  moreover have "parts ?f ps (watch_fds (app s) \<union> F') (fds s')"
    unfolding parts_def f(1) rf using f2 F(3) by (simp add: Un_ac)
  moreover have "table_ok ps s'"
    using i e \<open>parts ?h ps H' (heap s')\<close> by (auto simp: nptp_inv_def table_ok_def parts_def map_heap_def)
  ultimately show ?thesis using i w f(3) f2(2) by (simp add: nptp_inv_def e)
qed

lemma nptp_inv_D:
  assumes "nptp_inv H F ps s"
  shows "wf_world s" "0 \<in> F" "0 \<in> fds s" "H \<subseteq> heap s" "F \<subseteq> fds s" "table_ok ps s"
proof -
  have "parts (\<lambda>p. map_heap p (the (mappings (app s) p))) ps H (heap s)"
    "parts (\<lambda>p. map_fds (the (mappings (app s) p))) ps (watch_fds (app s) \<union> F) (fds s)"
    using assms by (simp_all add: nptp_inv_def)
  from parts_super [OF this(1)] parts_super [OF this(2)] show "H \<subseteq> heap s" "F \<subseteq> fds s" by simp_all
  then show "wf_world s" "0 \<in> F" "0 \<in> fds s" "table_ok ps s" using assms by (auto simp: nptp_inv_def)
qed

lemma nptp_inv_frame:
  assumes i: "nptp_inv H F ps s" and g: "same_service (app s) (app s')" and w: "wf_world s'"
    and h: "heap s' = heap s" "fds s' = fds s"
  shows "nptp_inv H F ps s'"
  using nptp_inv_D [OF i] h by (intro nptp_inv_rest [OF i g w]) (auto simp: set_eq_iff)

lemma same_service_refl [simp]: "same_service g g"
  by (simp add: same_service_def)

lemma same_service_PRINT [simp]: "same_service g (app (PRINT x s)) = same_service g (app s)"
  by (simp add: same_service_def)

lemma same_service_log [simp]: "same_service g (app (set_log f s)) = same_service g (app s)"
  by (simp add: same_service_def set_log_def)

lemma nptp_inv_PRINT [simp]: "nptp_inv H F ps s \<Longrightarrow> nptp_inv H F ps (PRINT x s)"
  by (rule nptp_inv_frame) (simp_all add: nptp_inv_D)

lemma nptp_inv_log: "nptp_inv H F ps s \<Longrightarrow> nptp_inv H F ps (set_log f s)"
  by (rule nptp_inv_frame) (simp_all add: nptp_inv_D set_log_def same_service_def)

section \<open>Operations on all mappings\<close>

text \<open>
  \<open>kept H F ps X s s'\<close>: the invariant still holds, nothing undefined has happened, only the mappings
  in \<open>X\<close> may have changed.
\<close>

definition kept :: "addr set \<Rightarrow> int set \<Rightarrow> addr list \<Rightarrow> addr set \<Rightarrow> nptp world \<Rightarrow> nptp world \<Rightarrow> bool" where
  "kept H F ps X s s' \<longleftrightarrow> nptp_inv H F ps s' \<and> faults s' = faults s \<and> (\<forall>q. q \<notin> X \<longrightarrow> mappings (app s') q = mappings (app s) q) \<and>
     g_pMapping (app s') = g_pMapping (app s) \<and> g_mappingNum (app s') = g_mappingNum (app s) \<and>
     g_inotifyFd (app s') = g_inotifyFd (app s) \<and> g_ipcDgramhandle (app s') = g_ipcDgramhandle (app s)"

lemma keeps_kept: "keeps H F ps p s s' \<Longrightarrow> kept H F ps {p} s s'"
  by (auto simp: keeps_def kept_def only_mapping_def)

lemma kept_refl: "nptp_inv H F ps s \<Longrightarrow> kept H F ps X s s"
  by (simp add: kept_def)

lemma kept_trans: "kept H F ps X s t \<Longrightarrow> kept H F ps Y t u \<Longrightarrow> kept H F ps (X \<union> Y) s u"
  by (auto simp: kept_def)

lemma kept_mono: "kept H F ps X s t \<Longrightarrow> X \<subseteq> Y \<Longrightarrow> kept H F ps Y s t"
  by (auto simp: kept_def)

lemma kept_same:
  assumes "nptp_inv H F ps s" "same_service (app s) (app s')" "g_ipcDgramhandle (app s') = g_ipcDgramhandle (app s)"
    "wf_world s'" "heap s' = heap s" "fds s' = fds s" "faults s' = faults s"
  shows "kept H F ps {} s s'"
  using assms nptp_inv_frame [OF assms(1,2,4,5,6)] by (simp add: kept_def same_service_def)

lemma kept_inv: "kept H F ps X s t \<Longrightarrow> nptp_inv H F ps t"
  by (simp add: kept_def)

text \<open>A loop over mappings, with a result established for each that no later turn destroys.\<close>

lemma fold_kept:
  "\<forall>p\<in>set qs. \<forall>t. nptp_inv H F ps t \<longrightarrow> kept H F ps {p} t (f p t) \<and> Q p (mappings (app (f p t)) p) \<Longrightarrow>
   distinct qs \<Longrightarrow> nptp_inv H F ps s \<Longrightarrow>
   kept H F ps (set qs) s (fold f qs s) \<and> (\<forall>p\<in>set qs. Q p (mappings (app (fold f qs s)) p))"
proof (induction qs arbitrary: s)
  case Nil
  then show ?case by (simp add: kept_refl)
next
  case (Cons p qs)
  have 1: "kept H F ps {p} s (f p s)" "Q p (mappings (app (f p s)) p)" using Cons.prems by simp_all
  have 2: "kept H F ps (set qs) (f p s) (fold f qs (f p s)) \<and>
      (\<forall>r\<in>set qs. Q r (mappings (app (fold f qs (f p s))) r))"
    using Cons.IH [of "f p s"] Cons.prems(1,2) kept_inv [OF 1(1)] by simp
  have "p \<notin> set qs" using Cons.prems(2) by simp
  with 2 have "mappings (app (fold f qs (f p s))) p = mappings (app (f p s)) p" by (simp add: kept_def)
  with kept_trans [OF 1(1)] 1(2) 2 show ?case by simp
qed

lemma fold_skip: "\<forall>p\<in>set qs. p \<noteq> NULL \<Longrightarrow> fold (\<lambda>p s. if p \<noteq> NULL then f p s else s) qs s = fold f qs s"
  by (induction qs arbitrary: s) simp_all

lemma inv_mapping:
  assumes "nptp_inv H F ps s" "p \<in> set ps"
  obtains m where "mappings (app s) p = Some m"
  using assms by (auto simp: nptp_inv_def elim!: table_ok_D)

lemma table_loop:
  assumes "nptp_inv H F ps s"
  shows "fold (\<lambda>p s. if p \<noteq> NULL then f p s else s) (table_list (app s)) s = fold f ps s" "distinct ps"
    "table_list (app s) = ps" "\<forall>p\<in>set ps. p \<noteq> NULL"
proof -
  have t: "table_ok ps s" using nptp_inv_D [OF assms] by simp
  show l: "table_list (app s) = ps" by (rule table_list [OF t])
  show n: "\<forall>p\<in>set ps. p \<noteq> NULL" "distinct ps" using t by (auto simp: table_ok_def)
  show "fold (\<lambda>p s. if p \<noteq> NULL then f p s else s) (table_list (app s)) s = fold f ps s"
    unfolding l by (rule fold_skip [OF n(1)])
qed

section \<open>The proxies\<close>

lemma proxy_init_loop_kept:
  "nptp_inv H F ps s \<Longrightarrow> distinct qs \<Longrightarrow> set qs \<subseteq> set ps \<Longrightarrow>
   \<forall>p\<in>set qs. \<exists>m. mappings (app s) p = Some m \<and> tcpServerHandle m = None \<Longrightarrow> proxy_init_loop qs s = (e, s') \<Longrightarrow>
   kept H F ps (set qs) s s'"
proof (induction qs arbitrary: s)
  case Nil
  then show ?case by (simp add: kept_refl)
next
  case (Cons p qs)
  obtain m where m: "mappings (app s) p = Some m" "tcpServerHandle m = None" using Cons.prems(4) by auto
  obtain e1 s1 where 1: "proxy_launchTcp p s = (e1, s1)" by fastforce
  have k1: "kept H F ps {p} s s1"
    using keeps_kept [OF proxy_launchTcp_keeps [OF Cons.prems(1) m 1]] .
  have n: "p \<noteq> NULL" using Cons.prems(3) table_loop [OF Cons.prems(1)] by auto
  show ?case
  proof (cases "e1 = 0")
    case False
    with Cons.prems(5) 1 n k1 show ?thesis by (auto intro: kept_mono)
  next
    case True
    have i1: "nptp_inv H F ps s1" using kept_inv [OF k1] .
    obtain m1 where m1: "mappings (app s1) p = Some m1" using inv_mapping [OF i1] Cons.prems(3) by auto
    obtain e2 s2 where 2: "proxy_connectIpc p s1 = (e2, s2)" by fastforce
    have k2: "kept H F ps {p} s s2"
      using kept_trans [OF k1 keeps_kept [OF proxy_connectIpc_keeps [OF i1 m1 2]]] by simp
    show ?thesis
    proof (cases "e2 = 0")
      case False
      with Cons.prems(5) 1 2 n True k2 show ?thesis by (auto intro: kept_mono)
    next
      case ok: True
      have "\<forall>q\<in>set qs. \<exists>m. mappings (app s2) q = Some m \<and> tcpServerHandle m = None"
      proof
        fix q assume q: "q \<in> set qs"
        then have "q \<noteq> p" using Cons.prems(2) by auto
        with k2 have "mappings (app s2) q = mappings (app s) q" by (simp add: kept_def)
        with Cons.prems(4) q show "\<exists>m. mappings (app s2) q = Some m \<and> tcpServerHandle m = None" by simp
      qed
      moreover have "proxy_init_loop qs s2 = (e, s')" using Cons.prems(5) 1 2 n True ok by simp
      ultimately have "kept H F ps (set qs) s2 s'" using Cons.IH [OF kept_inv [OF k2]] Cons.prems by simp
      from kept_trans [OF k2 this] show ?thesis by simp
    qed
  qed
qed

lemma proxy_uninit_kept:
  assumes i: "nptp_inv H F ps s"
  shows "kept H F ps (set ps) s (proxy_uninit s) \<and>
    (\<forall>p\<in>set ps. \<exists>m. mappings (app (proxy_uninit s)) p = Some m \<and> tcpServerHandle m = None \<and> ipcStreamHandle m = None)"
proof -
  let ?Q = "\<lambda>p x. \<exists>m. x = Some m \<and> tcpServerHandle m = None \<and> ipcStreamHandle m = None"
  have "kept H F ps {p} t (proxy_ceaseTcp p (proxy_disconnectIpc p t)) \<and>
      ?Q p (mappings (app (proxy_ceaseTcp p (proxy_disconnectIpc p t))) p)" if p: "p \<in> set ps" and t: "nptp_inv H F ps t" for p t
  proof -
    obtain m where m: "mappings (app t) p = Some m" using inv_mapping [OF t p] .
    note d = proxy_disconnectIpc_keeps [OF t m]
    then have k1: "kept H F ps {p} t (proxy_disconnectIpc p t)" by (simp add: keeps_kept)
    note c = proxy_ceaseTcp_keeps [OF kept_inv [OF k1] conjunct2 [OF d]]
    then have "kept H F ps {p} (proxy_disconnectIpc p t) (proxy_ceaseTcp p (proxy_disconnectIpc p t))" by (simp add: keeps_kept)
    from kept_trans [OF k1 this] c show ?thesis by auto
  qed
  then have "\<forall>p\<in>set ps. \<forall>t. nptp_inv H F ps t \<longrightarrow> kept H F ps {p} t (proxy_ceaseTcp p (proxy_disconnectIpc p t)) \<and>
      ?Q p (mappings (app (proxy_ceaseTcp p (proxy_disconnectIpc p t))) p)" by blast
  from fold_kept [where Q = ?Q and f = "\<lambda>p s. proxy_ceaseTcp p (proxy_disconnectIpc p s)", OF this table_loop(2) [OF i] i]
  show ?thesis unfolding proxy_uninit_def table_loop(1) [OF i] .
qed
section \<open>Watching\<close>

lemma nptp_inv_field:
  assumes i: "nptp_inv H F ps s" and m: "mappings (app s) p = Some m" and g: "only_mapping p m' (app s) (app s')"
    and ok: "fields_ok p m'" and e: "tcpServerHandle m' = tcpServerHandle m" "tcpUsers m' = tcpUsers m"
      "ipcStreamHandle m' = ipcStreamHandle m"
    and w: "wf_world s'" "heap s' = heap s" "fds s' = fds s"
  shows "nptp_inv H F ps s'"
proof -
  have "server_heap m' = server_heap m" "server_fds m' = server_fds m" by (simp_all only: server_heap_def server_fds_def e)
  moreover have "server_heap m \<subseteq> heap s" "server_fds m \<subseteq> fds s"
    using nptp_inv_mapping [OF i m] by (simp_all add: map_heap_def map_fds_def)
  ultimately show ?thesis
    using w by (intro nptp_inv_server [OF i m g ok e(3)]) (auto simp: set_eq_iff)
qed

lemma watch_mapping_kept:
  assumes i: "nptp_inv H F ps s" and p: "p \<in> set ps"
  shows "kept H F ps {p} s (watch_mapping p s)"
proof -
  obtain m where m: "mappings (app s) p = Some m" using inv_mapping [OF i p] .
  have ok: "fields_ok p m" using nptp_inv_mapping [OF i m] by (simp add: mapping_ok_def)
  then have rd: "read_chars (pipePath m) s = (c_string (pipePath m), s)"
    by (simp add: read_chars_def fields_ok_def arrays_ok_def)
  obtain k t where k: "sys_inotify_add_watch (g_inotifyFd (app s)) (c_string (pipePath m)) s = (k, t)" by fastforce
  from sys_inotify_add_watch_rule [OF k nptp_inv_D(1) [OF i]] have t: "wf_world t" "heap t = heap s" "fds t = fds s"
    "faults t = faults s" "app t = app s" by (simp_all add: quiet_def res_def)
  have kt: "kept H F ps {} s t" by (rule kept_same [OF i]) (simp_all add: t)
  show ?thesis
  proof (cases "k < 0")
    case True
    then have "watch_mapping p s = t" by (simp add: watch_mapping_def m rd k)
    with kept_mono [OF kt] show ?thesis by simp
  next
    case False
    let ?f = "\<lambda>m. m\<lparr>wd := k\<rparr>"
    have s': "watch_mapping p s = on_mapping p ?f t" using False by (simp add: watch_mapping_def m rd k)
    have g: "only_mapping p m (app s) (app t)" using t only_mapping_refl [OF m] by simp
    note g' = only_mapping_on [OF g, of ?f, folded s'] and w' = on_mapping_world [OF g, of ?f, folded s']
    have "nptp_inv H F ps (watch_mapping p s)"
      by (rule nptp_inv_field [OF i m g']) (use ok w' t in \<open>simp_all add: fields_ok_def\<close>)
    with g' w' t have "keeps H F ps p s (watch_mapping p s)" by (auto simp: keeps_def)
    then show ?thesis by (rule keeps_kept)
  qed
qed

lemma unwatch_mapping_kept:
  assumes i: "nptp_inv H F ps s" and p: "p \<in> set ps"
  shows "kept H F ps {p} s (unwatch_mapping p s)"
proof -
  obtain m where m: "mappings (app s) p = Some m" using inv_mapping [OF i p] .
  have ok: "fields_ok p m" using nptp_inv_mapping [OF i m] by (simp add: mapping_ok_def)
  show ?thesis
  proof (cases "0 \<le> wd m")
    case False
    then show ?thesis using kept_refl [OF i] by (simp add: unwatch_mapping_def m)
  next
    case True
    let ?t = "sys_inotify_rm_watch (g_inotifyFd (app s)) (wd m) s" and ?f = "\<lambda>m. m\<lparr>wd := -1\<rparr>"
    note r = sys_inotify_rm_watch_rule [of s "g_inotifyFd (app s)" "wd m"]
    have t: "wf_world ?t" "heap ?t = heap s" "fds ?t = fds s" "faults ?t = faults s" "app ?t = app s"
      using r nptp_inv_D(1) [OF i] by (simp_all add: quiet_def res_def)
    have s': "unwatch_mapping p s = on_mapping p ?f ?t" using True by (simp add: unwatch_mapping_def m)
    have g: "only_mapping p m (app s) (app ?t)" using t only_mapping_refl [OF m] by simp
    note g' = only_mapping_on [OF g, of ?f, folded s'] and w' = on_mapping_world [OF g, of ?f, folded s']
    have "nptp_inv H F ps (unwatch_mapping p s)"
      by (rule nptp_inv_field [OF i m g']) (use ok w' t in \<open>simp_all add: fields_ok_def\<close>)
    with g' w' t have "keeps H F ps p s (unwatch_mapping p s)" by (auto simp: keeps_def)
    then show ?thesis by (rule keeps_kept)
  qed
qed

text \<open>The descriptor that watches is taken or given back.\<close>

lemma nptp_inv_watch:
  assumes i: "nptp_inv H F ps s" and g: "same_service ((app s)\<lparr>g_inotifyFd := n\<rparr>) (app s')" and w: "wf_world s'"
    and h: "heap s' = heap s" and f: "fds s' = (fds s - watch_fds (app s)) \<union> (if 0 \<le> n then {n} else {})"
      "0 \<le> n \<longrightarrow> n \<notin> fds s - watch_fds (app s)"
  shows "nptp_inv H F ps s'"
proof -
  let ?f = "\<lambda>p. map_fds (the (mappings (app s) p))" and ?W = "if 0 \<le> n then {n} else {}"
  have e: "g_pMapping (app s') = g_pMapping (app s)" "g_mappingNum (app s') = g_mappingNum (app s)"
    "mappings (app s') = mappings (app s)" "watch_fds (app s') = ?W"
    using g by (simp_all add: same_service_def watch_fds_def)
  have F: "fds s = (watch_fds (app s) \<union> F) \<union> (\<Union>p\<in>set ps. ?f p)" "\<forall>p\<in>set ps. ?f p \<inter> (watch_fds (app s) \<union> F) = {}"
    "pairwise (\<lambda>p q. ?f p \<inter> ?f q = {}) (set ps)" "watch_fds (app s) \<inter> F = {}"
    using i by (simp_all add: nptp_inv_def parts_def)
  have rf: "fds s - watch_fds (app s) = F \<union> (\<Union>p\<in>set ps. ?f p)" using F(1,2,4) by (auto simp: set_eq_iff disjoint_iff)
  have d: "?W \<inter> (F \<union> (\<Union>p\<in>set ps. ?f p)) = {}" using f(2) unfolding rf by (cases "0 \<le> n") simp_all
  have f2: "\<forall>p\<in>set ps. ?f p \<inter> (?W \<union> F) = {}" "?W \<inter> F = {}" using d F(2) unfolding disjoint_iff by blast+
  have "parts ?f ps (?W \<union> F) (fds s')" unfolding parts_def f(1) rf using f2 F(3) by (simp only: Un_ac)
  moreover have "table_ok ps s'" using i e h by (simp add: nptp_inv_def table_ok_def)
  ultimately show ?thesis using i w f2(2) h by (simp add: nptp_inv_def e)
qed

lemma event_init_inv:
  assumes i: "nptp_inv H F ps s" and n: "g_inotifyFd (app s) < 0" and r: "event_init s = (e, s')"
  shows "nptp_inv H F ps s' \<and> faults s' = faults s \<and> g_ipcDgramhandle (app s') = g_ipcDgramhandle (app s) \<and>
    (e = 0 \<longrightarrow> 0 \<le> g_inotifyFd (app s'))"
proof -
  obtain n t where 1: "sys_inotify_init s = (n, t)" by fastforce
  let ?t = "set_app (\<lambda>g. g\<lparr>g_inotifyFd := n\<rparr>) t"
  note w = nptp_inv_D [OF i]
  from sys_inotify_init_rule [OF 1 w(1)] have q: "quiet s t" "wf_world t" "heap t = heap s"
    "n < 0 \<and> fds t = fds s \<or> 0 \<le> n \<and> n \<notin> fds s \<and> fds t = insert n (fds s)" by simp_all
  have a: "app t = app s" "faults t = faults s" using q(1) by (simp_all add: quiet_def)
  have i2: "nptp_inv H F ps ?t"
    by (rule nptp_inv_watch [OF i]) (use q a assms(2) in \<open>auto simp: same_service_def watch_fds_def\<close>)
  show ?thesis
  proof (cases "n < 0")
    case True
    with r 1 i2 a show ?thesis by (auto simp: event_init_def)
  next
    case False
    have "\<forall>p\<in>set ps. \<forall>t. nptp_inv H F ps t \<longrightarrow> kept H F ps {p} t (watch_mapping p t) \<and> True"
      using watch_mapping_kept by blast
    from fold_kept [where Q = "\<lambda>_ _. True", OF this table_loop(2) [OF i2] i2]
    have "kept H F ps (set ps) ?t (fold watch_mapping ps ?t)" by simp
    moreover have "s' = fold watch_mapping ps ?t"
      using r 1 False table_loop(1) [OF i2, of watch_mapping] by (simp add: event_init_def Let_def)
    ultimately show ?thesis using a False by (simp add: kept_def)
  qed
qed

lemma event_uninit_inv:
  assumes i: "nptp_inv H F ps s"
  shows "nptp_inv H F ps (event_uninit s) \<and> faults (event_uninit s) = faults s \<and> g_inotifyFd (app (event_uninit s)) < 0 \<and>
    g_ipcDgramhandle (app (event_uninit s)) = g_ipcDgramhandle (app s)"
proof -
  let ?t = "fold unwatch_mapping ps s"
  have "\<forall>p\<in>set ps. \<forall>t. nptp_inv H F ps t \<longrightarrow> kept H F ps {p} t (unwatch_mapping p t) \<and> True"
    using unwatch_mapping_kept by blast
  from fold_kept [where Q = "\<lambda>_ _. True", OF this table_loop(2) [OF i] i] have k: "kept H F ps (set ps) s ?t" by simp
  note i2 = kept_inv [OF k]
  have e: "event_uninit s = (if 0 \<le> g_inotifyFd (app ?t)
      then set_app (\<lambda>g. g\<lparr>g_inotifyFd := -1\<rparr>) (sys_close (g_inotifyFd (app ?t)) ?t) else ?t)"
    using table_loop(1) [OF i, of unwatch_mapping] by (simp add: event_uninit_def Let_def)
  show ?thesis
  proof (cases "0 \<le> g_inotifyFd (app ?t)")
    case False
    with e k show ?thesis by (simp add: kept_def)
  next
    case True
    let ?n = "g_inotifyFd (app ?t)"
    note c = sys_close_rule [of ?t ?n]
    have x: "wf_world (sys_close ?n ?t)" "heap (sys_close ?n ?t) = heap ?t" "fds (sys_close ?n ?t) = fds ?t - {?n}"
      "faults (sys_close ?n ?t) = faults ?t" "app (sys_close ?n ?t) = app ?t"
      using c nptp_inv_D(1) [OF i2] by (simp_all add: quiet_def)
    have "nptp_inv H F ps (event_uninit s)"
      by (rule nptp_inv_watch [OF i2, where n = "-1"]) (use e True x in \<open>simp_all add: same_service_def watch_fds_def\<close>)
    with e True x k show ?thesis by (simp add: kept_def)
  qed
qed

section \<open>Events and commands\<close>

lemma event_match_kept:
  assumes i: "nptp_inv H F ps s"
  shows "kept H F ps (set ps) s (event_match nam s)"
proof -
  let ?P = "\<lambda>p. p \<noteq> NULL \<and> (case mappings (app s) p of None \<Rightarrow> False
               | Some m \<Rightarrow> pipeConnect m = 0 \<and> c_string (pipeName m) = nam)"
  show ?thesis
  proof (cases "find ?P (g_pMapping (app s))")
    case None
    then show ?thesis using kept_refl [OF i] by (simp add: event_match_def)
  next
    case (Some p)
    then have "?P p" by (auto simp: find_Some_iff)
    then obtain m where m: "mappings (app s) p = Some m" by (auto split: option.splits)
    have "keeps H F ps p s (snd (proxy_connectIpc p s))"
      by (rule proxy_connectIpc_keeps [OF i m, of "fst (proxy_connectIpc p s)"]) simp
    from kept_mono [OF keeps_kept [OF this]] nptp_inv_mapping [OF i m] show ?thesis
      using Some by (simp add: event_match_def)
  qed
qed

lemma event_walk_kept: "nptp_inv H F ps s \<Longrightarrow> kept H F ps (set ps) s (event_walk buf len j s)"
proof (induction buf len j s rule: event_walk.induct)
  case (1 buf len j s)
  show ?case
  proof (cases "j < len")
    case False
    then show ?thesis using kept_refl [OF 1(2)] by (simp add: event_walk.simps [of buf len j])
  next
    case True
    note k = event_match_kept [OF 1(2), of "event_name buf j"]
    from kept_trans [OF k 1(1) [OF True kept_inv [OF k]]] True show ?thesis
      by (simp add: event_walk.simps [of buf len j])
  qed
qed

lemma eventBody_kept:
  assumes i: "nptp_inv H F ps s" and r: "eventBody s = (fl, s')"
  shows "kept H F ps (set ps) s s'"
proof -
  obtain len bs t where 1: "sys_read (g_inotifyFd (app s)) EVENT_BUFFER s = (len, bs, t)" by (metis prod_cases3)
  from sys_recv_rule [OF 1 [unfolded sys_read_def] nptp_inv_D(1) [OF i]]
  have t: "wf_world t" "heap t = heap s" "fds t = fds s" "faults t = faults s" "app t = app s"
    by (simp_all add: quiet_def res_def)
  have kt: "kept H F ps {} s t" by (rule kept_same [OF i]) (simp_all add: t)
  show ?thesis
  proof (cases "len \<le> 0")
    case True
    with r 1 kept_mono [OF kt] show ?thesis by (auto simp: eventBody_def split: if_splits)
  next
    case False
    with r 1 have "s' = event_walk (fill (replicate EVENT_BUFFER 0) bs) (nat len) 0 t" by (simp add: eventBody_def Let_def)
    with kept_trans [OF kt event_walk_kept [OF kept_inv [OF kt]]] show ?thesis by simp
  qed
qed

lemma serv_list_kept:
  assumes i: "nptp_inv H F ps s"
  shows "kept H F ps {} s (serv_list s)"
proof -
  let ?f = "\<lambda>p s. case mappings (app s) p of None \<Rightarrow> fault (Use_After_Free p) s | Some m \<Rightarrow> PRINT (serv_line m) s"
  have pr: "kept H F ps {} t (PRINT x t)" if "nptp_inv H F ps t" for x t
    by (rule kept_same [OF that]) (simp_all add: nptp_inv_D [OF that])
  have lp: "kept H F ps {} t (fold ?f qs t)" if "nptp_inv H F ps t" "set qs \<subseteq> set ps" for qs t
    using that
  proof (induction qs arbitrary: t)
    case Nil
    then show ?case by (simp add: kept_refl)
  next
    case (Cons q qs)
    obtain m where "mappings (app t) q = Some m" using inv_mapping [OF Cons.prems(1)] Cons.prems(2) by auto
    then have f: "?f q t = PRINT (serv_line m) t" by simp
    note k = pr [OF Cons.prems(1), of "serv_line m", folded f]
    show ?case using kept_trans [OF k Cons.IH [OF kept_inv [OF k]]] Cons.prems(2) by simp
  qed
  note k1 = pr [OF i, of newline]
  note k2 = lp [OF kept_inv [OF k1] subset_refl]
  have e: "serv_list s = PRINT newline (fold ?f ps (PRINT newline s))"
    unfolding serv_list_def Let_def table_loop(1) [OF kept_inv [OF k1]] ..
  show ?thesis unfolding e using kept_trans [OF kept_trans [OF k1 k2] pr [OF kept_inv [OF k2]]] by simp
qed

lemma ipcRecvFunc_inv:
  assumes i: "nptp_inv H F ps s"
  shows "nptp_inv H F ps (ipcRecvFunc a bs n path s) \<and> faults (ipcRecvFunc a bs n path s) = faults s \<and>
    g_ipcDgramhandle (app (ipcRecvFunc a bs n path s)) = g_ipcDgramhandle (app s)"
proof -
  have l: "nptp_inv H F ps (set_log f s) \<and> faults (set_log f s) = faults s \<and>
      g_ipcDgramhandle (app (set_log f s)) = g_ipcDgramhandle (app s)" for f
    using nptp_inv_log [OF i] by (simp add: set_log_def)
  have "nptp_inv H F ps (serv_list s) \<and> faults (serv_list s) = faults s \<and>
      g_ipcDgramhandle (app (serv_list s)) = g_ipcDgramhandle (app s)" using serv_list_kept [OF i] by (simp add: kept_def)
  with l event_uninit_inv [OF i] nptp_inv_PRINT [OF i] i show ?thesis
    unfolding ipcRecvFunc_def Let_def by (simp only: split: if_split) (simp add: l)
qed

end
