(* ===== verification/Nptp_Run.thy ===== *)
theory Nptp_Run
  imports Nptp_Life
begin

text \<open>
  The life of the service: it is set up, works in turns of its threads, and is torn down.
\<close>

section \<open>Setting up\<close>

text \<open>
  The invariant of the whole service, the socket for its commands included. \<open>H\<close> and \<open>F\<close> are the
  blocks and descriptors the process has besides.
\<close>

definition daemon_inv :: "addr set \<Rightarrow> int set \<Rightarrow> addr list \<Rightarrow> nptp world \<Rightarrow> bool" where
  "daemon_inv H F ps s \<longleftrightarrow> (case g_ipcDgramhandle (app s) of
       None \<Rightarrow> nptp_inv H F ps s
     | Some (q, c) \<Rightarrow> q \<notin> H \<and> ipc_dgram_ctx.fd c \<notin> F \<and> 0 < ipc_dgram_ctx.fd c \<and>
         ipc_dgram_ctx.pRecvFunc c = p_ipcRecvFunc \<and> nptp_inv (insert q H) (insert (ipc_dgram_ctx.fd c) F) ps s)"

text \<open>A configuration the program can read, with pipes whose paths fit the address of a socket.\<close>

definition node_ok :: "conf_env \<Rightarrow> xml_node \<Rightarrow> bool" where
  "node_ok env n \<longleftrightarrow> (is_mapping n \<longrightarrow> enable_of n \<noteq> None) \<and> (enabled n \<longrightarrow> node_fits env n \<and>
     (\<forall>t. tag_text env TAG_NAME_PIPE n = Some t \<longrightarrow> length (removeSpace t) < SUN_PATH))"

definition config_nodes :: "conf_env \<Rightarrow> xml_node list" where
  "config_nodes env = (case xmlReadFile env of Some (Some root) \<Rightarrow> children root | _ \<Rightarrow> [])"

definition config_ok :: "conf_env \<Rightarrow> bool" where
  "config_ok env \<longleftrightarrow> (\<forall>n\<in>set (config_nodes env). node_ok env n)"

definition config_size :: "conf_env \<Rightarrow> nat" where
  "config_size env = min MAX_MAPPING_NUM (length (filter enabled (config_nodes env)))"

lemma mapping_of_ok:
  assumes m: "mapping_of env n i m" and i: "i < 64"
    and t: "\<forall>t. tag_text env TAG_NAME_PIPE n = Some t \<longrightarrow> length (removeSpace t) < SUN_PATH"
  shows "mapping_ok p m \<and> map_heap p m = {p} \<and> map_fds m = {}"
proof -
  have "length (pipe_of m) < SUN_PATH"
    using m t by (cases "tag_text env TAG_NAME_PIPE n") (simp_all add: mapping_of_def SUN_PATH_def)
  with m i show ?thesis by (simp add: mapping_of_def mapping_ok_def fields_ok_def owned_defs user_ok_def flags_ok_def)
qed

text \<open>A table that owns only the blocks of its mappings.\<close>

lemma reads_inv:
  assumes r: "reads env [] ns qs s s'" and w: "0 \<in> fds s" "g_inotifyFd (app s) < 0"
    and ns: "\<forall>n\<in>set ns. enabled n \<and> node_ok env n" "length ns \<le> 64"
  shows "nptp_inv (heap s) (fds s) qs s' \<and> (\<forall>p\<in>set qs. \<exists>m. mappings (app s') p = Some m \<and> tcpServerHandle m = None \<and>
    ipcStreamHandle m = None \<and> pipeConnect m = 0)"
proof -
  have t: "table_ok qs s'" "wf_world s'" "length qs = length ns" "heap s' = set qs \<union> heap s" "set qs \<inter> heap s = {}"
    "fds s' = fds s" "g_inotifyFd (app s') = g_inotifyFd (app s)" using r by (simp_all add: reads_def)
  have q: "\<exists>m. mappings (app s') p = Some m \<and> tcpServerHandle m = None \<and> ipcStreamHandle m = None \<and> pipeConnect m = 0 \<and>
      mapping_ok p m \<and> map_heap p m = {p} \<and>
      map_fds m = {}" if p: "p \<in> set qs" for p
  proof -
    obtain i where i: "i < length ns" "p = qs ! i" using p t(3) by (metis in_set_conv_nth)
    then obtain m where m: "mappings (app s') p = Some m" "mapping_of env (ns ! i) i m" using r by (auto simp: reads_def)
    from i ns have "node_ok env (ns ! i)" "enabled (ns ! i)" "i < 64" by auto
    with mapping_of_ok [OF m(2)] m show ?thesis by (simp add: node_ok_def mapping_of_def)
  qed
  have o: "mapping_ok p (the (mappings (app s') p))" "map_heap p (the (mappings (app s') p)) = {p}"
    "map_fds (the (mappings (app s') p)) = {}" if "p \<in> set qs" for p using q [OF that] by auto
  have "parts (\<lambda>p. map_heap p (the (mappings (app s') p))) qs (heap s) (heap s')"
    using o(2) t(4,5) by (auto simp: parts_def pairwise_def Un_commute)
  moreover have "parts (\<lambda>p. map_fds (the (mappings (app s') p))) qs (watch_fds (app s') \<union> fds s) (fds s')"
    using o(3) t(6,7) w(2) by (simp add: parts_def pairwise_def watch_fds_def)
  ultimately have "nptp_inv (heap s) (fds s) qs s'"
    using o(1) t w by (simp add: nptp_inv_def watch_fds_def)
  with q show ?thesis by blast
qed

lemma xml_init_inv:
  assumes c: "config_ok env" and t: "table_ok [] s" "wf_world s" "0 \<in> fds s" "g_inotifyFd (app s) < 0"
    and sc: "script s = replicate (config_size env) Done @ rs" and r: "xml_init env s = (e, s')"
  shows "\<exists>ps. e \<noteq> None \<and> nptp_inv (heap s) (fds s) ps s' \<and>
    (\<forall>p\<in>set ps. \<exists>m. mappings (app s') p = Some m \<and> tcpServerHandle m = None \<and> ipcStreamHandle m = None \<and>
      pipeConnect m = 0) \<and> faults s' = faults s \<and>
    g_inotifyFd (app s') < 0 \<and> g_ipcDgramhandle (app s') = g_ipcDgramhandle (app s)"
proof (cases "\<exists>root. xmlReadFile env = Some (Some root)")
  case True
  then obtain root where root: "xmlReadFile env = Some (Some root)" by blast
  have n: "config_nodes env = children root" by (simp add: config_nodes_def root)
  let ?ns = "take (config_size env) (filter enabled (children root))"
  have d: "\<forall>n\<in>set (children root). is_mapping n \<longrightarrow> enable_of n \<noteq> None"
    "\<forall>n\<in>set (children root). enabled n \<longrightarrow> node_fits env n"
    using c by (simp_all add: config_ok_def n node_ok_def)
  from xml_init_reads [OF root d t(1,2) sc] obtain qs u where u: "xml_init env s = (Some 0, u)" "reads env [] ?ns qs s u"
    by (auto simp: config_size_def n)
  have "\<forall>n\<in>set ?ns. enabled n \<and> node_ok env n" using c by (auto simp: config_ok_def n dest: in_set_takeD)
  from reads_inv [OF u(2) t(3,4) this] u r show ?thesis
    using t(4) by (intro exI [of _ qs]) (auto simp: reads_def config_size_def MAX_MAPPING_NUM_def)
next
  case False
  have i: "nptp_inv (heap s) (fds s) [] s" using t by (simp add: nptp_inv_def parts_def watch_fds_def)
  from False have "\<exists>f x. e = Some x \<and> s' = PRINT f (set_app (\<lambda>g. g\<lparr>xml_docs := xml_docs g + k\<rparr>) s)"
    if "k = (if xmlReadFile env = None then 0 else 1)" for k
    using r that by (auto simp: xml_init_def set_app_def split: option.splits)
  then obtain f x k where s': "e = Some x" "s' = PRINT f (set_app (\<lambda>g. g\<lparr>xml_docs := xml_docs g + k\<rparr>) s)" by blast
  have "nptp_inv (heap s) (fds s) [] s'"
    by (rule nptp_inv_frame [OF i]) (use s' t in \<open>simp_all add: same_service_def\<close>)
  with s' t show ?thesis by (intro exI [of _ "[]"]) simp
qed
text \<open>Whatever goes wrong while setting up, the service is in order, and can be torn down.\<close>

lemma proxy_init_inv:
  assumes i: "nptp_inv H F ps s" and m: "\<forall>p\<in>set ps. \<exists>m. mappings (app s) p = Some m \<and> tcpServerHandle m = None"
    and r: "proxy_init s = (e, s')"
  shows "kept H F ps (set ps) s s'"
  using proxy_init_loop_kept [OF i table_loop(2) [OF i] subset_refl m] r
  by (simp add: proxy_init_def table_loop(3) [OF i])

lemma xml_uninit_id [simp]: "xml_uninit s = s"
  by (simp add: xml_uninit_def)

lemma serv_init_inv:
  assumes c: "config_ok env" and g: "mappings (app s) = Map.empty" "g_inotifyFd (app s) < 0" "g_ipcDgramhandle (app s) = None"
    and w: "wf_world s" "0 \<in> fds s" and sc: "script s = replicate (config_size env) Done @ rs"
    and r: "serv_init env s = (e, s')"
  shows "\<exists>ps. e \<noteq> None \<and> daemon_inv (heap s) (fds s) ps s' \<and> faults s' = faults s \<and>
    (e = Some 0 \<and> 0 \<le> g_inotifyFd (app s') \<or> e = Some (-1))"
proof -
  let ?H = "heap s" and ?F = "fds s"
  let ?s = "set_app (\<lambda>g. g\<lparr>g_pMapping := replicate MAX_MAPPING_NUM NULL, g_mappingNum := 0\<rparr>)
    (set_log (comm_setLogMask LOG_MASK_NONE) s)"
  have "table_ok [] ?s" "wf_world ?s" "0 \<in> fds ?s" "g_inotifyFd (app ?s) < 0"
    "script ?s = replicate (config_size env) Done @ rs" using g w sc by (simp_all add: table_ok_def set_log_def)
  note x0 = xml_init_inv [OF c this]
  obtain e1 s1 where 1: "xml_init env ?s = (e1, s1)" by fastforce
  from x0 [OF 1] g(3) obtain ps k where x: "e1 = Some k" "nptp_inv ?H ?F ps s1" "g_inotifyFd (app s1) < 0"
    "\<forall>p\<in>set ps. \<exists>m. mappings (app s1) p = Some m \<and> tcpServerHandle m = None" "faults s1 = faults s"
    "g_ipcDgramhandle (app s1) = None" by (fastforce simp: set_log_def)
  have fin: ?thesis if "e = Some (-1)" "nptp_inv ?H ?F ps s'" "faults s' = faults s" "g_ipcDgramhandle (app s') = None"
    using that by (auto simp: daemon_inv_def intro!: exI [of _ ps])
  note r' = r [unfolded serv_init_def Let_def 1 prod.case x(1) option.case]
  show ?thesis
  proof (cases "k \<noteq> 0 \<or> g_mappingNum (app s1) = 0")
    case True
    with r' have "e = Some (-1) \<and> (\<exists>f. s' = PRINT f s1)" by (auto split: if_splits)
    with x show ?thesis by (intro fin) auto
  next
    case False
    obtain e2 s2 where 2: "proxy_init s1 = (e2, s2)" by fastforce
    note k2 = proxy_init_inv [OF x(2,4) 2]
    note i2 = kept_inv [OF k2]
    show ?thesis
    proof (cases "e2 = 0")
      case e2: False
      with r' False 2 have "e = Some (-1) \<and> (\<exists>f. s' = PRINT f s2)" by auto
      with k2 x i2 show ?thesis by (intro fin) (auto simp: kept_def)
    next
      case e2: True
      let ?l = "PRINT (''service ready'' @ newline) (serv_list s2)"
      note kl = serv_list_kept [OF i2]
      have l: "nptp_inv ?H ?F ps ?l" "g_inotifyFd (app ?l) < 0" "faults ?l = faults s" "g_ipcDgramhandle (app ?l) = None"
        using nptp_inv_PRINT [OF kept_inv [OF kl]] kl k2 x by (simp_all add: kept_def)
      obtain e3 s3 where 3: "event_init ?l = (e3, s3)" by fastforce
      note i3 = event_init_inv [OF l(1,2) 3]
      show ?thesis
      proof (cases "e3 = 0")
        case e3: False
        let ?t = "PRINT (''ERR: event_init ... failed'' @ newline) s3"
        have t: "nptp_inv ?H ?F ps ?t" using i3 by simp
        have "s' = proxy_uninit ?t" "e = Some (-1)" using r' False 2 e2 3 e3 by auto
        with proxy_uninit_kept [OF t] i3 l show ?thesis by (intro fin) (simp_all add: kept_def)
      next
        case e3: True
        obtain h s4 where 4: "ipcDgramInit IPC_DGRAM_FILE_PATH p_ipcRecvFunc NULL s3 = (h, s4)" by fastforce
        have w3: "wf_world s3" "0 \<in> fds s3" using i3 nptp_inv_D(1,3) by blast+
        note a = ipcDgramInit_adds [OF 4 w3(1,2)]
        have fit: "length IPC_DGRAM_FILE_PATH < SUN_PATH" by (simp add: IPC_DGRAM_FILE_PATH_def SUN_PATH_def)
        let ?u = "set_app (\<lambda>g. g\<lparr>g_ipcDgramhandle := h\<rparr>) s4"
        have ee: "(e, s') = (if h = None then (Some (-1), proxy_uninit (event_uninit
            (PRINT (''ERR: comm_ipcDgramInit ... failed'' @ newline) ?u))) else (Some 0, ?u))"
          using r' False 2 e2 3 e3 4 by (cases h) simp_all
        show ?thesis
        proof (cases h)
          case None
          with a fit have a1: "adds s3 s4 {} {} {}" by simp
          let ?v = "PRINT (''ERR: comm_ipcDgramInit ... failed'' @ newline) ?u"
          have v: "nptp_inv ?H ?F ps ?v"
            by (rule nptp_inv_frame [OF conjunct1 [OF i3]]) (use a1 adds_app [OF a1] in \<open>simp_all add: same_service_def adds_def\<close>)
          note y = event_uninit_inv [OF v]
          with proxy_uninit_kept [OF conjunct1 [OF y]] ee None adds_app [OF a1] i3 l show ?thesis
            by (intro fin) (simp_all add: kept_def)
        next
          case (Some z)
          then obtain q d where h: "h = Some (q, d)" by (cases z) auto
          with a fit have d: "0 < ipc_dgram_ctx.fd d" "ipc_dgram_ctx.pRecvFunc d = p_ipcRecvFunc"
            "adds s3 s4 {ipc_dgram_ctx.fd d} {q} (ipc_dgram_threads d)" by simp_all
          have n: "q \<notin> heap s3" "ipc_dgram_ctx.fd d \<notin> fds s3" using d(3) by (auto simp: adds_def disjoint_iff)
          have sub: "?H \<subseteq> heap s3" "?F \<subseteq> fds s3" "0 \<in> ?F" using i3 nptp_inv_D(2,4,5) by blast+
          have "nptp_inv (insert q ?H) (insert (ipc_dgram_ctx.fd d) ?F) ps ?u"
            by (rule nptp_inv_rest [OF conjunct1 [OF i3]])
              (use d(3) adds_app [OF d(3)] n sub in \<open>auto simp: same_service_def adds_def Un_absorb2\<close>)
          moreover have "e = Some 0" "s' = ?u" using ee h by simp_all
          ultimately show ?thesis using h d n sub adds_app [OF d(3)] i3 l e3
            by (intro exI [of _ ps]) (auto simp: daemon_inv_def)
        qed
      qed
    qed
  qed
qed

section \<open>Tearing down\<close>

lemma free_mapping_rule:
  assumes "wf_world s" "p \<in> heap s"
  shows "wf_world (free_mapping p s) \<and> faults (free_mapping p s) = faults s \<and> fds (free_mapping p s) = fds s \<and>
    heap (free_mapping p s) = heap s - {p} \<and> mappings (app (free_mapping p s)) = (mappings (app s))(p := None) \<and>
    g_pMapping (app (free_mapping p s)) = map (\<lambda>q. if q = p then NULL else q) (g_pMapping (app s))"
  using c_free_rule [OF assms] by (simp add: free_mapping_def app_calls quiet_def)

lemma free_mappings:
  "wf_world s \<Longrightarrow> distinct qs \<Longrightarrow> set qs \<subseteq> heap s \<Longrightarrow>
   wf_world (fold free_mapping qs s) \<and> faults (fold free_mapping qs s) = faults s \<and> fds (fold free_mapping qs s) = fds s \<and>
   heap (fold free_mapping qs s) = heap s - set qs \<and>
   mappings (app (fold free_mapping qs s)) = mappings (app s) |` (- set qs) \<and>
   g_pMapping (app (fold free_mapping qs s)) = map (\<lambda>q. if q \<in> set qs then NULL else q) (g_pMapping (app s))"
proof (induction qs arbitrary: s)
  case Nil
  then show ?case by simp
next
  case (Cons p qs)
  from Cons.prems have p: "wf_world s" "p \<in> heap s" by simp_all
  note f = free_mapping_rule [OF p]
  then have sub: "set qs \<subseteq> heap (free_mapping p s)" and d: "distinct qs" using Cons.prems by auto
  from f have e: "faults (free_mapping p s) = faults s" "fds (free_mapping p s) = fds s"
    "heap (free_mapping p s) = heap s - {p}" "mappings (app (free_mapping p s)) = (mappings (app s))(p := None)"
    "g_pMapping (app (free_mapping p s)) = map (\<lambda>q. if q = p then NULL else q) (g_pMapping (app s))" by blast+
  have m: "(mappings (app s))(p := None) |` (- set qs) = mappings (app s) |` (- set (p # qs))"
    by (auto simp: fun_eq_iff restrict_map_def)
  have g: "map (\<lambda>q. if q \<in> set qs then NULL else q) (map (\<lambda>q. if q = p then NULL else q) (g_pMapping (app s))) =
      map (\<lambda>q. if q \<in> set (p # qs) then NULL else q) (g_pMapping (app s))" by simp
  have h: "heap s - {p} - set qs = heap s - set (p # qs)" by (auto simp: set_eq_iff)
  show ?case unfolding fold.simps comp_apply by (rule Cons.IH [OF conjunct1 [OF f] d sub, unfolded e m g h])
qed

lemma serv_uninit_rest:
  assumes i: "nptp_inv H F ps s" and n: "g_inotifyFd (app s) < 0"
    and m: "\<forall>p\<in>set ps. \<exists>m. mappings (app s) p = Some m \<and> tcpServerHandle m = None \<and> ipcStreamHandle m = None"
    and t: "t = fold (\<lambda>p s. if p \<noteq> NULL then free_mapping p s else s) (g_pMapping (app s)) s"
  shows "heap t = H \<and> fds t = F \<and> faults t = faults s \<and> wf_world t \<and> mappings (app t) = Map.empty \<and>
    g_pMapping (app t) = replicate MAX_MAPPING_NUM NULL"
proof -
  have tab: "table_ok ps s" "wf_world s" using nptp_inv_D [OF i] by simp_all
  have o: "map_heap p (the (mappings (app s) p)) = {p}" "map_fds (the (mappings (app s) p)) = {}" if "p \<in> set ps" for p
    using m that by (auto simp: owned_defs)
  have "parts (\<lambda>p. map_heap p (the (mappings (app s) p))) ps H (heap s)"
    "parts (\<lambda>p. map_fds (the (mappings (app s) p))) ps (watch_fds (app s) \<union> F) (fds s)" using i by (simp_all add: nptp_inv_def)
  with o n have h: "heap s = H \<union> set ps" "set ps \<inter> H = {}" "fds s = F" by (auto simp: parts_def watch_fds_def disjoint_iff)
  let ?k = "replicate (MAX_MAPPING_NUM - length ps) NULL"
  have l: "g_pMapping (app s) = ps @ ?k" "distinct ps" "NULL \<notin> set ps" "dom (mappings (app s)) = set ps"
    "length ps \<le> MAX_MAPPING_NUM" using tab(1) by (simp_all add: table_ok_def)
  have k: "fold (\<lambda>p s. if p \<noteq> NULL then free_mapping p s else s) (replicate j NULL) v = v" for j v by (induction j) simp_all
  have n: "\<forall>p\<in>set ps. p \<noteq> NULL" using l(3) by metis
  have t: "t = fold free_mapping ps s" unfolding t l(1) fold_append comp_def k fold_skip [OF n] ..
  have "set ps \<subseteq> heap s" using h by simp
  note f = free_mappings [OF tab(2) l(2) this, folded t]
  have "map (\<lambda>q. if q \<in> set ps then NULL else q) (g_pMapping (app s)) = replicate MAX_MAPPING_NUM NULL"
    by (rule replicate_eqI) (use l(1,5) in auto)
  moreover have "mappings (app s) |` (- set ps) = Map.empty" using l(4) by (auto simp: fun_eq_iff restrict_map_def dom_def)
  moreover have "H \<union> set ps - set ps = H" using h(2) by (auto simp: set_eq_iff disjoint_iff)
  ultimately show ?thesis using f h by simp
qed

lemma serv_uninit_inv:
  assumes i: "daemon_inv H F ps s"
  shows "heap (serv_uninit s) = H \<and> fds (serv_uninit s) = F \<and> faults (serv_uninit s) = faults s \<and>
    wf_world (serv_uninit s) \<and> table_ok [] (serv_uninit s)"
proof -
  let ?h = "g_ipcDgramhandle (app s)" and ?s = "ipcDgramUninit (g_ipcDgramhandle (app s)) s"
  have u: "nptp_inv H F ps ?s \<and> faults ?s = faults s"
  proof (cases ?h)
    case None
    with i show ?thesis by (simp add: daemon_inv_def ipcDgramUninit_def)
  next
    case (Some z)
    then obtain q c where h: "?h = Some (q, c)" by (cases z) auto
    with i have d: "q \<notin> H" "ipc_dgram_ctx.fd c \<notin> F" "0 < ipc_dgram_ctx.fd c"
      "nptp_inv (insert q H) (insert (ipc_dgram_ctx.fd c) F) ps s" by (simp_all add: daemon_inv_def)
    note n = nptp_inv_D [OF d(4)]
    have q: "q \<in> heap s" using n(4) by simp
    note r = ipcDgramUninit_rule [OF n(1) q, of c]
    have a: "app (ipcDgramUninit (Some (q, c)) s) = app s"
      by (simp add: ipcDgramUninit_def ipcDgramUninitSocket_def Let_def app_calls)
    have "nptp_inv H F ps (ipcDgramUninit (Some (q, c)) s)"
      by (rule nptp_inv_rest [OF d(4)]) (use r a d n in \<open>auto simp: set_eq_iff\<close>)
    with r h show ?thesis by simp
  qed
  note e = event_uninit_inv [OF conjunct1 [OF u]]
  note p = proxy_uninit_kept [OF conjunct1 [OF e]]
  let ?t = "proxy_uninit (event_uninit ?s)"
  have t: "nptp_inv H F ps ?t" "g_inotifyFd (app ?t) < 0" "faults ?t = faults s" using p e u by (simp_all add: kept_def)
  note r = serv_uninit_rest [OF t(1,2) conjunct2 [OF p] refl]
  have "serv_uninit s = PRINT (''service terminate'' @ newline) (set_app (\<lambda>g. g\<lparr>g_mappingNum := 0\<rparr>)
      (fold (\<lambda>p s. if p \<noteq> NULL then free_mapping p s else s) (g_pMapping (app ?t)) ?t))"
    by (simp add: serv_uninit_def Let_def)
  with r t(3) show ?thesis by (simp add: table_ok_def)
qed

end
