(* ===== verification/Nptp_Turns.thy ===== *)
theory Nptp_Turns
  imports Nptp_Run
begin

text \<open>
  The running service: the threads of the library and the program's own loop work in turns, in any
  order. Every turn keeps the invariant of the service.
\<close>

section \<open>The turns\<close>

text \<open>
  Who makes the turn: the thread that accepts connections to mapping \<open>p\<close>, the thread that receives
  from its user \<open>u\<close>, that thread taking the user out of the table when the connection has ended,
  the thread that receives from the pipe of \<open>p\<close>, the program's loop over the events, the thread that
  receives commands (with the contents of its local variable); or another process, which makes and
  removes files, so that the names \<open>X\<close> are there. A thread that is not there makes no turn.
\<close>

datatype turn = Accept addr | Receive addr addr | Leave addr addr | Pipe addr | Event | Command name_buf
  | Outside "string set"

definition on_server :: "addr \<Rightarrow> (addr \<Rightarrow> stream_server_ctx \<Rightarrow> user_store \<Rightarrow> nptp world \<Rightarrow> stream_server_ctx \<times> user_store \<times> nptp world) \<Rightarrow>
    nptp world \<Rightarrow> nptp world" where
  "on_server p f s = (case mappings (app s) p of
       None \<Rightarrow> s
     | Some m \<Rightarrow> (case tcpServerHandle m of
           None \<Rightarrow> s
         | Some (pc, c) \<Rightarrow>
             let (c, us, s) = f pc c (tcpUsers m) s
             in on_mapping p (\<lambda>m. m\<lparr>tcpServerHandle := Some (pc, c), tcpUsers := us\<rparr>) s))"

definition acceptTurn :: "addr \<Rightarrow> stream_server_ctx \<Rightarrow> user_store \<Rightarrow> nptp world \<Rightarrow> stream_server_ctx \<times> user_store \<times> nptp world" where
  "acceptTurn pc c us s =
     (if stream_server_ctx.running c = 0 then (c, us, s)
      else
        let (fl, c, us, s) = streamListenBody nptp_app (stream_server_ctx.thread c) pc (c, us, s)
        in (if fl = Break then c\<lparr>stream_server_ctx.running := 0\<rparr> else c, us, s))"

definition userTurn :: "addr \<Rightarrow> addr \<Rightarrow> stream_server_ctx \<Rightarrow> user_store \<Rightarrow> nptp world \<Rightarrow> stream_server_ctx \<times> user_store \<times> nptp world" where
  "userTurn u pc c us s = (case us u of
       None \<Rightarrow> (c, us, s)
     | Some w \<Rightarrow>
         if user_fd w \<le> 0 then (c, us, s)
         else
           let (fl, w, s) = streamServerRecvBody nptp_app (user_thread w) c u (w, s)
           in (c, us(u \<mapsto> w), s))"

definition leaveTurn :: "addr \<Rightarrow> addr \<Rightarrow> stream_server_ctx \<Rightarrow> user_store \<Rightarrow> nptp world \<Rightarrow> stream_server_ctx \<times> user_store \<times> nptp world" where
  "leaveTurn u pc c us s = (case us u of
       None \<Rightarrow> (c, us, s)
     | Some w \<Rightarrow> if user_fd w \<le> 0 then streamDisconnectClient u (c, us, s) else (c, us, s))"

definition pipeTurn :: "addr \<Rightarrow> nptp world \<Rightarrow> nptp world" where
  "pipeTurn p s = (case mappings (app s) p of
       None \<Rightarrow> s
     | Some m \<Rightarrow> (case ipcStreamHandle m of
           None \<Rightarrow> s
         | Some (q, c) \<Rightarrow>
             if stream_client_ctx.running c = 0 then s
             else
               let (fl, c, s) = streamClientRecvBody nptp_app (stream_client_ctx.thread c) (c, s);
                   c = (if fl = Break then c\<lparr>stream_client_ctx.running := 0\<rparr> else c)
               in on_mapping p (\<lambda>m. m\<lparr>ipcStreamHandle := Some (q, c)\<rparr>) s))"

definition commandTurn :: "name_buf \<Rightarrow> nptp world \<Rightarrow> nptp world" where
  "commandTurn nb s = (case g_ipcDgramhandle (app s) of
       None \<Rightarrow> s
     | Some (q, c) \<Rightarrow>
         if ipc_dgram_ctx.running c = 0 then s
         else
           let (fl, c, nb, s) = ipcDgramRecvBody nptp_app (ipc_dgram_ctx.thread c) (c, nb, s);
               c = (if fl = Break then c\<lparr>ipc_dgram_ctx.running := 0\<rparr> else c)
           in set_app (\<lambda>g. g\<lparr>g_ipcDgramhandle := Some (q, c)\<rparr>) s)"

fun make_turn :: "turn \<Rightarrow> nptp world \<Rightarrow> nptp world" where
  "make_turn (Accept p) s = on_server p acceptTurn s"
| "make_turn (Receive p u) s = on_server p (userTurn u) s"
| "make_turn (Leave p u) s = on_server p (leaveTurn u) s"
| "make_turn (Pipe p) s = pipeTurn p s"
| "make_turn Event s = snd (eventBody s)"
| "make_turn (Command nb) s = commandTurn nb s"
| "make_turn (Outside X) s = s\<lparr>files := X\<rparr>"

section \<open>What the callbacks do\<close>

text \<open>When its mapping is there, the callback for a new user only changes the program's memory.\<close>

fun nptp_pure :: "callback \<Rightarrow> nptp \<Rightarrow> nptp" where
  "nptp_pure (AcptCb f a u) g = (if f = p_tcpIpv4AcptFunc
     then g\<lparr>mappings := (mappings g)(a := map_option (\<lambda>m. m\<lparr>tcpConnect := 1, pTcpUser := u\<rparr>) (mappings g a))\<rparr> else g)"
| "nptp_pure _ g = g"

lemma invoke_accept:
  assumes "mappings (app s) a = Some m"
  shows "invoke nptp_app (AcptCb f a u) s = invoke (pure_app nptp_pure) (AcptCb f a u) s"
  using assms by (simp add: invoke_def pure_app_def tcpIpv4AcptFunc_def on_mapping_def set_app_def emit_def)

lemma app_malloc: "c_malloc s = (p, s') \<Longrightarrow> app s' = app s"
  by (auto simp: c_malloc_def pop_def split: list.splits reply.splits)

lemma app_create: "pthread_create d s = (e, t, s') \<Longrightarrow> app s' = app s"
  by (auto simp: pthread_create_def pop_def split: list.splits reply.splits)

lemma app_setsockopt: "app (sys_setsockopt n x s) = app s"
  by (simp add: sys_setsockopt_def)

lemma app_accept: "sys_accept n s = (k, a, s') \<Longrightarrow> app s' = app s"
  by (auto simp: sys_accept_def pop_def split: list.splits reply.splits if_splits)

lemma streamAcceptCreate_pure:
  assumes "mappings (app s) (pServerArg c) = Some m"
  shows "streamAcceptCreate nptp_app pc c us pa n s = streamAcceptCreate (pure_app nptp_pure) pc c us pa n s"
proof -
  have "invoke nptp_app (AcptCb f (pServerArg c) q) t = invoke (pure_app nptp_pure) (AcptCb f (pServerArg c) q) t"
    if "app t = app s" for f q t using invoke_accept [of t] that assms by simp
  then show ?thesis
    by (auto simp: streamAcceptCreate_def Let_def app_setsockopt dest!: app_malloc app_create split: prod.split option.split)
qed

lemma streamListenBody_pure:
  assumes "mappings (app s) (pServerArg c) = Some m"
  shows "streamListenBody nptp_app t pc (c, us, s) = streamListenBody (pure_app nptp_pure) t pc (c, us, s)"
proof -
  obtain n a s1 where 1: "sys_accept (stream_server_ctx.fd c) s = (n, a, s1)" by (metis prod_cases3)
  obtain pa c1 where 2: "accept_addr c a = (pa, c1)" by fastforce
  then obtain nb where "c1 = c\<lparr>clitAddr := nb\<rparr>" by (rule accept_addr_ctx)
  then have "mappings (app s1) (pServerArg c1) = Some m" using assms app_accept [OF 1] by simp
  from streamAcceptCreate_pure [OF this] show ?thesis
    by (simp add: streamListenBody_def streamAcceptClient_def 1 2)
qed

text \<open>A turn of the thread that accepts: nothing happens to the program's memory, or there is a new user.\<close>

lemma streamAcceptCreate_app:
  assumes "streamAcceptCreate (pure_app f) pc c us pa n s = (r, us', s')" "pServerAcptFunc c \<noteq> NULL"
  shows "case r of None \<Rightarrow> us' = us \<and> app s' = app s
    | Some (i, q) \<Rightarrow> q \<noteq> NULL \<and> (\<exists>u. us' = us(q \<mapsto> u) \<and> user_fd u = n) \<and>
        app s' = f (AcptCb (pServerAcptFunc c) (pServerArg c) q) (app s)"
  using assms
  by (auto simp: streamAcceptCreate_def Let_def app_setsockopt app_calls dest!: app_malloc app_create
      split: prod.splits option.splits if_splits)

lemma streamListenBody_app:
  assumes b: "streamListenBody (pure_app f) t pc (c, us, s) = (fl, c', us', s')" and n: "pServerAcptFunc c \<noteq> NULL"
  shows "us' = us \<and> app s' = app s \<or>
    (\<exists>q u. q \<noteq> NULL \<and> us' = us(q \<mapsto> u) \<and> 0 \<le> user_fd u \<and> app s' = f (AcptCb (pServerAcptFunc c) (pServerArg c) q) (app s))"
proof -
  obtain k a s1 where 1: "sys_accept (stream_server_ctx.fd c) s = (k, a, s1)" by (metis prod_cases3)
  obtain pa c1 where 2: "accept_addr c a = (pa, c1)" by fastforce
  then obtain nb where c1: "c1 = c\<lparr>clitAddr := nb\<rparr>" by (rule accept_addr_ctx)
  obtain r us2 s2 where 3: "streamAcceptCreate (pure_app f) pc c1 us pa k s1 = (r, us2, s2)" by (metis prod_cases3)
  note x = streamAcceptCreate_app [OF 3] and y = app_accept [OF 1]
  show ?thesis
  proof (cases "pthread_testcancel t s \<or> k < 0 \<or> pthread_testcancel t s1 \<or> r = None")
    case True
    with x y n c1 b 1 2 3 show ?thesis
      by (auto simp: streamListenBody_def streamAcceptClient_def app_calls split: if_splits)
  next
    case False
    then obtain i q where r: "r = Some (i, q)" by auto
    with x n c1 obtain u where u: "q \<noteq> NULL" "us2 = us(q \<mapsto> u)" "user_fd u = k"
      "app s2 = f (AcptCb (pServerAcptFunc c) (pServerArg c) q) (app s)" using y by auto
    have "us' = us2" "app s' = app s2" using b 1 2 3 False r u(1) by (auto simp: streamListenBody_def streamAcceptClient_def)
    with u False show ?thesis by (intro disjI2 exI [of _ q] exI [of _ u]) simp
  qed
qed

section \<open>Turns of a server's threads\<close>

text \<open>How a turn may change the server's context.\<close>

definition same_server :: "stream_server_ctx \<Rightarrow> stream_server_ctx \<Rightarrow> bool" where
  "same_server c c' \<longleftrightarrow> stream_server_ctx.localAddr c' = stream_server_ctx.localAddr c \<and>
     stream_server_ctx.fd c' = stream_server_ctx.fd c \<and> cap (table c') = cap (table c) \<and>
     pServerAcptFunc c' = pServerAcptFunc c \<and> pServerExitFunc c' = pServerExitFunc c \<and>
     pServerRecvFunc c' = pServerRecvFunc c \<and> pServerArg c' = pServerArg c"

lemma same_server_refl [simp]: "same_server c c"
  by (simp add: same_server_def)

lemma same_server_table: "cap tb = cap (table c) \<Longrightarrow> same_server c (c\<lparr>table := tb, clitAddr := nb\<rparr>)"
  by (simp add: same_server_def)

lemma server_turn_kept:
  assumes i: "nptp_inv H F ps s" and m: "mappings (app s) p = Some m" and h: "tcpServerHandle m = Some (pc, c)"
    and t: "server_inv (heap s - server_heap m) (fds s - server_fds m) pc c' us' s1" and c: "same_server c c'"
    and g: "only_mapping p m1 (app s) (app s1)" "faults s1 = faults s"
    and m1: "arrays_ok m1" "pipe_of m1 = pipe_of m" "index m1 = index m" "ipcStreamHandle m1 = ipcStreamHandle m" "flags_ok m1"
      "user_ok (pTcpUser m1) us'"
    and s': "s' = on_mapping p (\<lambda>m. m\<lparr>tcpServerHandle := Some (pc, c'), tcpUsers := us'\<rparr>) s1"
  shows "kept H F ps {p} s s'"
proof -
  let ?f = "\<lambda>m. m\<lparr>tcpServerHandle := Some (pc, c'), tcpUsers := us'\<rparr>"
  note g' = only_mapping_on [OF g(1), of ?f, folded s'] and w' = on_mapping_world [OF g(1), of ?f, folded s']
  have ok: "fields_ok p m" using nptp_inv_mapping [OF i m] by (simp add: mapping_ok_def)
  have "server_set_up p c'" "server_pure pc c' us'"
    using ok h c t by (simp_all add: fields_ok_def server_set_up_def same_server_def server_inv_pure)
  then have "fields_ok p (?f m1)" using ok m1 by (simp add: fields_ok_def)
  moreover have "server_inv (heap s - server_heap m) (fds s - server_fds m) pc c' us' s'"
    using t w' by (auto simp: server_inv_pure)
  ultimately have "nptp_inv H F ps s'"
    using nptp_inv_server_turn [OF i m h _ g'] m1(4) by simp
  with g' g(2) w' have "keeps H F ps p s s'" by (auto simp: keeps_def)
  then show ?thesis by (rule keeps_kept)
qed

lemma on_server_kept:
  assumes i: "nptp_inv H F ps s"
    and t: "\<And>m pc c. mappings (app s) p = Some m \<Longrightarrow> tcpServerHandle m = Some (pc, c) \<Longrightarrow>
      \<exists>c' us' s1 m1. f pc c (tcpUsers m) s = (c', us', s1) \<and>
        server_inv (heap s - server_heap m) (fds s - server_fds m) pc c' us' s1 \<and> same_server c c' \<and>
        only_mapping p m1 (app s) (app s1) \<and> faults s1 = faults s \<and> arrays_ok m1 \<and> pipe_of m1 = pipe_of m \<and>
        index m1 = index m \<and> ipcStreamHandle m1 = ipcStreamHandle m \<and> flags_ok m1 \<and> user_ok (pTcpUser m1) us'"
  shows "kept H F ps (set ps) s (on_server p f s)"
proof (cases "mappings (app s) p")
  case None
  then show ?thesis using kept_refl [OF i] by (simp add: on_server_def)
next
  case (Some m)
  show ?thesis
  proof (cases "tcpServerHandle m")
    case None
    then show ?thesis using kept_refl [OF i] by (simp add: on_server_def Some)
  next
    case h: (Some h)
    then obtain pc c where h: "tcpServerHandle m = Some (pc, c)" by (cases h) auto
    from t [OF Some h] obtain c' us' s1 m1 where r: "f pc c (tcpUsers m) s = (c', us', s1)"
      "server_inv (heap s - server_heap m) (fds s - server_fds m) pc c' us' s1" "same_server c c'"
      "only_mapping p m1 (app s) (app s1)" "faults s1 = faults s" "arrays_ok m1" "pipe_of m1 = pipe_of m"
      "index m1 = index m" "ipcStreamHandle m1 = ipcStreamHandle m" "flags_ok m1" "user_ok (pTcpUser m1) us'" by blast
    have "p \<in> set ps" using nptp_inv_mapping [OF i Some] by simp
    with kept_mono [OF server_turn_kept [OF i Some h r(2-11)]] show ?thesis
      by (simp add: on_server_def Some h r(1))
  qed
qed

lemma mapping_server:
  assumes i: "nptp_inv H F ps s" and m: "mappings (app s) p = Some m" and h: "tcpServerHandle m = Some (pc, c)"
  shows "fields_ok p m" "arrays_ok m" "flags_ok m" "user_ok (pTcpUser m) (tcpUsers m)" "server_set_up p c" "wf_world s"
  using nptp_inv_mapping [OF i m] h nptp_inv_D [OF i] by (simp_all add: mapping_ok_def fields_ok_def)

lemma acceptTurn_kept:
  assumes i: "nptp_inv H F ps s"
  shows "kept H F ps (set ps) s (on_server p acceptTurn s)"
proof (rule on_server_kept [OF i])
  fix m pc c
  assume m: "mappings (app s) p = Some m" and h: "tcpServerHandle m = Some (pc, c)"
  let ?H = "heap s - server_heap m" and ?F = "fds s - server_fds m"
  note si = nptp_server_inv [OF i m h] and ok = mapping_server [OF i m h]
  have su: "pServerArg c = p" "pServerAcptFunc c = p_tcpIpv4AcptFunc" using ok(5) by (simp_all add: server_set_up_def)
  have g0: "only_mapping p m (app s) (app s)" by (rule only_mapping_refl [OF m])
  show "\<exists>c' us' s1 m1. acceptTurn pc c (tcpUsers m) s = (c', us', s1) \<and> server_inv ?H ?F pc c' us' s1 \<and> same_server c c' \<and>
      only_mapping p m1 (app s) (app s1) \<and> faults s1 = faults s \<and> arrays_ok m1 \<and> pipe_of m1 = pipe_of m \<and>
      index m1 = index m \<and> ipcStreamHandle m1 = ipcStreamHandle m \<and> flags_ok m1 \<and> user_ok (pTcpUser m1) us'"
  proof (cases "stream_server_ctx.running c = 0")
    case True
    with si ok g0 show ?thesis
      by (intro exI [of _ c] exI [of _ "tcpUsers m"] exI [of _ s] exI [of _ m]) (simp add: acceptTurn_def)
  next
    case False
    obtain fl c1 us1 s1 where 1: "streamListenBody (pure_app nptp_pure) (stream_server_ctx.thread c) pc (c, tcpUsers m, s) = (fl, c1, us1, s1)"
      by (metis prod_cases4)
    from m su(1) have pm: "mappings (app s) (pServerArg c) = Some m" by simp
    have 2: "acceptTurn pc c (tcpUsers m) s = (if fl = Break then c1\<lparr>stream_server_ctx.running := 0\<rparr> else c1, us1, s1)"
      using False 1 streamListenBody_pure [OF pm] by (simp add: acceptTurn_def)
    note b = streamListenBody_inv [OF si 1]
    then obtain tb nb where c1: "c1 = c\<lparr>table := tb, clitAddr := nb\<rparr>" "cap tb = cap (table c)" by blast
    let ?c = "if fl = Break then c1\<lparr>stream_server_ctx.running := 0\<rparr> else c1"
    have c: "same_server c ?c" using c1 by (simp add: same_server_def)
    have inv: "server_inv ?H ?F pc ?c us1 s1" using b by (simp add: server_inv_pure server_pure_def)
    have ne: "pServerAcptFunc c \<noteq> NULL" using su by (simp add: proxy_pointers)
    have fb: "faults s1 = faults s" using b by blast
    from streamListenBody_app [OF 1 ne] show ?thesis
    proof (elim disjE exE conjE)
      assume "us1 = tcpUsers m" "app s1 = app s"
      then show ?thesis using ok g0 2 inv c fb
        by (intro exI [of _ ?c] exI [of _ us1] exI [of _ s1] exI [of _ m] conjI) simp_all
    next
      fix q u
      assume q: "q \<noteq> NULL" "us1 = (tcpUsers m)(q \<mapsto> u)" "0 \<le> user_fd u"
        "app s1 = nptp_pure (AcptCb (pServerAcptFunc c) (pServerArg c) q) (app s)"
      let ?m = "m\<lparr>tcpConnect := 1, pTcpUser := q\<rparr>"
      have g: "only_mapping p ?m (app s) (app s1)" using q(4) su m by (simp add: only_mapping_def)
      have "users_ok us1" using inv by (simp add: server_inv_pure server_pure_def)
      from users_okD(1) [OF this, of q u] q(2) have "user_fd u \<noteq> 0" by simp
      then have u: "user_ok (pTcpUser ?m) us1" using q(2,3) by (simp add: user_ok_def)
      have k: "arrays_ok ?m" "pipe_of ?m = pipe_of m" "index ?m = index m" "ipcStreamHandle ?m = ipcStreamHandle m"
        "flags_ok ?m" using ok(2,3) q(1) by simp_all
      show ?thesis
        by (intro exI [of _ ?c] exI [of _ us1] exI [of _ s1] exI [of _ ?m] conjI) (rule 2 inv c g fb k u)+
    qed
  qed
qed

text \<open>Sending does not touch the program's memory or what the process owns.\<close>

lemma streamClientSend_frame:
  "wf_world s \<Longrightarrow> quiet s (snd (streamClientSend h d n s)) \<and> wf_world (snd (streamClientSend h d n s)) \<and>
    res (snd (streamClientSend h d n s)) = res s"
  using sys_sendto_rule [of m bs a s "fst (sys_sendto m bs a s)" "snd (sys_sendto m bs a s)" for m bs a]
  by (auto simp: streamClientSend_def sys_send_def split: option.split)

lemma tcpIpv4RecvFunc_frame:
  assumes "mappings (app s) p = Some m" "wf_world s"
  shows "quiet s (tcpIpv4RecvFunc p u bs n s) \<and> wf_world (tcpIpv4RecvFunc p u bs n s) \<and> res (tcpIpv4RecvFunc p u bs n s) = res s"
  using streamClientSend_frame [OF assms(2)] assms(1) by (simp add: tcpIpv4RecvFunc_def comm_ipcStreamClientSend_def)

lemma ipcStreamRecvFunc_frame:
  assumes "mappings (app s) p = Some m" "wf_world s" "user_ok (pTcpUser m) (tcpUsers m)"
  shows "quiet s (ipcStreamRecvFunc p bs n s) \<and> wf_world (ipcStreamRecvFunc p bs n s) \<and> res (ipcStreamRecvFunc p bs n s) = res s"
proof (cases "pTcpUser m = NULL")
  case True
  with assms show ?thesis by (simp add: ipcStreamRecvFunc_def)
next
  case False
  with assms(3) have "pTcpUser m \<in> dom (tcpUsers m) \<union> {NULL}" by (auto simp: user_ok_def)
  moreover obtain r s' where "streamServerSend (pTcpUser m) (tcpUsers m) (Some bs) n s = (r, s')" by fastforce
  ultimately show ?thesis using streamServerSend_frame [of "pTcpUser m" "tcpUsers m" "Some bs" n s r s'] assms False
    by (simp add: ipcStreamRecvFunc_def comm_tcpIpv4ServerSend_def)
qed

text \<open>The thread of a user.\<close>

lemma userBody_cases:
  assumes m: "mappings (app s) p = Some m" and su: "server_set_up p c" and w: "wf_world s"
    and b: "streamServerRecvBody nptp_app t c u (x, s) = (fl, x', s')"
  shows "user_fd x' = -1 \<and> app s' = (app s)\<lparr>mappings := (mappings (app s))(p \<mapsto> m\<lparr>tcpConnect := 0, pTcpUser := NULL\<rparr>)\<rparr> \<and>
      fds s' = fds s - {user_fd x} \<and> heap s' = heap s \<and> faults s' = faults s \<and> wf_world s' \<or>
    user_fd x' = user_fd x \<and> app s' = app s \<and> fds s' = fds s \<and> heap s' = heap s \<and> faults s' = faults s \<and> wf_world s'"
proof (cases "pthread_testcancel t s")
  case True
  with b w show ?thesis by (simp add: streamServerRecvBody_def)
next
  case False
  obtain len bs s1 where 1: "sys_recv (user_fd x) COMM_BUF_SIZE s = (len, bs, s1)" by (metis prod_cases3)
  from sys_recv_rule [OF 1 w] have s1: "app s1 = app s" "fds s1 = fds s" "heap s1 = heap s" "faults s1 = faults s" "wf_world s1"
    by (simp_all add: quiet_def res_def)
  have fp: "pServerArg c = p" "pServerExitFunc c = p_tcpIpv4ExitFunc" "pServerRecvFunc c = p_tcpIpv4RecvFunc"
    "pServerExitFunc c \<noteq> NULL" "pServerRecvFunc c \<noteq> NULL" using su by (simp_all add: server_set_up_def proxy_pointers)
  have f: "app (invoke nptp_app (UserRecvCb p_tcpIpv4RecvFunc p u d n) s1) = app s \<and>
      fds (invoke nptp_app (UserRecvCb p_tcpIpv4RecvFunc p u d n) s1) = fds s \<and>
      heap (invoke nptp_app (UserRecvCb p_tcpIpv4RecvFunc p u d n) s1) = heap s \<and>
      faults (invoke nptp_app (UserRecvCb p_tcpIpv4RecvFunc p u d n) s1) = faults s \<and>
      wf_world (invoke nptp_app (UserRecvCb p_tcpIpv4RecvFunc p u d n) s1)" for d n
    using tcpIpv4RecvFunc_frame [of "emit (ECall (UserRecvCb p_tcpIpv4RecvFunc p u d n)) s1" p m u d n] m s1
    by (simp add: invoke_def quiet_def res_def)
  show ?thesis
  proof (cases "recv_stops (stream_server_ctx.localAddr c) len")
    case True
    let ?s2 = "sys_close (user_fd x) s1"
    have s': "user_fd x' = -1" "s' = tcpIpv4ExitFunc p u (emit (ECall (UserExitCb p_tcpIpv4ExitFunc p u)) ?s2)"
      using b False 1 True fp by (auto simp: streamServerRecvBody_def Let_def invoke_def)
    show ?thesis using s' s1 m sys_close_rule [of s1 "user_fd x"]
      by (simp add: tcpIpv4ExitFunc_def on_mapping_sel app_calls quiet_def)
  next
    case rs: False
    have "user_fd x' = user_fd x \<and> (s' = s1 \<or> (\<exists>d n. s' = invoke nptp_app (UserRecvCb p_tcpIpv4RecvFunc p u d n) s1))"
      using b False 1 rs fp by (auto simp: streamServerRecvBody_def Let_def split: if_splits)
    with f s1 show ?thesis by auto
  qed
qed

lemma userTurn_kept:
  assumes i: "nptp_inv H F ps s"
  shows "kept H F ps (set ps) s (on_server p (userTurn u) s)"
proof (rule on_server_kept [OF i])
  fix m pc c
  assume m: "mappings (app s) p = Some m" and h: "tcpServerHandle m = Some (pc, c)"
  let ?H = "heap s - server_heap m" and ?F = "fds s - server_fds m"
  note si = nptp_server_inv [OF i m h] and ok = mapping_server [OF i m h]
  have g0: "only_mapping p m (app s) (app s)" by (rule only_mapping_refl [OF m])
  show "\<exists>c' us' s1 m1. userTurn u pc c (tcpUsers m) s = (c', us', s1) \<and> server_inv ?H ?F pc c' us' s1 \<and> same_server c c' \<and>
      only_mapping p m1 (app s) (app s1) \<and> faults s1 = faults s \<and> arrays_ok m1 \<and> pipe_of m1 = pipe_of m \<and>
      index m1 = index m \<and> ipcStreamHandle m1 = ipcStreamHandle m \<and> flags_ok m1 \<and> user_ok (pTcpUser m1) us'"
  proof (cases "\<exists>x. tcpUsers m u = Some x \<and> 0 < user_fd x")
    case False
    then have "userTurn u pc c (tcpUsers m) s = (c, tcpUsers m, s)" by (auto simp: userTurn_def split: option.split)
    with si ok g0 show ?thesis
      by (intro exI [of _ c] exI [of _ "tcpUsers m"] exI [of _ s] exI [of _ m]) simp
  next
    case True
    then obtain x where x: "tcpUsers m u = Some x" "0 < user_fd x" by blast
    obtain fl x' s1 where 1: "streamServerRecvBody nptp_app (user_thread x) c u (x, s) = (fl, x', s1)" by (metis prod_cases3)
    let ?us = "(tcpUsers m)(u \<mapsto> x')"
    have t: "userTurn u pc c (tcpUsers m) s = (c, ?us, s1)" using x 1 by (simp add: userTurn_def)
    note b = userBody_cases [OF m ok(5,6) 1]
    have b': "wf_world s1" "heap s1 = heap s" "faults s1 = faults s" using b by auto
    have "user_fd x' = user_fd x \<and> fds s1 = fds s \<or> 0 < user_fd x \<and> user_fd x' = -1 \<and> fds s1 = fds s - {user_fd x}"
      using b x(2) by auto
    from server_inv_user [OF si x(1) b'(1,2) this] have inv: "server_inv ?H ?F pc c ?us s1" .
    from b show ?thesis
    proof (elim disjE)
      assume "user_fd x' = -1 \<and> app s1 = (app s)\<lparr>mappings := (mappings (app s))(p \<mapsto> m\<lparr>tcpConnect := 0, pTcpUser := NULL\<rparr>)\<rparr> \<and>
        fds s1 = fds s - {user_fd x} \<and> heap s1 = heap s \<and> faults s1 = faults s \<and> wf_world s1"
      then have a: "app s1 = (app s)\<lparr>mappings := (mappings (app s))(p \<mapsto> m\<lparr>tcpConnect := 0, pTcpUser := NULL\<rparr>)\<rparr>" by simp
      let ?m = "m\<lparr>tcpConnect := 0, pTcpUser := NULL\<rparr>"
      have g: "only_mapping p ?m (app s) (app s1)" by (simp add: a only_mapping_def)
      have k: "arrays_ok ?m" "pipe_of ?m = pipe_of m" "index ?m = index m" "ipcStreamHandle ?m = ipcStreamHandle m"
        "flags_ok ?m" "user_ok (pTcpUser ?m) ?us" using ok(2,3) by (simp_all add: user_ok_def)
      show ?thesis
        by (intro exI [of _ c] exI [of _ ?us] exI [of _ s1] exI [of _ ?m] conjI) (rule t inv same_server_refl g b' k)+
    next
      assume "user_fd x' = user_fd x \<and> app s1 = app s \<and> fds s1 = fds s \<and> heap s1 = heap s \<and> faults s1 = faults s \<and> wf_world s1"
      then have a: "user_fd x' = user_fd x" "app s1 = app s" by simp_all
      have g: "only_mapping p m (app s) (app s1)" using g0 a by simp
      have k: "user_ok (pTcpUser m) ?us" using ok(4) x a(1) by (simp add: user_ok_def)
      show ?thesis
        by (intro exI [of _ c] exI [of _ ?us] exI [of _ s1] exI [of _ m] conjI) (rule t inv same_server_refl g b' k ok refl)+
    qed
  qed
qed

lemma leaveTurn_kept:
  assumes i: "nptp_inv H F ps s"
  shows "kept H F ps (set ps) s (on_server p (leaveTurn u) s)"
proof (rule on_server_kept [OF i])
  fix m pc c
  assume m: "mappings (app s) p = Some m" and h: "tcpServerHandle m = Some (pc, c)"
  let ?H = "heap s - server_heap m" and ?F = "fds s - server_fds m"
  note si = nptp_server_inv [OF i m h] and ok = mapping_server [OF i m h]
  have g0: "only_mapping p m (app s) (app s)" by (rule only_mapping_refl [OF m])
  show "\<exists>c' us' s1 m1. leaveTurn u pc c (tcpUsers m) s = (c', us', s1) \<and> server_inv ?H ?F pc c' us' s1 \<and> same_server c c' \<and>
      only_mapping p m1 (app s) (app s1) \<and> faults s1 = faults s \<and> arrays_ok m1 \<and> pipe_of m1 = pipe_of m \<and>
      index m1 = index m \<and> ipcStreamHandle m1 = ipcStreamHandle m \<and> flags_ok m1 \<and> user_ok (pTcpUser m1) us'"
  proof (cases "\<exists>x. tcpUsers m u = Some x \<and> user_fd x \<le> 0")
    case False
    then have "leaveTurn u pc c (tcpUsers m) s = (c, tcpUsers m, s)" by (auto simp: leaveTurn_def split: option.split)
    with si ok g0 show ?thesis
      by (intro exI [of _ c] exI [of _ "tcpUsers m"] exI [of _ s] exI [of _ m]) simp
  next
    case True
    then obtain x where x: "tcpUsers m u = Some x" "user_fd x \<le> 0" by blast
    obtain c1 us1 s1 where 1: "streamDisconnectClient u (c, tcpUsers m, s) = (c1, us1, s1)" by (metis prod_cases3)
    have t: "leaveTurn u pc c (tcpUsers m) s = (c1, us1, s1)" using x 1 by (simp add: leaveTurn_def)
    note d = streamDisconnectClient_inv [OF si x(1) 1]
    have sv: "same_server c c1" using d by (simp add: same_server_def clear_slot_def split: option.split)
    have u: "user_ok (pTcpUser m) us1" using ok(4) x d by (auto simp: user_ok_def)
    have g: "only_mapping p m (app s) (app s1)" using g0 app_streamDisconnectClient [OF 1] by simp
    show ?thesis
      by (intro exI [of _ c1] exI [of _ us1] exI [of _ s1] exI [of _ m] conjI)
        (rule t sv u g ok refl conjunct1 [OF d] conjunct1 [OF conjunct2 [OF conjunct2 [OF d]]])+
  qed
qed

section \<open>The other turns\<close>

lemma clientBody_cases:
  assumes m: "mappings (app s) p = Some m" and su: "client_set_up p c" and w: "wf_world s"
    and u: "user_ok (pTcpUser m) (tcpUsers m)"
    and b: "streamClientRecvBody nptp_app t (c, s) = (fl, c', s')"
  shows "(\<exists>d. c' = c\<lparr>stream_client_ctx.recvMsg := d, stream_client_ctx.fd := -1\<rparr>) \<and>
      app s' = (app s)\<lparr>mappings := (mappings (app s))(p \<mapsto> m\<lparr>pipeConnect := 0\<rparr>)\<rparr> \<and>
      fds s' = fds s - {stream_client_ctx.fd c} \<and> heap s' = heap s \<and> faults s' = faults s \<and> wf_world s' \<or>
    (\<exists>d. c' = c\<lparr>stream_client_ctx.recvMsg := d\<rparr>) \<and> app s' = app s \<and> fds s' = fds s \<and> heap s' = heap s \<and>
      faults s' = faults s \<and> wf_world s'"
proof (cases "pthread_testcancel t s")
  case True
  with b w have "c' = c\<lparr>stream_client_ctx.recvMsg := stream_client_ctx.recvMsg c\<rparr>" "s' = s" by (simp_all add: streamClientRecvBody_def)
  with w show ?thesis by blast
next
  case False
  obtain len bs s1 where 1: "sys_recv (stream_client_ctx.fd c) COMM_BUF_SIZE s = (len, bs, s1)" by (metis prod_cases3)
  from sys_recv_rule [OF 1 w] have s1: "app s1 = app s" "fds s1 = fds s" "heap s1 = heap s" "faults s1 = faults s" "wf_world s1"
    by (simp_all add: quiet_def res_def)
  have fp: "pClientArg c = p" "pClientExitFunc c = p_ipcStreamExitFunc" "pClientRecvFunc c = p_ipcStreamRecvFunc"
    "pClientExitFunc c \<noteq> NULL" "pClientRecvFunc c \<noteq> NULL" using su by (simp_all add: client_set_up_def proxy_pointers)
  have f: "app (invoke nptp_app (RecvCb p_ipcStreamRecvFunc p d n) s1) = app s \<and>
      fds (invoke nptp_app (RecvCb p_ipcStreamRecvFunc p d n) s1) = fds s \<and>
      heap (invoke nptp_app (RecvCb p_ipcStreamRecvFunc p d n) s1) = heap s \<and>
      faults (invoke nptp_app (RecvCb p_ipcStreamRecvFunc p d n) s1) = faults s \<and>
      wf_world (invoke nptp_app (RecvCb p_ipcStreamRecvFunc p d n) s1)" for d n
    using ipcStreamRecvFunc_frame [of "emit (ECall (RecvCb p_ipcStreamRecvFunc p d n)) s1" p m d n] m s1 u
    by (simp add: invoke_def quiet_def res_def)
  let ?d = "fill (stream_client_ctx.recvMsg c) bs"
  show ?thesis
  proof (cases "len \<le> 0")
    case True
    let ?s2 = "sys_close (stream_client_ctx.fd c) s1"
    have s': "c' = c\<lparr>stream_client_ctx.recvMsg := ?d, stream_client_ctx.fd := -1\<rparr>"
      "s' = ipcStreamExitFunc p len (emit (ECall (ExitCb p_ipcStreamExitFunc p len)) ?s2)"
      using b False 1 True fp by (auto simp: streamClientRecvBody_def Let_def invoke_def)
    have "app s' = (app s)\<lparr>mappings := (mappings (app s))(p \<mapsto> m\<lparr>pipeConnect := 0\<rparr>)\<rparr>"
      "fds s' = fds s - {stream_client_ctx.fd c}" "heap s' = heap s" "faults s' = faults s" "wf_world s'"
      using s'(2) s1 m sys_close_rule [of s1 "stream_client_ctx.fd c"]
      by (simp_all add: ipcStreamExitFunc_def on_mapping_sel app_calls quiet_def)
    with s'(1) show ?thesis by blast
  next
    case rs: False
    have "c' = c\<lparr>stream_client_ctx.recvMsg := ?d\<rparr> \<and> (s' = s1 \<or> (\<exists>d n. s' = invoke nptp_app (RecvCb p_ipcStreamRecvFunc p d n) s1))"
      using b False 1 rs fp by (auto simp: streamClientRecvBody_def Let_def split: if_splits)
    with f s1 show ?thesis by auto
  qed
qed

lemma pipeTurn_kept:
  assumes i: "nptp_inv H F ps s"
  shows "kept H F ps (set ps) s (pipeTurn p s)"
proof (cases "\<exists>m q c. mappings (app s) p = Some m \<and> ipcStreamHandle m = Some (q, c) \<and> stream_client_ctx.running c \<noteq> 0")
  case False
  then have "pipeTurn p s = s" by (auto simp: pipeTurn_def split: option.split)
  then show ?thesis using kept_refl [OF i] by simp
next
  case True
  then obtain m q c where m: "mappings (app s) p = Some m" and h: "ipcStreamHandle m = Some (q, c)"
    and rn: "stream_client_ctx.running c \<noteq> 0" by blast
  note o = nptp_inv_mapping [OF i m]
  have ok: "fields_ok p m" "arrays_ok m" "flags_ok m" "user_ok (pTcpUser m) (tcpUsers m)" "client_set_up p c" "wf_world s"
    using o h nptp_inv_D [OF i] by (simp_all add: mapping_ok_def fields_ok_def)
  obtain fl c1 s1 where 1: "streamClientRecvBody nptp_app (stream_client_ctx.thread c) (c, s) = (fl, c1, s1)" by (metis prod_cases3)
  obtain c2 where c2: "c2 = (if fl = Break then c1\<lparr>stream_client_ctx.running := 0\<rparr> else c1)" by simp
  let ?f = "\<lambda>m. m\<lparr>ipcStreamHandle := Some (q, c2)\<rparr>"
  have s': "pipeTurn p s = on_mapping p ?f s1" using m h rn 1 by (simp add: pipeTurn_def c2)
  have hp: "client_heap m = {q}" "client_heap m \<subseteq> heap s" "client_fds m \<subseteq> fds s" using o h
    by (simp_all add: client_heap_def map_heap_def map_fds_def)
  have fin: "keeps H F ps p s (pipeTurn p s)"
    if g: "only_mapping p m1 (app s) (app s1)" and k: "fields_ok p (?f m1)" "tcpServerHandle m1 = tcpServerHandle m"
      "tcpUsers m1 = tcpUsers m" and v: "wf_world s1" "heap s1 = heap s" "faults s1 = faults s"
      "fds s1 = (fds s - client_fds m) \<union> client_fds (?f m1)" "client_fds (?f m1) \<inter> (fds s - client_fds m) = {}" for m1
  proof -
    note g' = only_mapping_on [OF g, of ?f, folded s'] and w' = on_mapping_world [OF g, of ?f, folded s']
    have "nptp_inv H F ps (pipeTurn p s)"
      by (rule nptp_inv_client [OF i m g' k(1)]) (use k v w' hp in \<open>simp_all add: client_heap_def insert_absorb\<close>)
    with g' w' v(3) show ?thesis by (auto simp: keeps_def)
  qed
  have cf: "client_fds m = (if 0 < stream_client_ctx.fd c then {stream_client_ctx.fd c} else {})" by (simp add: client_fds_def h)
  have neg: "-1 \<notin> fds s" using ok(6) by (auto simp: wf_world_def)
  have "keeps H F ps p s (pipeTurn p s)"
    using clientBody_cases [OF m ok(5,6,4) 1]
  proof (elim disjE conjE exE)
    fix d
    assume a: "c1 = c\<lparr>stream_client_ctx.recvMsg := d, stream_client_ctx.fd := -1\<rparr>"
      "app s1 = (app s)\<lparr>mappings := (mappings (app s))(p \<mapsto> m\<lparr>pipeConnect := 0\<rparr>)\<rparr>"
      "fds s1 = fds s - {stream_client_ctx.fd c}" "heap s1 = heap s" "faults s1 = faults s" "wf_world s1"
    let ?m = "m\<lparr>pipeConnect := 0\<rparr>"
    have "only_mapping p ?m (app s) (app s1)" by (simp add: a(2) only_mapping_def)
    moreover have "client_set_up p c2" using ok(5) a(1) by (simp add: c2 client_set_up_def)
    then have "fields_ok p (?f ?m)" using ok(1) by (simp add: fields_ok_def)
    moreover have "client_fds (?f ?m) = {}" by (simp add: client_fds_def c2 a(1))
    moreover have "fds s1 = fds s - client_fds m" using a(3) ok(5) neg cf by (auto simp: client_set_up_def)
    ultimately show ?thesis using a(4-6) by (intro fin [of ?m]) simp_all
  next
    fix d
    assume a: "c1 = c\<lparr>stream_client_ctx.recvMsg := d\<rparr>" "app s1 = app s" "fds s1 = fds s" "heap s1 = heap s"
      "faults s1 = faults s" "wf_world s1"
    have "only_mapping p m (app s) (app s1)" using only_mapping_refl [OF m] a(2) by simp
    moreover have "client_set_up p c2" using ok(5) a(1) by (simp add: c2 client_set_up_def)
    then have "fields_ok p (?f m)" using ok(1) by (simp add: fields_ok_def)
    moreover have "client_fds (?f m) = client_fds m" by (simp add: client_fds_def c2 a(1) h)
    moreover have "fds s = (fds s - client_fds m) \<union> client_fds m" "client_fds m \<inter> (fds s - client_fds m) = {}"
      using hp(3) by (auto simp: set_eq_iff)
    ultimately show ?thesis using a(3-6) by (intro fin [of m]) simp_all
  qed
  from kept_mono [OF keeps_kept [OF this]] o show ?thesis by simp
qed

section \<open>Any sequence of turns\<close>

definition run_turns :: "turn list \<Rightarrow> nptp world \<Rightarrow> nptp world" where
  "run_turns ts s = fold make_turn ts s"

lemma daemon_inv_step:
  assumes d: "daemon_inv H F ps s"
    and t: "\<And>H F. nptp_inv H F ps s \<Longrightarrow> kept H F ps (set ps) s s'"
  shows "daemon_inv H F ps s' \<and> faults s' = faults s"
proof (cases "g_ipcDgramhandle (app s)")
  case None
  with d have "nptp_inv H F ps s" by (simp add: daemon_inv_def)
  from t [OF this] None show ?thesis by (simp add: kept_def daemon_inv_def)
next
  case (Some z)
  then obtain q c where h: "g_ipcDgramhandle (app s) = Some (q, c)" by (cases z) auto
  with d have "nptp_inv (insert q H) (insert (ipc_dgram_ctx.fd c) F) ps s" by (simp add: daemon_inv_def)
  from t [OF this] h d show ?thesis by (simp add: kept_def daemon_inv_def)
qed

text \<open>A command.\<close>

lemma commandTurn_inv:
  assumes d: "daemon_inv H F ps s"
  shows "daemon_inv H F ps (commandTurn nb s) \<and> faults (commandTurn nb s) = faults s"
proof (cases "\<exists>q c. g_ipcDgramhandle (app s) = Some (q, c) \<and> ipc_dgram_ctx.running c \<noteq> 0")
  case False
  then have "commandTurn nb s = s" by (auto simp: commandTurn_def split: option.split)
  with d show ?thesis by simp
next
  case True
  then obtain q c where h: "g_ipcDgramhandle (app s) = Some (q, c)" "ipc_dgram_ctx.running c \<noteq> 0" by blast
  let ?H = "insert q H" and ?F = "insert (ipc_dgram_ctx.fd c) F"
  have i: "nptp_inv ?H ?F ps s" and x: "q \<notin> H" "ipc_dgram_ctx.fd c \<notin> F" "0 < ipc_dgram_ctx.fd c" "ipc_dgram_ctx.pRecvFunc c = p_ipcRecvFunc"
    using d h by (simp_all add: daemon_inv_def)
  obtain fl c1 nb1 s1 where 1: "ipcDgramRecvBody nptp_app (ipc_dgram_ctx.thread c) (c, nb, s) = (fl, c1, nb1, s1)" by (metis prod_cases4)
  have n: "p_ipcRecvFunc \<noteq> NULL" by (simp add: p_ipcRecvFunc_def)
  have r: "nptp_inv ?H ?F ps s1 \<and> faults s1 = faults s \<and> ipc_dgram_ctx.fd c1 = ipc_dgram_ctx.fd c \<and>
      ipc_dgram_ctx.pRecvFunc c1 = ipc_dgram_ctx.pRecvFunc c"
  proof (cases "pthread_testcancel (ipc_dgram_ctx.thread c) s")
    case True
    with 1 i show ?thesis by (simp add: ipcDgramRecvBody_def)
  next
    case False
    obtain len bs src s2 where 2: "sys_recvfrom (ipc_dgram_ctx.fd c) COMM_BUF_SIZE s = (len, bs, src, s2)" by (metis prod_cases4)
    from sys_recvfrom_rule [OF 2 nptp_inv_D(1) [OF i]] have s2: "app s2 = app s" "fds s2 = fds s" "heap s2 = heap s"
      "faults s2 = faults s" "wf_world s2" by (simp_all add: quiet_def res_def)
    have i2: "nptp_inv ?H ?F ps s2" by (rule nptp_inv_frame [OF i]) (simp_all add: s2)
    have i3: "nptp_inv ?H ?F ps (emit e s2)" for e by (rule nptp_inv_frame [OF i]) (simp_all add: s2)
    have "nptp_inv ?H ?F ps (invoke nptp_app (RecvPathCb p_ipcRecvFunc a d k path) s2) \<and>
        faults (invoke nptp_app (RecvPathCb p_ipcRecvFunc a d k path) s2) = faults s" for a d k path
      using ipcRecvFunc_inv [OF i3] s2(4) by (simp add: invoke_def)
    with 1 2 False x(4) n i2 s2(4) show ?thesis by (auto simp: ipcDgramRecvBody_def Let_def split: if_splits)
  qed
  obtain c2 where c2: "c2 = (if fl = Break then c1\<lparr>ipc_dgram_ctx.running := 0\<rparr> else c1)" by simp
  have s': "commandTurn nb s = set_app (\<lambda>g. g\<lparr>g_ipcDgramhandle := Some (q, c2)\<rparr>) s1" using h 1 by (simp add: commandTurn_def c2)
  have e: "ipc_dgram_ctx.fd c2 = ipc_dgram_ctx.fd c1" "ipc_dgram_ctx.pRecvFunc c2 = ipc_dgram_ctx.pRecvFunc c1" by (simp_all add: c2)
  have "nptp_inv ?H ?F ps (commandTurn nb s)"
    by (rule nptp_inv_frame [OF conjunct1 [OF r]]) (use r nptp_inv_D(1) in \<open>auto simp: s' same_service_def\<close>)
  with r x e show ?thesis by (simp add: s' daemon_inv_def)
qed

lemma eventBody_steady: "nptp_inv H F ps s \<Longrightarrow> kept H F ps (set ps) s (snd (eventBody s))"
  using eventBody_kept [of H F ps s "fst (eventBody s)" "snd (eventBody s)"] by simp

lemma make_turn_inv:
  assumes d: "daemon_inv H F ps s"
  shows "daemon_inv H F ps (make_turn t s) \<and> faults (make_turn t s) = faults s"
proof (cases t)
  case (Accept p)
  then show ?thesis using daemon_inv_step [OF d acceptTurn_kept] by simp
next
  case (Receive p u)
  then show ?thesis using daemon_inv_step [OF d userTurn_kept] by simp
next
  case (Leave p u)
  then show ?thesis using daemon_inv_step [OF d leaveTurn_kept] by simp
next
  case (Pipe p)
  then show ?thesis using daemon_inv_step [OF d pipeTurn_kept] by simp
next
  case Event
  then show ?thesis using daemon_inv_step [OF d eventBody_steady] by simp
next
  case (Command nb)
  then show ?thesis using commandTurn_inv [OF d] by simp
next
  case (Outside X)
  have "kept H F ps (set ps) s (s\<lparr>files := X\<rparr>)" if i: "nptp_inv H F ps s" for H F
    by (rule kept_mono [OF kept_same [OF i]]) (use nptp_inv_D(1) [OF i] in simp_all)
  with Outside show ?thesis using daemon_inv_step [OF d] by simp
qed

interpretation service: kept_by_turns make_turn "daemon_inv H F ps" faults for H F ps
  by unfold_locales (simp_all add: make_turn_inv)

lemma run_turns_inv: "daemon_inv H F ps s \<Longrightarrow> daemon_inv H F ps (run_turns ts s) \<and> faults (run_turns ts s) = faults s"
  using service.run by (simp add: run_turns_def)

end
