(* ===== verification/Nptp_Service.thy ===== *)
theory Nptp_Service
  imports Nptp_Turns
begin

text \<open>
  The properties of the service as a whole: what holds in every state it can reach, what it leaves
  when it ends, when it ends, how it answers events, and what it passes from one side to the other.
\<close>

section \<open>From the start\<close>

text \<open>The process before \<^verbatim>\<open>serv_init\<close>: the program's globals as they are at the start, and a configuration in order.\<close>

definition fresh_process :: "conf_env \<Rightarrow> nptp world \<Rightarrow> bool" where
  "fresh_process env s \<longleftrightarrow> config_ok env \<and> mappings (app s) = Map.empty \<and> g_inotifyFd (app s) = -1 \<and>
     g_ipcDgramhandle (app s) = None \<and> wf_world s \<and> 0 \<in> fds s"

lemma started:
  assumes "fresh_process env s" "script s = replicate (config_size env) Done @ rs" "serv_init env s = (e, s1)"
  obtains ps where "e = Some 0 \<and> 0 \<le> g_inotifyFd (app s1) \<or> e = Some (-1)" "daemon_inv (heap s) (fds s) ps s1"
    "faults s1 = faults s"
proof -
  have "mappings (app s) = Map.empty" "g_inotifyFd (app s) < 0" "g_ipcDgramhandle (app s) = None" "config_ok env" "wf_world s"
    "0 \<in> fds s" using assms(1) by (simp_all add: fresh_process_def)
  from serv_init_inv [OF this(4,1,2,3,5,6) assms(2,3)] that show thesis by blast
qed

lemma reached:
  assumes "fresh_process env s" "script s = replicate (config_size env) Done @ rs" "serv_init env s = (e, s1)"
  obtains ps where "e \<noteq> None" "daemon_inv (heap s) (fds s) ps (run_turns ts s1)" "faults (run_turns ts s1) = faults s"
proof -
  from started [OF assms] obtain ps where "e = Some 0 \<and> 0 \<le> g_inotifyFd (app s1) \<or> e = Some (-1)"
    "daemon_inv (heap s) (fds s) ps s1" "faults s1 = faults s" .
  with run_turns_inv [OF this(2), of ts] that show thesis by auto
qed

lemma daemon_inner:
  assumes "daemon_inv H F ps s"
  obtains H' F' where "nptp_inv H' F' ps s"
  using assms by (auto simp: daemon_inv_def split: option.splits)

text \<open>
  C1. The service from its start to its end. Whatever the kernel answers, whatever the clients, the
  pipes, the directories, other processes and the control tool do, and in whatever order the threads and the program's loop
  make their turns: no freed memory is used, nothing is freed twice, no array is overrun; and when the
  service is torn down, after however many turns and also after a failed start, the process has
  exactly the blocks and descriptors it started with.
\<close>

theorem nptp_service_safe:
  assumes "fresh_process env s" "script s = replicate (config_size env) Done @ rs" "serv_init env s = (e, s1)"
  shows "e \<noteq> None \<and> faults (run_turns ts s1) = faults s \<and>
    heap (serv_uninit (run_turns ts s1)) = heap s \<and> fds (serv_uninit (run_turns ts s1)) = fds s \<and>
    faults (serv_uninit (run_turns ts s1)) = faults s"
proof -
  obtain ps where r: "e \<noteq> None" "daemon_inv (heap s) (fds s) ps (run_turns ts s1)" "faults (run_turns ts s1) = faults s"
    using reached [OF assms] .
  from serv_uninit_inv [OF r(2)] r show ?thesis by simp
qed

text \<open>A configuration with one mapping, without port and pipe.\<close>

definition sample_env :: conf_env where
  "sample_env = \<lparr>xmlReadFile = Some (Some (Node XML_ELEMENT_NODE ''NPTP'' []
       [Node XML_ELEMENT_NODE ''MAPPING'' [(''enable'', Some ''1'')] []])),
     xmlNodeGetContent = (\<lambda>n. None), getcwd = (\<lambda>n buf. buf)\<rparr>"

lemma sample_nodes: "config_nodes sample_env = [Node XML_ELEMENT_NODE ''MAPPING'' [(''enable'', Some ''1'')] []]"
  by (simp add: config_nodes_def sample_env_def)

lemma sample_enable: "enable_of (Node XML_ELEMENT_NODE ''MAPPING'' [(''enable'', Some ''1'')] []) = Some ''1''" "atoi ''1'' = 1"
  by (simp_all add: enable_of_def ATT_NAME_ENABLE_def atoi_def strtol_def is_space_def dec_value_def is_digit_def
      signed_take_bit_eq_if_positive)

lemma sample_enabled: "enabled (Node XML_ELEMENT_NODE ''MAPPING'' [(''enable'', Some ''1'')] [])"
  using sample_enable by (simp add: enabled_def is_mapping_def TAG_NAME_MAPPING_def)

lemma sample_tags: "find_tag x (Node XML_ELEMENT_NODE ''MAPPING'' [(''enable'', Some ''1'')] []) = None"
  by (simp add: find_tag_def)

lemma sample_ok: "config_ok sample_env" "config_size sample_env = 1"
  using sample_enable sample_enabled
  by (simp_all add: config_ok_def config_size_def sample_nodes node_ok_def node_fits_def tag_text_def sample_tags MAX_MAPPING_NUM_def)

lemma sample_fresh: "fresh_process sample_env (boot nptp_start rs)"
  using sample_ok by (simp add: fresh_process_def nptp_start_def)

text \<open>The kernel's answers: memory for the mapping; the server; the pipe's client; the events; the commands.\<close>

definition sample_replies :: "reply list" where
  "sample_replies = [Done, Done, Val 5, Done, Done, Done, Val 6, Done, Val 7, Val 1, Done, Val 8, Done, Done]"

definition sample_mapping :: tMapping where
  "sample_mapping = zero_mapping\<lparr>wd := -1, index := 0\<rparr>"

lemma sample_xml: "xml_init sample_env s = (Some 0, s')" if "s' = set_app (\<lambda>g. g\<lparr>xml_docs := xml_docs (app s), g_pMapping := (g_pMapping g)[0 := brk s],
      mappings := (mappings g)(brk s \<mapsto> sample_mapping), g_mappingNum := 1\<rparr>) (s\<lparr>script := rs, heap := insert (brk s) (heap s), brk := Suc (brk s)\<rparr>)"
   "script s = Done # rs" "g_mappingNum (app s) = 0" "0 < brk s"
  using that by (simp add: xml_init_def sample_env_def getAttribute_def ATT_NAME_ENABLE_def TAG_NAME_MAPPING_def sample_enable
   parseMapping_def c_malloc_def pop_def parseTagPort_def parseTagPipe_def parseTagDesc_def sample_tags MAX_MAPPING_NUM_def set_app_def sample_mapping_def)


lemmas sample_eval = posix_eval sample_replies_def streamServerInit_def streamInitServer_def tcpOpen_def unixOpen_def
  streamServerNewContext_def comm_tcpIpv4ServerInit_def streamClientInit_def streamInitClient_def
  streamClientNewContext_def on_mapping_def set_app_def c_strcpy_def SUN_PATH_def c_strncpy_def

text \<open>The state after the start; \<open>rest\<close> are the answers from then on.\<close>

lemma sample_service_run:
  obtains s1 h c k where "serv_init sample_env (boot nptp_start (sample_replies @ rest)) = (Some 0, s1)" "0 \<le> g_inotifyFd (app s1)"
    "mappings (app s1) 1 = Some (sample_mapping\<lparr>tcpServerHandle := Some (2, h), ipcStreamHandle := Some (3, c), wd := 1\<rparr>)"
    "stream_client_ctx.fd c = 6" "stream_client_ctx.running c = 0" "script s1 = rest" "fds s1 = {8,7,6,5,0,1,2}" "brk s1 = 5"
    "cancels s1 = {}" "stream_server_ctx.running h = 1" "stream_server_ctx.fd h = 5" "tbl (table h) = replicate 32 NULL"
    "num (table h) = 0" "stream_client_ctx.localAddr c = Sockaddr_un (IPC_STREAM_FILE_PATH @ [char_of (48 :: nat)])"
    "g_ipcDgramhandle (app s1) = Some (4, k)" "ipc_dgram_ctx.running k = 1" "ipc_dgram_ctx.fd k = 8"
proof -
  let ?s = "set_app (\<lambda>g. g\<lparr>g_pMapping := replicate MAX_MAPPING_NUM NULL, g_mappingNum := 0\<rparr>)
    (set_log (comm_setLogMask LOG_MASK_NONE) (boot nptp_start (sample_replies @ rest)))"
  have sc: "script ?s = Done # (tl sample_replies @ rest)" "g_mappingNum (app ?s) = 0" "0 < brk ?s" "brk ?s = 1" "fds ?s = {0,1,2}"
    "files ?s = {}" "cancels ?s = {}" by (simp_all add: set_log_def sample_replies_def boot_def)
  obtain s1 where s1: "xml_init sample_env ?s = (Some 0, s1)" "mappings (app s1) 1 = Some sample_mapping"
    "script s1 = tl sample_replies @ rest" "fds s1 = {0,1,2}" "files s1 = {}" "brk s1 = 2" "take 1 (g_pMapping (app s1)) = [1]"
    "g_mappingNum (app s1) = 1" "cancels s1 = {}"
    using sample_xml [OF refl sc(1-3)] by (simp add: sc) (simp add: set_log_def boot_def eval_nat_numeral MAX_MAPPING_NUM_def)
  obtain s2 h where s2: "proxy_launchTcp 1 s1 = (0, s2)" "mappings (app s2) 1 = Some (sample_mapping\<lparr>tcpServerHandle := Some (2, h)\<rparr>)"
    "script s2 = drop 5 sample_replies @ rest" "fds s2 = {5,0,1,2}" "files s2 = {}" "brk s2 = 3" "take 1 (g_pMapping (app s2)) = [1]"
    "g_mappingNum (app s2) = 1" "cancels s2 = {}" "stream_server_ctx.running h = 1" "stream_server_ctx.fd h = 5"
    "tbl (table h) = replicate 32 NULL" "num (table h) = 0"
    using s1(2-) by (simp add: proxy_launchTcp_def sample_mapping_def zero_mapping_def sample_eval USER_NUM_def)
  have z: "c_string (replicate n (CHR 0x00)) = []" for n using c_string_pad [of "[]" n] by simp
  have d: "fmt_d 0 = [char_of (48 :: nat)]" by (simp add: fmt_d_def fmt_u.simps)
  obtain s3 c where s3: "proxy_connectIpc 1 s2 = (0, s3)"
    "mappings (app s3) 1 = Some (sample_mapping\<lparr>tcpServerHandle := Some (2, h), ipcStreamHandle := Some (3, c)\<rparr>)"
    "script s3 = drop 8 sample_replies @ rest" "fds s3 = {6,5,0,1,2}" "brk s3 = 4" "take 1 (g_pMapping (app s3)) = [1]"
    "g_mappingNum (app s3) = 1" "cancels s3 = {}" "stream_client_ctx.fd c = 6" "stream_client_ctx.running c = 0"
    "stream_client_ctx.localAddr c = Sockaddr_un (IPC_STREAM_FILE_PATH @ [char_of (48 :: nat)])"
    using s2(2-9) by (simp add: proxy_connectIpc_def comm_ipcStreamClientInit_def sample_mapping_def zero_mapping_def sample_eval
        IPC_STREAM_FILE_PATH_def d z read_chars_def)
  let ?l = "PRINT (''service ready'' @ newline) (serv_list s3)"
  have tl: "table_list (app t) = [1]" if "take 1 (g_pMapping (app t)) = [1]" "g_mappingNum (app t) = 1" for t :: "nptp world"
    using that by (simp add: table_list_def)
  have l: "mappings (app ?l) 1 = mappings (app s3) 1" "script ?l = drop 8 sample_replies @ rest" "fds ?l = {6,5,0,1,2}" "brk ?l = 4"
    "take 1 (g_pMapping (app ?l)) = [1]" "g_mappingNum (app ?l) = 1" "cancels ?l = {}"
    using s3(2-8) by (simp_all add: serv_list_def tl)
  obtain s4 where s4: "event_init ?l = (0, s4)" "script s4 = drop 10 sample_replies @ rest" "fds s4 = {7,6,5,0,1,2}" "brk s4 = 4"
    "mappings (app s4) 1 = Some (sample_mapping\<lparr>tcpServerHandle := Some (2, h), ipcStreamHandle := Some (3, c), wd := 1\<rparr>)" "cancels s4 = {}"
    using l s3(2) by (simp add: event_init_def table_list_def watch_mapping_def read_chars_def sample_eval sample_mapping_def)
  obtain k s5 where s5: "ipcDgramInit IPC_DGRAM_FILE_PATH p_ipcRecvFunc NULL s4 = (Some (4, k), s5)" "app s5 = app s4" "script s5 = rest"
    "fds s5 = {8,7,6,5,0,1,2}" "brk s5 = 5" "cancels s5 = {}" "ipc_dgram_ctx.running k = 1" "ipc_dgram_ctx.fd k = 8"
    using s4(2-) by (simp add: ipcDgramInit_def ipcDgramInitSocket_def ipcDgramNewContext_def p_ipcRecvFunc_def IPC_DGRAM_FILE_PATH_def sample_eval)
  have "proxy_init s1 = (0, s3)" using s1(7,8) s2(1) s3(1) by (simp add: proxy_init_def table_list_def)
  then obtain u where u: "serv_init sample_env (boot nptp_start (sample_replies @ rest)) = (Some 0, u)"
    "mappings (app u) 1 = mappings (app s4) 1" "script u = rest" "fds u = {8,7,6,5,0,1,2}" "brk u = 5" "cancels u = {}"
    "g_ipcDgramhandle (app u) = Some (4, k)"
    using s1(1,8) s4(1) s5 unfolding serv_init_def Let_def by simp
  with serv_init_inv [of sample_env "boot nptp_start (sample_replies @ rest)" "tl sample_replies @ rest" "Some 0" u] sample_ok
  have "0 \<le> g_inotifyFd (app u)" by (auto simp: sample_replies_def nptp_start_def boot_def wf_world_def)
  from that [OF u(1) this _ s3(9,10) u(3-6) s2(10-13) s3(11) u(7) s5(7,8)] u(2) s4(5) show thesis by simp
qed

lemma sample_started:
  obtains s1 where "serv_init sample_env (boot nptp_start sample_replies) = (Some 0, s1)" "0 \<le> g_inotifyFd (app s1)" "1 \<in> dom (mappings (app s1))"
  by (rule sample_service_run [of "[]"]) auto

lemma sample_script_rest: "script (boot nptp_start (sample_replies @ rest)) = replicate (config_size sample_env) Done @ tl sample_replies @ rest"
  by (simp add: sample_ok sample_replies_def boot_def)

lemma sample_script: "script (boot nptp_start sample_replies) = replicate (config_size sample_env) Done @ tl sample_replies"
  using sample_script_rest [of "[]"] by simp

theorem nptp_service_safe_witness:
  "\<exists>s1. serv_init sample_env (boot nptp_start sample_replies) = (Some 0, s1) \<and>
     faults (run_turns [Accept 1, Pipe 1, Event, Command new_name] s1) = [] \<and>
     heap (serv_uninit (run_turns [Accept 1, Pipe 1, Event, Command new_name] s1)) = {} \<and>
     fds (serv_uninit (run_turns [Accept 1, Pipe 1, Event, Command new_name] s1)) = {0, 1, 2}"
proof -
  obtain s1 where s1: "serv_init sample_env (boot nptp_start sample_replies) = (Some 0, s1)" by (rule sample_started)
  from nptp_service_safe [OF sample_fresh sample_script s1, of "[Accept 1, Pipe 1, Event, Command new_name]"] s1
  show ?thesis by (simp add: boot_def)
qed

section \<open>Every reachable state\<close>

text \<open>
  C6. The data of the service keeps its types in every state it reaches: the table holds distinct
  live blocks; the character arrays have their lengths, the flags are 0 or 1, the TCP flag is set exactly
  when there is a user; a mapping has at most one user, whose block is live, and the user that the
  data of the pipe goes to is one of the server's and has an open descriptor.
\<close>

theorem nptp_state_typed:
  assumes "fresh_process env s" "script s = replicate (config_size env) Done @ rs" "serv_init env s = (e, s1)"
    and "s2 = run_turns ts s1"
  shows "\<exists>ps. table_ok ps s2 \<and> (\<forall>p\<in>set ps. \<exists>m. mappings (app s2) p = Some m \<and> length (pipePath m) = 160 \<and>
    length (pipeName m) = 80 \<and> tcpConnect m = (if pTcpUser m = NULL then 0 else 1) \<and> (pipeConnect m = 0 \<or> pipeConnect m = 1) \<and>
    0 \<le> index m \<and> index m < 64 \<and> card (dom (tcpUsers m)) \<le> 1 \<and> dom (tcpUsers m) \<subseteq> heap s2 \<and>
    (pTcpUser m \<noteq> NULL \<longrightarrow> (\<exists>u. tcpUsers m (pTcpUser m) = Some u \<and> user_fd u \<in> fds s2)))"
proof -
  obtain ps where "daemon_inv (heap s) (fds s) ps s2" using reached [OF assms(1-3), of ts] assms(4) by blast
  then obtain H F where i: "nptp_inv H F ps s2" by (rule daemon_inner)
  have t: "table_ok ps s2" using nptp_inv_D [OF i] by simp
  have "\<exists>m. mappings (app s2) p = Some m \<and> length (pipePath m) = 160 \<and>
    length (pipeName m) = 80 \<and> tcpConnect m = (if pTcpUser m = NULL then 0 else 1) \<and> (pipeConnect m = 0 \<or> pipeConnect m = 1) \<and>
    0 \<le> index m \<and> index m < 64 \<and> card (dom (tcpUsers m)) \<le> 1 \<and> dom (tcpUsers m) \<subseteq> heap s2 \<and>
    (pTcpUser m \<noteq> NULL \<longrightarrow> (\<exists>u. tcpUsers m (pTcpUser m) = Some u \<and> user_fd u \<in> fds s2))" if p: "p \<in> set ps" for p
  proof -
    obtain m where m: "mappings (app s2) p = Some m" using inv_mapping [OF i p] .
    have o: "fields_ok p m" "server_heap m \<subseteq> heap s2" "server_fds m \<subseteq> fds s2"
      using nptp_inv_mapping [OF i m] by (simp_all add: mapping_ok_def map_heap_def map_fds_def)
    have "card (dom (tcpUsers m)) \<le> 1 \<and> dom (tcpUsers m) \<subseteq> heap s2 \<and> user_fds (tcpUsers m) \<subseteq> fds s2"
    proof (cases "tcpServerHandle m")
      case None
      with o(1) show ?thesis by (simp add: fields_ok_def user_fds_None)
    next
      case (Some h)
      then obtain pc c where h: "tcpServerHandle m = Some (pc, c)" by (cases h) auto
      then have "slots_ok (table c) (dom (tcpUsers m))" "cap (table c) = 1"
        using o(1) by (simp_all add: fields_ok_def server_pure_def server_set_up_def)
      from user_slots.ok_num [OF this(1)] this(2) show ?thesis
        using o(2,3) h by (simp add: server_heap_def server_fds_def)
    qed
    moreover have "\<exists>u. tcpUsers m (pTcpUser m) = Some u \<and> user_fd u \<in> user_fds (tcpUsers m)" if "pTcpUser m \<noteq> NULL"
      using that o(1) by (auto simp: fields_ok_def user_ok_def user_fds_def)
    moreover have "length (pipePath m) = 160" "length (pipeName m) = 80" "tcpConnect m = (if pTcpUser m = NULL then 0 else 1)"
      "pipeConnect m = 0 \<or> pipeConnect m = 1" "0 \<le> index m" "index m < 64"
      using o(1) by (simp_all only: fields_ok_def arrays_ok_def flags_ok_def)
    ultimately show ?thesis using m by blast
  qed
  with t show ?thesis by blast
qed

theorem nptp_state_typed_witness:
  "\<exists>s1 ps. serv_init sample_env (boot nptp_start sample_replies) = (Some 0, s1) \<and> table_ok ps (run_turns [Accept 1, Event] s1)"
proof -
  obtain s1 where s1: "serv_init sample_env (boot nptp_start sample_replies) = (Some 0, s1)" by (rule sample_started)
  from nptp_state_typed [OF sample_fresh sample_script s1 refl, of "[Accept 1, Event]"] s1 show ?thesis by blast
qed

section \<open>The end of the service\<close>

text \<open>A turn of the loop goes on while events are watched for.\<close>

lemma eventBody_next:
  assumes "nptp_inv H F ps s" "g_inotifyFd (app s) \<noteq> -1"
  shows "fst (eventBody s) = Next \<and> nptp_inv H F ps (snd (eventBody s)) \<and> g_inotifyFd (app (snd (eventBody s))) \<noteq> -1"
proof -
  note k = eventBody_steady [OF assms(1)]
  obtain len bs t where 1: "sys_read (g_inotifyFd (app s)) EVENT_BUFFER s = (len, bs, t)" by (metis prod_cases3)
  have "app t = app s" using sys_recv_rule [OF 1 [unfolded sys_read_def] nptp_inv_D(1) [OF assms(1)]] by (simp add: quiet_def)
  with assms(2) 1 have "fst (eventBody s) = Next" by (simp add: eventBody_def Let_def)
  with k assms(2) show ?thesis by (simp add: kept_def)
qed

lemma event_monitor_waits:
  assumes "nptp_inv H F ps s" "g_inotifyFd (app s) \<noteq> -1"
  shows "event_monitor s = None"
proof -
  have "c_while (\<lambda>s. True) eventBody s = None"
    by (rule c_while_forever [where I = "\<lambda>s. nptp_inv H F ps s \<and> g_inotifyFd (app s) \<noteq> -1"])
      (use eventBody_next [of H F ps] assms in auto)
  then show ?thesis by (simp add: event_monitor_def)
qed

lemma event_monitor_ends:
  assumes "nptp_inv H F ps s" "g_inotifyFd (app s) = -1"
  shows "\<exists>t. event_monitor s = Some t \<and> same_service (app s) (app t) \<and> g_ipcDgramhandle (app t) = g_ipcDgramhandle (app s) \<and>
    wf_world t \<and> heap t = heap s \<and> fds t = fds s \<and> faults t = faults s"
proof -
  have "-1 \<notin> fds s" using nptp_inv_D(1) [OF assms(1)] by (auto simp: wf_world_def)
  then have "sys_read (-1) EVENT_BUFFER s = (-1, [], s\<lparr>errno := EBADF\<rparr>)"
    by (simp add: sys_read_def sys_recv_def sys_recvfrom_def)
  then have "eventBody s = (Break, s\<lparr>errno := EBADF\<rparr>)" using assms(2) by (simp add: eventBody_def)
  then have "event_monitor s = Some (s\<lparr>errno := EBADF\<rparr>)" by (simp add: event_monitor_def c_while_break)
  with nptp_inv_D(1) [OF assms(1)] show ?thesis by (simp add: wf_world_def)
qed

lemma daemon_inv_by:
  assumes d: "daemon_inv H F ps s"
    and t: "\<And>H F. nptp_inv H F ps s \<Longrightarrow>
      nptp_inv H F ps s' \<and> faults s' = faults s \<and> g_ipcDgramhandle (app s') = g_ipcDgramhandle (app s)"
  shows "daemon_inv H F ps s' \<and> faults s' = faults s"
proof (cases "g_ipcDgramhandle (app s)")
  case None
  with d have "nptp_inv H F ps s" by (simp add: daemon_inv_def)
  from t [OF this] None show ?thesis by (simp add: daemon_inv_def)
next
  case (Some z)
  then obtain q c where h: "g_ipcDgramhandle (app s) = Some (q, c)" by (cases z) auto
  with d have "nptp_inv (insert q H) (insert (ipc_dgram_ctx.fd c) F) ps s" by (simp add: daemon_inv_def)
  from t [OF this] h d show ?thesis by (simp add: daemon_inv_def)
qed

text \<open>The command \<^verbatim>\<open>exit\<close> ends the watching, if there is any.\<close>

lemma event_uninit_watch:
  assumes i: "nptp_inv H F ps s"
  shows "g_inotifyFd (app (event_uninit s)) = (if 0 \<le> g_inotifyFd (app s) then -1 else g_inotifyFd (app s))"
proof -
  have "\<forall>p\<in>set ps. \<forall>t. nptp_inv H F ps t \<longrightarrow> kept H F ps {p} t (unwatch_mapping p t) \<and> True"
    using unwatch_mapping_kept by blast
  from fold_kept [where Q = "\<lambda>_ _. True", OF this table_loop(2) [OF i] i]
  have "g_inotifyFd (app (fold unwatch_mapping ps s)) = g_inotifyFd (app s)" by (simp add: kept_def)
  then show ?thesis using table_loop(1) [OF i, of unwatch_mapping] by (simp add: event_uninit_def Let_def)
qed

text \<open>
  C7. The end of the service. However the service has worked, as long as it watches the directories
  the program's loop does not end by itself: \<^verbatim>\<open>event_monitor\<close> has no result. The command
  \<^verbatim>\<open>exit\<close>, from whatever socket and in a datagram of whatever size, ends it: then \<^verbatim>\<open>event_monitor\<close>
  returns, and \<^verbatim>\<open>serv_uninit\<close> gives back everything.
\<close>

theorem nptp_exit_ends_service:
  assumes "fresh_process env s" "script s = replicate (config_size env) Done @ rs" "serv_init env s = (e, s1)"
    and s2: "s2 = run_turns ts s1" "0 \<le> g_inotifyFd (app s2)"
    and cmd: "command_text (take (unat n) bs) = ''exit''"
  shows "event_monitor s2 = None \<and>
    (\<exists>s3. event_monitor (ipcRecvFunc a bs n path s2) = Some s3 \<and>
       heap (serv_uninit s3) = heap s \<and> fds (serv_uninit s3) = fds s \<and> faults (serv_uninit s3) = faults s)"
proof -
  obtain ps where d: "daemon_inv (heap s) (fds s) ps s2" "faults s2 = faults s" using reached [OF assms(1-3), of ts] s2(1) by blast
  from d(1) obtain H F where i: "nptp_inv H F ps s2" by (rule daemon_inner)
  let ?t = "ipcRecvFunc a bs n path s2"
  have t: "?t = event_uninit s2" using cmd by (simp add: ipcRecvFunc_def)
  have d2: "daemon_inv (heap s) (fds s) ps ?t \<and> faults ?t = faults s2"
    by (rule daemon_inv_by [OF d(1)]) (use event_uninit_inv in \<open>auto simp: t\<close>)
  then obtain H' F' where i2: "nptp_inv H' F' ps ?t" using daemon_inner by blast
  have fd: "g_inotifyFd (app ?t) = -1" using event_uninit_watch [OF i] s2(2) by (simp add: t)
  from event_monitor_ends [OF i2 fd] obtain s3 where s3: "event_monitor ?t = Some s3" "same_service (app ?t) (app s3)"
    "g_ipcDgramhandle (app s3) = g_ipcDgramhandle (app ?t)" "wf_world s3" "heap s3 = heap ?t" "fds s3 = fds ?t" "faults s3 = faults ?t"
    by blast
  have "daemon_inv (heap s) (fds s) ps s3 \<and> faults s3 = faults ?t"
    by (rule daemon_inv_by [OF conjunct1 [OF d2]]) (use s3 nptp_inv_frame [OF _ s3(2,4,5,6)] in auto)
  with serv_uninit_inv [of "heap s" "fds s" ps s3] d2 d(2) s3(1) event_monitor_waits [OF i] s2(2) show ?thesis by auto
qed

theorem nptp_exit_ends_service_witness:
  "\<exists>s1 s3. serv_init sample_env (boot nptp_start sample_replies) = (Some 0, s1) \<and> event_monitor s1 = None \<and>
     event_monitor (ipcRecvFunc 0 [101, 120, 105, 116] 4 ''x'' s1) = Some s3 \<and> heap (serv_uninit s3) = {}"
proof -
  obtain s1 where s1: "serv_init sample_env (boot nptp_start sample_replies) = (Some 0, s1)" "0 \<le> g_inotifyFd (app s1)"
    by (rule sample_started)
  have "char_of (101 :: nat) = CHR ''e''" "char_of (120 :: nat) = CHR ''x''" "char_of (105 :: nat) = CHR ''i''"
    "char_of (116 :: nat) = CHR ''t''" by code_simp+
  then have "command_text (take (unat (4 :: u16)) [101, 120, 105, 116]) = ''exit''"
    by (simp add: command_text_def c_string_def)
  from nptp_exit_ends_service [OF sample_fresh sample_script s1(1), of s1 "[]", OF _ _ this, of 0 "''x''"] s1 show ?thesis
    by (auto simp: run_turns_def boot_def)
qed

end
