(* ===== verification/Nptp_Main.thy ===== *)
theory Nptp_Main
  imports Nptp_Service
begin

text \<open>
  \<^verbatim>\<open>main\<close> of \<^verbatim>\<open>application/nptp_serv.c\<close>, as the main thread among the other threads of the process, and when it ends.
\<close>

section \<open>The program\<close>

text \<open>
  The main thread among the others. It makes one turn of the loop of \<^verbatim>\<open>event_monitor\<close> at each \<open>Event\<close> of a
  schedule of turns, until a turn leaves the loop; the other turns are those of the other threads. The result
  is \<open>Inl\<close> with the world in which it is still in the loop when the schedule is over, or \<open>Inr\<close> with the world in
  which it has left it.
\<close>

fun event_loop :: "turn list \<Rightarrow> nptp world \<Rightarrow> nptp world + nptp world" where
  "event_loop [] s = Inl s"
| "event_loop (Event # ts) s = (case eventBody s of (Next, s) \<Rightarrow> event_loop ts s | (_, s) \<Rightarrow> Inr s)"
| "event_loop (t # ts) s = event_loop ts (make_turn t s)"

text \<open>
  Where the process is when a schedule of turns is over: still running, ended with an exit code, or dead after
  undefined behaviour. In the background the parent exits at once. Once the loop has been left, no other turns are
  made before the end.
\<close>

datatype process = Running "nptp world" | Exited int "nptp world" | Crashed "nptp world"

definition serv_main :: "conf_env \<Rightarrow> string \<Rightarrow> turn list \<Rightarrow> nptp world \<Rightarrow> process" where
  "serv_main env opts ts s = (case serv_options opts True of
       None \<Rightarrow> Exited 0 (set_log (printf (''Usage: nptp_serv'' @ newline @ ''     : nptp_serv -f'' @ newline @ newline)) s)
     | Some background \<Rightarrow>
         let (pid, s) = (if background then sys_fork s else (0, s)) in
         if 0 < pid then Exited 0 s
         else (case serv_init env s of
             (None, s) \<Rightarrow> Crashed s
           | (Some e, s) \<Rightarrow>
               if e \<noteq> 0
               then Exited (-1) (serv_uninit (PRINT (''ERR: fail to initial service'' @ newline) s))
               else (case event_loop ts s of
                   Inl s \<Rightarrow> Running s
                 | Inr s \<Rightarrow> Exited 0 (serv_uninit s))))"

text \<open>Without other threads the loop is \<^verbatim>\<open>event_monitor\<close>.\<close>

lemma event_loop_alone: "event_monitor s = Some s' \<longleftrightarrow> (\<exists>n. event_loop (replicate n Event) s = Inr s')"
proof
  have *: "h = (\<lambda>s. True) \<longrightarrow> b = eventBody \<longrightarrow> (\<exists>n. event_loop (replicate n Event) s = Inr (snd r))"
    if "c_while h b s = Some r" for h b s r
  proof (rule c_while.raw_induct [OF _ that], intro impI)
    fix loop h b s r
    assume IH: "\<And>h b s r. loop h b s = Some r \<Longrightarrow>
        h = (\<lambda>s. True) \<longrightarrow> b = eventBody \<longrightarrow> (\<exists>n. event_loop (replicate n Event) s = Inr (snd r))"
      and l: "(if h s then case b s of (fl, s') \<Rightarrow> (case fl of Next \<Rightarrow> loop h b s'
        | Break \<Rightarrow> Some (False, s') | Cancel \<Rightarrow> Some (True, s')) else Some (False, s)) = Some r"
      and h: "h = (\<lambda>s. True)" "b = eventBody"
    obtain fl s1 where b: "eventBody s = (fl, s1)" by fastforce
    show "\<exists>n. event_loop (replicate n Event) s = Inr (snd r)"
    proof (cases fl)
      case Next
      with l h b have "loop h eventBody s1 = Some r" by simp
      from IH [OF this] h obtain n where "event_loop (replicate n Event) s1 = Inr (snd r)" by blast
      with b Next have "event_loop (replicate (Suc n) Event) s = Inr (snd r)" by simp
      then show ?thesis by blast
    next
      case Break
      with l h b have "event_loop (replicate 1 Event) s = Inr (snd r)" by auto
      then show ?thesis by blast
    next
      case Cancel
      with l h b have "event_loop (replicate 1 Event) s = Inr (snd r)" by auto
      then show ?thesis by blast
    qed
  qed
  assume "event_monitor s = Some s'"
  then obtain r where "c_while (\<lambda>s. True) eventBody s = Some r" "s' = snd r" by (auto simp: event_monitor_def)
  with * [OF this(1)] show "\<exists>n. event_loop (replicate n Event) s = Inr s'" by simp
next
  assume "\<exists>n. event_loop (replicate n Event) s = Inr s'"
  then obtain n where "event_loop (replicate n Event) s = Inr s'" ..
  then show "event_monitor s = Some s'"
  proof (induction n arbitrary: s)
    case (Suc n)
    obtain fl s1 where b: "eventBody s = (fl, s1)" by fastforce
    with Suc show ?case
      by (cases fl) (auto simp: event_monitor_def c_while_next c_while_break c_while_cancel)
  qed simp
qed

section \<open>The command to end\<close>

text \<open>The turn is one in which the thread for the commands takes the command \<^verbatim>\<open>exit\<close>.\<close>

definition exit_received :: "turn \<Rightarrow> nptp world \<Rightarrow> bool" where
  "exit_received t s \<longleftrightarrow> (case t of
       Command nb \<Rightarrow> (case g_ipcDgramhandle (app s) of
           None \<Rightarrow> False
         | Some (q, c) \<Rightarrow> ipc_dgram_ctx.running c \<noteq> 0 \<and> \<not> pthread_testcancel (ipc_dgram_ctx.thread c) s \<and> ipc_dgram_ctx.fd c \<in> fds s \<and>
             (case script s of Data bs a # rs \<Rightarrow> command_text (take COMM_BUF_SIZE bs) = ''exit'' | _ \<Rightarrow> False))
     | _ \<Rightarrow> False)"

text \<open>In a schedule, the main thread gets to make a turn after such a turn.\<close>

fun exit_noticed :: "turn list \<Rightarrow> nptp world \<Rightarrow> bool" where
  "exit_noticed [] s \<longleftrightarrow> False"
| "exit_noticed (t # ts) s \<longleftrightarrow> exit_received t s \<and> Event \<in> set ts \<or> exit_noticed ts (make_turn t s)"

lemma ipcRecvFunc_watch:
  assumes i: "nptp_inv H F ps s"
  shows "g_inotifyFd (app (ipcRecvFunc a bs n path s)) =
    (if command_text (take (unat n) bs) = ''exit'' \<and> 0 \<le> g_inotifyFd (app s) then -1 else g_inotifyFd (app s))"
proof -
  have l: "g_inotifyFd (app (set_log f s)) = g_inotifyFd (app s)" for f by (simp add: set_log_def)
  have "g_inotifyFd (app (serv_list s)) = g_inotifyFd (app s)" using serv_list_kept [OF i] by (simp add: kept_def)
  with l event_uninit_watch [OF i] show ?thesis by (simp add: ipcRecvFunc_def Let_def)
qed

text \<open>No turn but that one changes what the main thread reads from.\<close>

lemma kept_watch:
  assumes d: "daemon_inv H F ps s" and t: "\<And>H F. nptp_inv H F ps s \<Longrightarrow> kept H F ps (set ps) s s'"
  shows "g_inotifyFd (app s') = g_inotifyFd (app s)"
proof -
  obtain H' F' where "nptp_inv H' F' ps s" using d by (rule daemon_inner)
  from t [OF this] show ?thesis by (simp add: kept_def)
qed

lemma command_watch:
  assumes d: "daemon_inv H F ps s"
  shows "g_inotifyFd (app (commandTurn nb s)) =
    (if exit_received (Command nb) s \<and> 0 \<le> g_inotifyFd (app s) then -1 else g_inotifyFd (app s))"
proof (cases "\<exists>q c. g_ipcDgramhandle (app s) = Some (q, c) \<and> ipc_dgram_ctx.running c \<noteq> 0 \<and> \<not> pthread_testcancel (ipc_dgram_ctx.thread c) s")
  case False
  then show ?thesis by (auto simp: commandTurn_def exit_received_def ipcDgramRecvBody_def set_app_def split: option.split)
next
  case True
  then obtain q c where h: "g_ipcDgramhandle (app s) = Some (q, c)" "ipc_dgram_ctx.running c \<noteq> 0"
    "\<not> pthread_testcancel (ipc_dgram_ctx.thread c) s" by blast
  have p: "ipc_dgram_ctx.pRecvFunc c = p_ipcRecvFunc" "p_ipcRecvFunc \<noteq> NULL" using d h by (simp_all add: daemon_inv_def p_ipcRecvFunc_def)
  obtain H' F' where i: "nptp_inv H' F' ps s" using d by (rule daemon_inner)
  show ?thesis
  proof (cases "ipc_dgram_ctx.fd c \<in> fds s \<and> (\<exists>r rs. script s = r # rs \<and> answered r)")
    case False
    obtain len bs src s2 where 2: "sys_recvfrom (ipc_dgram_ctx.fd c) COMM_BUF_SIZE s = (len, bs, src, s2)" by (metis prod_cases4)
    have "len < 0 \<and> app s2 = app s"
      using 2 False by (auto simp: sys_recvfrom_def pop_def split: list.splits reply.splits if_splits)
    moreover have "\<not> exit_received (Command nb) s" using False h by (auto simp: exit_received_def split: list.split reply.split)
    ultimately show ?thesis using h 2 by (simp add: commandTurn_def ipcDgramRecvBody_def Let_def)
  next
    case True
    then obtain r rs where r: "ipc_dgram_ctx.fd c \<in> fds s" "script s = r # rs" "answered r" by blast
    let ?bs = "take COMM_BUF_SIZE (reply_data r)" and ?s = "s\<lparr>script := rs\<rparr>"
    let ?e = "emit (ECall (RecvPathCb p_ipcRecvFunc (ipc_dgram_ctx.pArg c) ?bs (word_of_int (int (length ?bs))) (peer_name (get_name (reply_source r) nb)))) ?s"
    have n: "unat (word_of_int (int (length ?bs)) :: u16) = length ?bs"
      by (simp add: COMM_BUF_SIZE_def unat_of_nat)
    have i2: "nptp_inv H' F' ps ?e" by (rule nptp_inv_frame [OF i]) (use nptp_inv_D(1) [OF i] in \<open>simp_all add: wf_world_def\<close>)
    have t: "take (length ?bs) (fill (ipc_dgram_ctx.recvMsg c) ?bs) = ?bs" by (simp add: fill_def min_def)
    have "g_inotifyFd (app (commandTurn nb s)) = g_inotifyFd (app (ipcRecvFunc (ipc_dgram_ctx.pArg c) ?bs (word_of_int (int (length ?bs)))
        (peer_name (get_name (reply_source r) nb)) ?e))"
      using h p r sys_recvfrom_answered [OF r, of COMM_BUF_SIZE] t
      by (simp add: commandTurn_def ipcDgramRecvBody_def Let_def invoke_def pthread_testcancel_def)
    also have "\<dots> = (if command_text ?bs = ''exit'' \<and> 0 \<le> g_inotifyFd (app s) then -1 else g_inotifyFd (app s))"
      unfolding ipcRecvFunc_watch [OF i2] n by (simp add: min_def)
    also have "command_text ?bs = ''exit'' \<longleftrightarrow> exit_received (Command nb) s"
      using h r by (cases r) (simp_all add: exit_received_def command_text_def c_string_def)
    finally show ?thesis .
  qed
qed

lemma turn_watch:
  assumes d: "daemon_inv H F ps s"
  shows "g_inotifyFd (app (make_turn t s)) = (if exit_received t s \<and> 0 \<le> g_inotifyFd (app s) then -1 else g_inotifyFd (app s))"
proof (cases t)
  case (Accept p)
  then show ?thesis using kept_watch [OF d acceptTurn_kept] by (simp add: exit_received_def)
next
  case (Receive p u)
  then show ?thesis using kept_watch [OF d userTurn_kept] by (simp add: exit_received_def)
next
  case (Leave p u)
  then show ?thesis using kept_watch [OF d leaveTurn_kept] by (simp add: exit_received_def)
next
  case (Pipe p)
  then show ?thesis using kept_watch [OF d pipeTurn_kept] by (simp add: exit_received_def)
next
  case Event
  then show ?thesis using kept_watch [OF d eventBody_steady] by (simp add: exit_received_def)
next
  case (Command nb)
  then show ?thesis using command_watch [OF d] by simp
next
  case (Outside X)
  then show ?thesis by (simp add: exit_received_def)
qed
section \<open>The main thread\<close>

text \<open>A turn of the loop when nothing is watched any more.\<close>

lemma eventBody_stops:
  assumes "daemon_inv H F ps s" "g_inotifyFd (app s) = -1"
  shows "\<exists>s'. eventBody s = (Break, s')"
proof -
  obtain H' F' where "nptp_inv H' F' ps s" using assms(1) by (rule daemon_inner)
  from nptp_inv_D(1) [OF this] have "-1 \<notin> fds s" by (auto simp: wf_world_def)
  then have "sys_read (-1) EVENT_BUFFER s = (-1, [], s\<lparr>errno := EBADF\<rparr>)" by (simp add: sys_read_def sys_recv_def sys_recvfrom_def)
  with assms(2) show ?thesis by (simp add: eventBody_def)
qed

lemma event_loop_other: "t \<noteq> Event \<Longrightarrow> event_loop (t # ts) s = event_loop ts (make_turn t s)"
  by (cases t) simp_all

lemma event_loop_stopped:
  assumes "daemon_inv H F ps s" "g_inotifyFd (app s) = -1"
  shows "if Event \<in> set ts then \<exists>s'. event_loop ts s = Inr s' \<and> daemon_inv H F ps s' \<and> faults s' = faults s
    else event_loop ts s = Inl (run_turns ts s)"
  using assms
proof (induction ts arbitrary: s)
  case (Cons t ts)
  have d: "daemon_inv H F ps (make_turn t s)" "faults (make_turn t s) = faults s" using make_turn_inv [OF Cons.prems(1)] by simp_all
  show ?case
  proof (cases "t = Event")
    case True
    with eventBody_stops [OF Cons.prems] d show ?thesis by auto
  next
    case False
    from Cons.IH [OF d(1)] turn_watch [OF Cons.prems(1)] Cons.prems(2) d(2) False show ?thesis
      by (auto simp: event_loop_other run_turns_def split: if_splits)
  qed
qed (simp add: run_turns_def)

lemma event_loop_watching:
  assumes "daemon_inv H F ps s" "0 \<le> g_inotifyFd (app s)"
  shows "if exit_noticed ts s then \<exists>s'. event_loop ts s = Inr s' \<and> daemon_inv H F ps s' \<and> faults s' = faults s
    else event_loop ts s = Inl (run_turns ts s)"
  using assms
proof (induction ts arbitrary: s)
  case (Cons t ts)
  have d: "daemon_inv H F ps (make_turn t s)" "faults (make_turn t s) = faults s" using make_turn_inv [OF Cons.prems(1)] by simp_all
  have l: "event_loop (t # ts) s = event_loop ts (make_turn t s)"
  proof (cases "t = Event")
    case True
    obtain H' F' where "nptp_inv H' F' ps s" using Cons.prems(1) by (rule daemon_inner)
    from eventBody_next [OF this] Cons.prems(2) True show ?thesis by (cases "eventBody s") auto
  qed (rule event_loop_other)
  show ?case
  proof (cases "exit_received t s")
    case True
    with turn_watch [OF Cons.prems(1), of t] Cons.prems(2) have stopped: "g_inotifyFd (app (make_turn t s)) = -1" by simp
    have "exit_noticed ts u \<longrightarrow> Event \<in> set ts" for u by (induction ts arbitrary: u) auto
    with event_loop_stopped [OF d(1) stopped, of ts] True d(2) l show ?thesis by (auto simp: run_turns_def split: if_splits)
  next
    case False
    with turn_watch [OF Cons.prems(1), of t] Cons.prems(2) have "0 \<le> g_inotifyFd (app (make_turn t s))" by simp
    from Cons.IH [OF d(1) this] False d(2) l show ?thesis by (simp add: run_turns_def split: if_splits)
  qed
qed (simp add: run_turns_def)

text \<open>
  C17. The program from \<^verbatim>\<open>main\<close> on, in the foreground or as the child in the background (or when \<^verbatim>\<open>fork\<close> has failed),
  under any schedule of turns of the main thread, the other threads and other processes. It never crashes. When
  the start fails it ends with the exit code -1. After a start it goes on through the turns, events
  included, exactly as long as the main thread has made no turn since the thread for the commands took the
  command \<^verbatim>\<open>exit\<close> (option \<^verbatim>\<open>-x\<close> of the tool); with that turn it leaves the loop, tears the service
  down and ends with the exit code 0. In both ends the process has exactly the blocks and descriptors it began with.
\<close>

theorem nptp_main_serves:
  assumes "serv_options opts True = Some background" "(pid, s0) = (if background then sys_fork s else (0, s))" "pid \<le> 0"
    and "fresh_process env s0" "script s0 = replicate (config_size env) Done @ rs"
  shows "\<exists>e s1. serv_init env s0 = (Some e, s1) \<and> (case serv_main env opts ts s of
       Running s' \<Rightarrow> e = 0 \<and> \<not> exit_noticed ts s1 \<and> s' = run_turns ts s1 \<and> faults s' = faults s0
     | Exited code s' \<Rightarrow> (code = 0 \<and> e = 0 \<and> exit_noticed ts s1 \<or> code = -1 \<and> e \<noteq> 0) \<and>
         heap s' = heap s0 \<and> fds s' = fds s0 \<and> faults s' = faults s0
     | Crashed s' \<Rightarrow> False)"
proof -
  obtain e1 s1 where 1: "serv_init env s0 = (e1, s1)" by fastforce
  from started [OF assms(4,5) 1] obtain ps where d: "e1 = Some 0 \<and> 0 \<le> g_inotifyFd (app s1) \<or> e1 = Some (-1)"
    "daemon_inv (heap s0) (fds s0) ps s1" "faults s1 = faults s0" .
  have fork: "(if background then sys_fork s else (0, s)) = (pid, s0)" using assms(2) by simp
  from d(1) show ?thesis
  proof (elim disjE conjE)
    assume e: "e1 = Some 0" "0 \<le> g_inotifyFd (app s1)"
    have m: "serv_main env opts ts s = (case event_loop ts s1 of Inl s \<Rightarrow> Running s | Inr s \<Rightarrow> Exited 0 (serv_uninit s))"
      using assms(1,3) 1 e(1) by (simp add: serv_main_def fork)
    show ?thesis
    proof (cases "exit_noticed ts s1")
      case True
      with event_loop_watching [OF d(2) e(2), of ts] obtain s' where "event_loop ts s1 = Inr s'" "daemon_inv (heap s0) (fds s0) ps s'"
        "faults s' = faults s1" by auto
      with serv_uninit_inv [of "heap s0" "fds s0" ps s'] True m 1 e(1) d(3) show ?thesis by simp
    next
      case False
      with event_loop_watching [OF d(2) e(2), of ts] run_turns_inv [OF d(2), of ts] m 1 e(1) d(3) show ?thesis by simp
    qed
  next
    assume e: "e1 = Some (-1)"
    let ?p = "PRINT (''ERR: fail to initial service'' @ newline) s1"
    have "serv_main env opts ts s = Exited (-1) (serv_uninit ?p)" using assms(1,3) 1 e by (simp add: serv_main_def fork)
    moreover have "daemon_inv (heap s0) (fds s0) ps ?p \<and> faults ?p = faults s1" by (rule daemon_inv_by [OF d(2)]) simp
    ultimately show ?thesis using serv_uninit_inv [of "heap s0" "fds s0" ps ?p] d(3) e 1 by simp
  qed
qed


text \<open>A start in the background; the command is taken, and the loop left at its next turn.\<close>

theorem nptp_main_serves_witness:
  "\<exists>s s2 s3. s = boot nptp_start (Val 0 # sample_replies @ [Data [101, 120, 105, 116] (Sockaddr_un []), Done]) \<and>
     serv_main sample_env [] [Command new_name] s = Running s2 \<and> faults s2 = [] \<and>
     serv_main sample_env [] [Command new_name, Event] s = Exited 0 s3 \<and> heap s3 = {} \<and> fds s3 = {0, 1, 2}"
proof -
  let ?rest = "[Data [101, 120, 105, 116] (Sockaddr_un []), Done]"
  let ?start = "boot nptp_start (sample_replies @ ?rest)" and ?s = "boot nptp_start (Val 0 # sample_replies @ ?rest)"
  obtain s1 h c k where s1: "serv_init sample_env ?start = (Some 0, s1)" "script s1 = ?rest" "fds s1 = {8,7,6,5,0,1,2}" "cancels s1 = {}"
    "g_ipcDgramhandle (app s1) = Some (4, k)" "ipc_dgram_ctx.running k = 1" "ipc_dgram_ctx.fd k = 8"
    by (rule sample_service_run [of ?rest]) metis
  have "char_of (101 :: nat) = CHR ''e''" "char_of (120 :: nat) = CHR ''x''" "char_of (105 :: nat) = CHR ''i''"
    "char_of (116 :: nat) = CHR ''t''" by code_simp+
  then have "exit_received (Command new_name) s1"
    using s1 by (simp add: exit_received_def pthread_testcancel_def command_text_def c_string_def COMM_BUF_SIZE_def)
  then have n: "\<not> exit_noticed [Command new_name] s1" "exit_noticed [Command new_name, Event] s1" by simp_all
  have o: "serv_options [] True = Some True" by simp
  have f: "(0, ?start) = (if True then sys_fork ?s else (0, ?s))" by (simp add: sys_fork_def pop_def boot_def)
  note m = nptp_main_serves [OF o f order_refl sample_fresh sample_script_rest]
  obtain s2 where "serv_main sample_env [] [Command new_name] ?s = Running s2" "faults s2 = []"
    using m [of "[Command new_name]"] s1(1) n(1) by (auto simp: boot_def split: process.splits)
  moreover obtain s3 where "serv_main sample_env [] [Command new_name, Event] ?s = Exited 0 s3" "heap s3 = {}" "fds s3 = {0, 1, 2}"
    using m [of "[Command new_name, Event]"] s1(1) n(2) by (auto simp: boot_def split: process.splits)
  ultimately show ?thesis by blast
qed

end
