(* ===== verification/Nptp_Ctrl.thy ===== *)
theory Nptp_Ctrl
  imports Nptp_Serv
begin

text \<open>
  \<^verbatim>\<open>application/nptp_ctrl.c\<close>: the tool that sends a command to the service. It sends with
  \<^verbatim>\<open>comm_ipcDgramSendTo\<close>, which neither the library nor its header has; the function is a parameter, of which nothing is assumed.
\<close>

type_synonym send_fun = "ipc_dgram_ctx handle \<Rightarrow> string \<Rightarrow> u8 list option \<Rightarrow> u16 \<Rightarrow> log_state world \<Rightarrow> int \<times> log_state world"

definition IPC_SOUR_ADDR :: string where "IPC_SOUR_ADDR = ''./nptp_ctrl_dgram.sock''"
definition IPC_DEST_ADDR :: string where "IPC_DEST_ADDR = ''./nptp_serv_dgram.sock''"

definition out :: "string \<Rightarrow> log_state world \<Rightarrow> log_state world" where
  "out str s = s\<lparr>app := printf (str @ newline) (app s)\<rparr>"

definition ctrl_help :: "log_state world \<Rightarrow> log_state world" where
  "ctrl_help s = fold out
     [''Usage: nptp_ctrl [OPTION...]'', '''',
      ''  -[0..7]   Set log mask.'',
      ''  -d        Turn on/off dump flag.'',
      ''  -t        List connection table.'',
      ''  -x        Terminate the server.'',
      ''  -h        Show the help message.'', ''''] s"

text \<open>A string with its NUL, as bytes.\<close>

definition string_bytes :: "string \<Rightarrow> u8 list" where
  "string_bytes str = map (\<lambda>c. word_of_nat (of_char c)) (str @ [CHR 0x00])"

definition ctrl_option :: "send_fun \<Rightarrow> ipc_dgram_ctx handle \<Rightarrow> char \<Rightarrow> log_state world \<Rightarrow> log_state world" where
  "ctrl_option sendTo handle ch s =
     (if ch \<in> set ''01234567'' then snd (sendTo handle IPC_DEST_ADDR (Some (string_bytes [ch])) 2 s)
      else if ch = CHR ''d'' then snd (sendTo handle IPC_DEST_ADDR (Some (string_bytes ''dump'')) 5 s)
      else if ch = CHR ''t'' then snd (sendTo handle IPC_DEST_ADDR (Some (string_bytes ''list'')) 5 s)
      else if ch = CHR ''x'' then snd (sendTo handle IPC_DEST_ADDR (Some (string_bytes ''exit'')) 5 s)
      else snd (sendTo handle IPC_DEST_ADDR (Some (string_bytes ''help'')) 5 (ctrl_help s)))"

text \<open>\<open>opts\<close> are the options that \<^verbatim>\<open>getopt\<close> finds.\<close>

definition ctrl_main :: "send_fun \<Rightarrow> nat \<Rightarrow> string \<Rightarrow> log_state world \<Rightarrow> int \<times> log_state world" where
  "ctrl_main sendTo argc opts s =
     (if argc \<noteq> 2 then (-1, ctrl_help s)
      else
        let s = s\<lparr>app := comm_setLogMask LOG_MASK_NONE (app s)\<rparr>;
            (handle, s) = ipcDgramInit IPC_SOUR_ADDR NULL NULL s in
        if handle = None then (-1, out '''' (out ''[nptp_ctrl] initial IPC failed'' s))
        else (0, ipcDgramUninit handle (fold (ctrl_option sendTo handle) opts s)))"

section \<open>Properties\<close>

lemma command_text_string:
  assumes "CHR 0x00 \<notin> set str"
  shows "command_text (take (length str + k) (string_bytes str)) = str"
proof -
  have c: "char_of (unat (word_of_nat (of_char c) :: u8)) = c" for c :: char
    by (simp add: unsigned_of_nat take_bit_eq_mod of_char_mod_256)
  show ?thesis
  proof (cases k)
    case 0
    with assms show ?thesis by (simp add: command_text_def string_bytes_def c_string_def comp_def c) (auto simp: takeWhile_eq_all_conv)
  next
    case (Suc n)
    have z: "char_of (0 :: nat) = CHR 0x00" by (simp add: char_of_def)
    from Suc assms show ?thesis
      by (simp add: command_text_def string_bytes_def comp_def c z c_string_append)
  qed
qed

text \<open>What the service does for an option of the tool.\<close>

definition command_effect :: "char \<Rightarrow> nptp world \<Rightarrow> nptp world" where
  "command_effect ch s =
     (if ch \<in> set ''01234567'' then set_log (comm_setLogMask (word_of_nat (of_char ch - 48))) s
      else if ch = CHR ''d'' then set_log (\<lambda>l. comm_setDumpFlag (if g_dumpFlag l = 1 then 0 else 1) l) s
      else if ch = CHR ''t'' then serv_list s
      else if ch = CHR ''x'' then event_uninit s
      else PRINT (''service ready'' @ newline) s)"

lemma dump_flag_xor: "(f :: u32) XOR 1 = 0 \<longleftrightarrow> f = 1"
  by (metis bit.xor_self bit.xor_left_self xor.right_neutral)

lemma setDumpFlag_on: "f \<noteq> 0 \<Longrightarrow> comm_setDumpFlag f l = comm_setDumpFlag 1 l"
  by (simp add: comm_setDumpFlag_def)

lemma dump_toggle:
  "set_log (comm_setDumpFlag (comm_getDumpFlag (logs (app s)) XOR 1)) s =
   set_log (\<lambda>l. comm_setDumpFlag (if g_dumpFlag l = 1 then 0 else 1) l) s"
  using dump_flag_xor [of "g_dumpFlag (logs (app s))"] setDumpFlag_on [of "g_dumpFlag (logs (app s)) XOR 1"]
  by (simp add: set_log_def set_app_def comm_getDumpFlag_def)

text \<open>The commands, with the digits as numbers.\<close>

lemma command_digit:
  assumes "ch \<in> set ''01234567''" "command_text (take (unat n) bs) = [ch]"
  shows "ipcRecvFunc a bs n path s = command_effect ch s"
  using assms
  by (auto simp: ipcRecvFunc_def command_effect_def LOG_MASK_NONE_def LOG_MASK_1_def LOG_MASK_2_def LOG_MASK_3_def
      LOG_MASK_ALL_def)

text \<open>
  C19. The tool and the service understand each other. For each option the tool calls
  \<^verbatim>\<open>comm_ipcDgramSendTo\<close> once, whatever that function does, with the name of the service's socket, a command and the
  length of it, and only for other options than \<^verbatim>\<open>0\<close> to \<^verbatim>\<open>7\<close>, \<^verbatim>\<open>d\<close>, \<^verbatim>\<open>t\<close> and \<^verbatim>\<open>x\<close> shows its usage first. The
  command fits the service's buffer, and the service, when it is handed these bytes, does what the option
  stands for: \<^verbatim>\<open>0\<close> to \<^verbatim>\<open>7\<close> set the log mask to that number, \<^verbatim>\<open>d\<close> turns the dump over, \<^verbatim>\<open>t\<close> lists the mappings,
  \<^verbatim>\<open>x\<close> stops the watching of pipes, anything else asks for a sign of life. Whether a command
  arrives is not part of the claim: the function is not in the library.
\<close>

theorem nptp_control_commands:
  "\<exists>bs. (\<forall>sendTo handle w. ctrl_option sendTo handle ch w =
      snd (sendTo handle IPC_DGRAM_FILE_PATH (Some bs) (word_of_nat (length bs))
        (if ch \<in> set ''01234567dtx'' then w else ctrl_help w))) \<and>
    bs \<noteq> [] \<and> length bs \<le> COMM_BUF_SIZE \<and>
    (\<forall>a path s. ipcRecvFunc a bs (word_of_nat (length bs)) path s = command_effect ch s)"
proof -
  have d: "IPC_DEST_ADDR = IPC_DGRAM_FILE_PATH" by (simp add: IPC_DEST_ADDR_def IPC_DGRAM_FILE_PATH_def)
  have len: "length (string_bytes str) = Suc (length str)" for str by (simp add: string_bytes_def)
  have cmdt: "command_text (take n (string_bytes str)) = str" if "CHR 0x00 \<notin> set str" "n = Suc (length str)" for str n
    using command_text_string [OF that(1), of 1] that(2) by simp
  have ok: ?thesis if "\<And>sendTo handle w. ctrl_option sendTo handle ch w = snd (sendTo handle IPC_DGRAM_FILE_PATH
        (Some (string_bytes str)) (word_of_nat (Suc (length str))) (if ch \<in> set ''01234567dtx'' then w else ctrl_help w))"
      "length str < 8" "\<And>a path s. ipcRecvFunc a (string_bytes str) (word_of_nat (Suc (length str))) path s = command_effect ch s" for str
    using that len [of str] by (intro exI [of _ "string_bytes str"]) (auto simp: COMM_BUF_SIZE_def string_bytes_def)
  consider "ch \<in> set ''01234567''" | "ch = CHR ''d''" | "ch = CHR ''t''" | "ch = CHR ''x''" | "ch \<notin> set ''01234567dtx''" by auto
  then show ?thesis
  proof cases
    case 1
    then have "CHR 0x00 \<notin> set [ch]" by auto
    from cmdt [OF this, of "unat (2 :: u16)"] have "command_text (take (unat (2 :: u16)) (string_bytes [ch])) = [ch]" by simp
    from command_digit [OF 1 this] 1 show ?thesis by (intro ok [of "[ch]"]) (auto simp: ctrl_option_def d)
  next
    case 2
    with cmdt [of "''dump''" 5] dump_toggle show ?thesis
      by (intro ok [of "''dump''"]) (simp_all add: ctrl_option_def d command_effect_def ipcRecvFunc_def)
  next
    case 3
    with cmdt [of "''list''" 5] show ?thesis
      by (intro ok [of "''list''"]) (simp_all add: ctrl_option_def d command_effect_def ipcRecvFunc_def)
  next
    case 4
    with cmdt [of "''exit''" 5] show ?thesis
      by (intro ok [of "''exit''"]) (simp_all add: ctrl_option_def d command_effect_def ipcRecvFunc_def)
  next
    case 5
    with cmdt [of "''help''" 5] show ?thesis
      by (intro ok [of "''help''"]) (simp_all add: ctrl_option_def d command_effect_def ipcRecvFunc_def)
  qed
qed

end
