(* ===== verification/Nptp_Watch.thy ===== *)
theory Nptp_Watch
  imports Nptp_Ctrl Nptp_Turns
begin

text \<open>
  How the service answers the events of the watched directories: the walk over the bytes the kernel
  delivers handles the events in order, and an event is matched by the name of the pipe alone.
\<close>

section \<open>Events as bytes\<close>

text \<open>
  An event: the twelve bytes of the watch, the mask and the cookie; the name; how many NULs follow it.
\<close>

type_synonym event_record = "u8 list \<times> string \<times> nat"

definition four_bytes :: "nat \<Rightarrow> u8 list" where
  "four_bytes n = map (\<lambda>i. word_of_nat (n div 256 ^ i)) [0, 1, 2, 3]"

definition event_bytes :: "event_record \<Rightarrow> u8 list" where
  "event_bytes = (\<lambda>(h, nam, k). h @ four_bytes (length nam + k) @ map (\<lambda>c. word_of_nat (of_char c)) nam @ replicate k 0)"

definition event_record_ok :: "event_record \<Rightarrow> bool" where
  "event_record_ok = (\<lambda>(h, nam, k). length h = 12 \<and> CHR 0x00 \<notin> set nam \<and> 0 < k \<and> length nam + k < 2 ^ 32)"

lemma length_four_bytes: "length (four_bytes n) = 4"
  by (simp add: four_bytes_def)

lemma four_bytes_value:
  assumes "n < 2 ^ 32"
  shows "unat (four_bytes n ! 0) + 256 * unat (four_bytes n ! 1) + 256 ^ 2 * unat (four_bytes n ! 2) + 256 ^ 3 * unat (four_bytes n ! 3) = n"
proof -
  have u: "unat (word_of_nat x :: u8) = x mod 256" for x by (simp add: unat_of_nat)
  have 1: "n = n mod 256 + 256 * (n div 256)" by simp
  have 2: "n div 256 = n div 256 mod 256 + 256 * (n div 65536)" using div_mult2_eq [of n 256 256] by simp
  have 3: "n div 65536 = n div 65536 mod 256 + 256 * (n div 16777216)" using div_mult2_eq [of n 65536 256] by simp
  have 4: "n div 16777216 mod 256 = n div 16777216" using assms by simp
  have "n mod 256 + 256 * (n div 256 mod 256) + 65536 * (n div 65536 mod 256) + 16777216 * (n div 16777216 mod 256) = n"
    unfolding 4 using 1 2 3 by linarith
  from this this [unfolded 4] show ?thesis by (simp add: four_bytes_def u)
qed

lemma length_event_bytes: "event_record_ok e \<Longrightarrow> 16 \<le> length (event_bytes e)"
  by (auto simp: event_record_ok_def event_bytes_def four_bytes_def)

text \<open>What the code reads of an event that stands at position \<open>j\<close>.\<close>

lemma event_read:
  assumes e: "event_record_ok (h, nam, k)" and b: "drop j buf = event_bytes (h, nam, k) @ rest"
  shows "event_len buf j = length nam + k \<and> event_name buf j = nam \<and> length (event_bytes (h, nam, k)) = EVENT_SIZE + event_len buf j"
proof -
  have l: "length h = 12" "CHR 0x00 \<notin> set nam" "0 < k" "length nam + k < 2 ^ 32" using e by (simp_all add: event_record_ok_def)
  have "16 \<le> length (drop j buf)" unfolding b using length_event_bytes [OF e] by simp
  then have "j \<le> length buf" by simp
  then have at: "buf ! (j + i) = (event_bytes (h, nam, k) @ rest) ! i" for i using b nth_drop [of j buf i] by simp
  have f: "(event_bytes (h, nam, k) @ rest) ! (12 + i) = four_bytes (length nam + k) ! i" if "i < 4" for i
    using that l(1) by (simp add: event_bytes_def nth_append length_four_bytes)
  have "event_len buf j = length nam + k"
    using four_bytes_value [OF l(4)] at [of 12] at [of 13] at [of 14] at [of 15] f [of 0] f [of 1] f [of 2] f [of 3]
    by (simp add: event_len_def)
  moreover have "drop (j + EVENT_SIZE) buf = map (\<lambda>c. word_of_nat (of_char c)) nam @ replicate k 0 @ rest"
  proof -
    have "drop (j + EVENT_SIZE) buf = drop EVENT_SIZE (drop j buf)" by (simp add: add.commute)
    also have "\<dots> = map (\<lambda>c. word_of_nat (of_char c)) nam @ replicate k 0 @ rest"
      using l(1) unfolding b by (simp add: event_bytes_def EVENT_SIZE_def four_bytes_def)
    finally show ?thesis .
  qed
  then have "event_name buf j = nam"
  proof -
    have c: "char_of (unat (word_of_nat (of_char c) :: u8)) = c" for c :: char
      by (simp add: unsigned_of_nat take_bit_eq_mod of_char_mod_256)
    have z: "char_of (0 :: nat) = CHR 0x00" by (simp add: char_of_def)
    obtain i where "k = Suc i" using l(3) by (cases k) auto
    with \<open>drop (j + EVENT_SIZE) buf = _\<close> l(2) show ?thesis by (simp add: event_name_def comp_def c z c_string_append)
  qed
  ultimately show ?thesis using l(1) by (simp add: event_bytes_def four_bytes_def EVENT_SIZE_def)
qed

lemma event_walk_records:
  "\<forall>e\<in>set evs. event_record_ok e \<Longrightarrow> drop j buf = concat (map event_bytes evs) @ rest \<Longrightarrow>
   len = j + length (concat (map event_bytes evs)) \<Longrightarrow>
   event_walk buf len j s = fold (\<lambda>(h, nam, k). event_match nam) evs s"
proof (induction evs arbitrary: j s)
  case Nil
  then have "len = j" by simp
  then show ?case by (simp add: event_walk.simps [of buf j j])
next
  case (Cons e evs)
  obtain h nam k where e: "e = (h, nam, k)" by (metis prod_cases3)
  have b: "drop j buf = event_bytes (h, nam, k) @ (concat (map event_bytes evs) @ rest)" using Cons.prems(2) by (simp add: e)
  have ok: "event_record_ok (h, nam, k)" using Cons.prems(1) by (simp add: e)
  note r = event_read [OF ok b]
  let ?j = "j + (EVENT_SIZE + event_len buf j)"
  have "length (concat (map event_bytes (e # evs))) = length (event_bytes (h, nam, k)) + length (concat (map event_bytes evs))"
    by (simp add: e)
  then have "j < len" using Cons.prems(3) length_event_bytes [OF ok] by linarith
  then have "event_walk buf len j s = event_walk buf len ?j (event_match nam s)"
    using r by (simp add: event_walk.simps [of buf len j])
  moreover have "drop ?j buf = concat (map event_bytes evs) @ rest"
  proof -
    have "drop ?j buf = drop (EVENT_SIZE + event_len buf j) (drop j buf)" by (simp add: add.commute)
    with b r show ?thesis by simp
  qed
  moreover have "len = ?j + length (concat (map event_bytes evs))" using Cons.prems(3) r by (simp add: e)
  ultimately show ?case using Cons.IH [of ?j "event_match nam s"] Cons.prems(1) by (simp add: e)
qed

text \<open>
  C15. The walk over the events. A read that delivers a sequence of events has the same effect as handling
  the events one after the other, each exactly once, in order, with its own name; the numbers of the
  watches, the masks and the cookies do not matter. The walk over the bytes ends at the last event.
\<close>

theorem nptp_events_in_order:
  assumes "\<forall>e\<in>set evs. event_record_ok e" "evs \<noteq> []" "length (concat (map event_bytes evs)) \<le> EVENT_BUFFER"
    "script s = Data (concat (map event_bytes evs)) a # rs" "g_inotifyFd (app s) \<in> fds s"
  shows "eventBody s = (Next, fold (\<lambda>(h, nam, k). event_match nam) evs (s\<lparr>script := rs\<rparr>))"
proof -
  obtain b where b: "b = concat (map event_bytes evs)" by simp
  obtain e es where "evs = e # es" using assms(2) by (cases evs) auto
  then have ne: "b \<noteq> []" using length_event_bytes [of e] assms(1) by (auto simp: b)
  have "sys_read (g_inotifyFd (app s)) EVENT_BUFFER s = (int (length b), b, s\<lparr>script := rs\<rparr>)"
    using assms(3-5) by (simp add: b [symmetric] sys_read_def sys_recv_def sys_recvfrom_def pop_def)
  moreover have "event_walk (fill (replicate EVENT_BUFFER 0) b) (length b) 0 t = fold (\<lambda>(h, nam, k). event_match nam) evs t" for t
    by (rule event_walk_records [OF assms(1), where rest = "drop (length b) (replicate EVENT_BUFFER 0)"]) (simp_all add: fill_def b)
  ultimately show ?thesis using ne by (simp add: eventBody_def)
qed

theorem nptp_events_in_order_witness:
  "eventBody ((boot (nptp_start\<lparr>g_inotifyFd := 7\<rparr>) [Data (concat (map event_bytes
      [(replicate 12 1, ''a'', 15), (replicate 12 2, ''bc'', 2)])) (any_addr IPv4 0)])\<lparr>fds := {0, 7}\<rparr>) =
    (Next, event_match ''bc'' (event_match ''a'' ((boot (nptp_start\<lparr>g_inotifyFd := 7\<rparr>) [])\<lparr>fds := {0, 7}\<rparr>)))"
  using nptp_events_in_order [of "[(replicate 12 1, ''a'', 15), (replicate 12 2, ''bc'', 2)]"
      "(boot (nptp_start\<lparr>g_inotifyFd := 7\<rparr>) [Data (concat (map event_bytes
        [(replicate 12 1, ''a'', 15), (replicate 12 2, ''bc'', 2)])) (any_addr IPv4 0)])\<lparr>fds := {0, 7}\<rparr>" "any_addr IPv4 0" "[]"]
  by (simp add: event_record_ok_def event_bytes_def four_bytes_def EVENT_BUFFER_def EVENT_SIZE_def boot_def)

section \<open>Which mapping an event reaches\<close>

text \<open>Connecting one mapping leaves the others alone, whatever their state.\<close>

lemma app_socket: "sys_socket f ty s = (n, s') \<Longrightarrow> app s' = app s"
  by (auto simp: sys_socket_def new_fd_def pop_def Let_def split: list.splits reply.splits if_splits prod.splits)

lemma app_bind: "sys_bind n a s = (r, s') \<Longrightarrow> app s' = app s"
  by (auto simp: sys_bind_def status_def pop_def Let_def split: list.splits reply.splits if_splits prod.splits sockaddr.splits)

lemma app_connect: "sys_connect n a s = (r, s') \<Longrightarrow> app s' = app s"
  by (auto simp: sys_connect_def status_def pop_def Let_def split: list.splits reply.splits if_splits prod.splits)

lemma app_strcpy [app_simps]: "app (snd (c_strcpy n x s)) = app s"
  by (simp add: c_strcpy_def)

lemma app_strcpy_eq: "c_strcpy n x s = (y, s') \<Longrightarrow> app s' = app s"
  using app_strcpy [of n x s] by simp

lemma app_unixOpen: "unixOpen ty x s = (n, s') \<Longrightarrow> app s' = app s"
  by (auto simp: unixOpen_def Let_def app_simps dest!: app_socket app_bind app_strcpy_eq split: prod.splits if_splits)

lemma app_clientInit: "comm_ipcStreamClientInit x f g a s = (h, s') \<Longrightarrow> app s' = app s"
  by (auto simp: comm_ipcStreamClientInit_def streamClientInit_def streamInitClient_def streamClientNewContext_def Let_def app_simps
      dest!: app_malloc app_unixOpen split: prod.splits if_splits)

lemma app_clientConnect: "comm_ipcStreamClientConnect h x s = (e, h', s') \<Longrightarrow> app s' = app s"
  by (auto simp: comm_ipcStreamClientConnect_def streamClientConnect_def Let_def app_simps
      dest!: app_connect app_create split: prod.splits if_splits option.splits)

lemma app_readChars: "read_chars b s = (x, s') \<Longrightarrow> app s' = app s"
  by (auto simp: read_chars_def split: if_splits)

lemma on_mapping_other [simp]: "q \<noteq> p \<Longrightarrow> mappings (app (on_mapping p f s)) q = mappings (app s) q"
  by (simp add: on_mapping_def split: option.split)

lemma app_clientUninit [app_simps]: "app (comm_ipcStreamClientUninit h s) = app s"
  by (simp add: comm_ipcStreamClientUninit_def app_simps)

lemma proxy_connectIpc_other:
  assumes "q \<noteq> p"
  shows "mappings (app (snd (proxy_connectIpc p s))) q = mappings (app s) q"
proof (cases "mappings (app s) p")
  case None
  then show ?thesis by (simp add: proxy_connectIpc_def)
next
  case (Some m)
  let ?s1 = "if ipcStreamHandle m \<noteq> None then comm_ipcStreamClientUninit (ipcStreamHandle m) s else s"
  obtain x s2 where 2: "c_strcpy 256 (IPC_STREAM_FILE_PATH @ fmt_d (index m)) ?s1 = (x, s2)" by fastforce
  obtain h s3 where 3: "comm_ipcStreamClientInit x p_ipcStreamRecvFunc p_ipcStreamExitFunc p s2 = (h, s3)" by fastforce
  have a3: "app s3 = app s" using app_clientInit [OF 3] app_strcpy_eq [OF 2] by (simp add: app_simps split: if_splits)
  let ?t = "on_mapping p (\<lambda>m. m\<lparr>ipcStreamHandle := h\<rparr>) s3"
  obtain y s4 where 4: "read_chars (pipePath m) ?t = (y, s4)" by fastforce
  obtain z s5 where 5: "read_chars (pipeName m) s4 = (z, s5)" by fastforce
  obtain v s6 where 6: "c_strcpy 256 (y @ ''/'' @ z) s5 = (v, s6)" by fastforce
  obtain e h' s7 where 7: "comm_ipcStreamClientConnect h v s6 = (e, h', s7)" by (metis prod_cases3)
  have "app s6 = app ?t" "app s7 = app s6"
    using app_readChars [OF 4] app_readChars [OF 5] app_strcpy_eq [OF 6] app_clientConnect [OF 7] by simp_all
  then have "mappings (app s6) q = mappings (app s) q" "mappings (app s7) q = mappings (app s) q" using a3 assms by simp_all
  then show ?thesis using a3 assms unfolding proxy_connectIpc_def Some option.case Let_def 2 prod.case 3 4 5 6 7 by simp
qed

text \<open>
  C16. Which mapping an event reaches. The program looks for the first mapping in the table that is not
  connected and has the name of the event, and connects that one. It does not look at the watch
  the event belongs to: when two mappings wait for pipes of the same name in different directories,
  the creation of the second's pipe makes the program try the first, and leaves the second as it is,
  unconnected.
\<close>

theorem nptp_event_by_name_only:
  assumes "g_pMapping (app s) = xs @ p # ys" "p \<noteq> NULL" "mappings (app s) p = Some m" "pipeConnect m = 0"
    "c_string (pipeName m) = nam"
    "\<forall>q\<in>set xs. \<forall>m'. mappings (app s) q = Some m' \<longrightarrow> pipeConnect m' \<noteq> 0 \<or> c_string (pipeName m') \<noteq> nam"
    and e: "event_record_ok (h, nam, k)" "length (event_bytes (h, nam, k)) \<le> EVENT_BUFFER"
    and sc: "script s = Data (event_bytes (h, nam, k)) a # rs" "g_inotifyFd (app s) \<in> fds s"
  shows "snd (eventBody s) = snd (proxy_connectIpc p (s\<lparr>script := rs\<rparr>)) \<and>
    (\<forall>q. q \<noteq> p \<longrightarrow> mappings (app (snd (eventBody s))) q = mappings (app s) q)"
proof -
  let ?s = "s\<lparr>script := rs\<rparr>"
  let ?P = "\<lambda>p. p \<noteq> NULL \<and> (case mappings (app s) p of None \<Rightarrow> False | Some m \<Rightarrow> pipeConnect m = 0 \<and> c_string (pipeName m) = nam)"
  have "find ?P xs = None" using assms(6) by (auto simp: find_None_iff split: option.splits)
  moreover have "find ?P (xs @ zs) = find ?P zs" if "find ?P xs = None" for zs using that by (induction xs) (auto split: if_splits)
  ultimately have "find ?P (g_pMapping (app s)) = Some p" using assms(1-5) by simp
  then have "event_match nam ?s = snd (proxy_connectIpc p ?s)" by (simp add: event_match_def)
  moreover have "eventBody s = (Next, event_match nam ?s)"
  proof -
    have "sys_read (g_inotifyFd (app s)) EVENT_BUFFER s = (int (length (event_bytes (h, nam, k))), event_bytes (h, nam, k), ?s)"
      using e(2) sc by (simp add: sys_read_def sys_recv_def sys_recvfrom_def pop_def)
    moreover have "event_walk (fill (replicate EVENT_BUFFER 0) (event_bytes (h, nam, k))) (length (event_bytes (h, nam, k))) 0 ?s =
        event_match nam ?s"
      using event_walk_records [of "[(h, nam, k)]" 0] e(1) by (simp add: fill_def)
    moreover have "0 < length (event_bytes (h, nam, k))" using length_event_bytes [OF e(1)] by linarith
    ultimately show ?thesis by (simp add: eventBody_def)
  qed
  ultimately show ?thesis using proxy_connectIpc_other [of _ p ?s] by simp
qed

text \<open>Two mappings with pipes of the same name; the event is of the second's directory.\<close>

definition sample_waiting :: "nptp" where
  "sample_waiting = nptp_start\<lparr>g_pMapping := 1 # 2 # replicate 62 NULL, g_mappingNum := 2, g_inotifyFd := 7,
     mappings := [1 \<mapsto> zero_mapping\<lparr>pipePath := ''/a'' @ replicate 158 (CHR 0x00), pipeName := ''p'' @ replicate 79 (CHR 0x00), wd := 1\<rparr>,
       2 \<mapsto> zero_mapping\<lparr>pipePath := ''/b'' @ replicate 158 (CHR 0x00), pipeName := ''p'' @ replicate 79 (CHR 0x00), wd := 2\<rparr>]\<rparr>"

theorem nptp_event_by_name_only_witness:
  "\<exists>s. app s = sample_waiting \<and> script s = [Data (event_bytes ([2, 0, 0, 0, 0, 1, 0, 0, 0, 0, 0, 0], ''p'', 15)) (any_addr IPv4 0)] \<and>
     snd (eventBody s) = snd (proxy_connectIpc 1 (s\<lparr>script := []\<rparr>)) \<and>
     mappings (app (snd (eventBody s))) 2 = mappings sample_waiting 2"
proof -
  let ?e = "([2, 0, 0, 0, 0, 1, 0, 0, 0, 0, 0, 0], ''p'', 15)"
  let ?s = "(boot sample_waiting [Data (event_bytes ?e) (any_addr IPv4 0)])\<lparr>fds := {0, 7}\<rparr>"
  have c: "c_string (CHR ''p'' # replicate 79 (CHR 0x00)) = ''p''" using c_string_pad [of "''p''" 79] by simp
  let ?m = "zero_mapping\<lparr>pipePath := ''/a'' @ replicate 158 (CHR 0x00), pipeName := ''p'' @ replicate 79 (CHR 0x00), wd := 1\<rparr>"
  have a: "app ?s = sample_waiting" "script ?s = [Data (event_bytes ?e) (any_addr IPv4 0)]" "g_inotifyFd (app ?s) \<in> fds ?s"
    by (simp_all add: boot_def sample_waiting_def)
  have "snd (eventBody ?s) = snd (proxy_connectIpc 1 (?s\<lparr>script := []\<rparr>)) \<and>
      (\<forall>q. q \<noteq> 1 \<longrightarrow> mappings (app (snd (eventBody ?s))) q = mappings (app ?s) q)"
  proof (rule nptp_event_by_name_only [where xs = "[]" and ys = "2 # replicate 62 NULL" and m = ?m])
    show "g_pMapping (app ?s) = [] @ 1 # 2 # replicate 62 NULL" "mappings (app ?s) 1 = Some ?m"
      unfolding a by (simp_all add: sample_waiting_def)
    show "event_record_ok ?e" "length (event_bytes ?e) \<le> EVENT_BUFFER"
      by (simp_all add: event_record_ok_def event_bytes_def four_bytes_def EVENT_BUFFER_def EVENT_SIZE_def)
  qed (use a c in \<open>simp_all add: zero_mapping_def\<close>)
  then have r: "snd (eventBody ?s) = snd (proxy_connectIpc 1 (?s\<lparr>script := []\<rparr>))"
    "2 \<noteq> (1 :: addr) \<longrightarrow> mappings (app (snd (eventBody ?s))) 2 = mappings (app ?s) 2" by blast+
  have "2 \<noteq> (1 :: addr)" by simp
  with a r show ?thesis by metis
qed

end
