(* ===== verification/Nptp_Pipe.thy ===== *)
theory Nptp_Pipe
  imports Nptp_Service Nptp_Watch
begin

text \<open>
  The connection of a mapping to its pipe as a state machine: what the flag \<open>pipeConnect\<close> says and
  whether the client's thread is running. Every turn of the service is a step of the machine, for
  every mapping; between turns the flag tells the truth.
\<close>

section \<open>The state of a pipe\<close>

definition receiving :: "stream_client_ctx handle \<Rightarrow> bool" where
  "receiving h \<longleftrightarrow> (case h of None \<Rightarrow> False | Some (q, c) \<Rightarrow> stream_client_ctx.running c \<noteq> 0)"

text \<open>
  \<open>Waiting\<close> and \<open>Connected\<close> are the states the program means to have. In \<open>Linking\<close> the thread runs
  and the flag is not set yet, in \<open>Stuck\<close> the flag is set and there is no thread.
\<close>

datatype pipe_state = Waiting | Linking | Connected | Stuck

definition pipe_state :: "tMapping \<Rightarrow> pipe_state" where
  "pipe_state m =
     (if pipeConnect m = 0 then if receiving (ipcStreamHandle m) then Linking else Waiting
      else if receiving (ipcStreamHandle m) then Connected else Stuck)"

definition pipes :: "nptp \<Rightarrow> addr \<Rightarrow> pipe_state option" where
  "pipes g p = map_option pipe_state (mappings g p)"

text \<open>The steps a turn may make, for the pipe of mapping \<open>p\<close>.\<close>

fun pipe_moves :: "turn \<Rightarrow> addr \<Rightarrow> pipe_state \<Rightarrow> pipe_state set" where
  "pipe_moves Event p Waiting = {Waiting, Connected}"
| "pipe_moves Event p Linking = {Linking, Waiting, Connected}"
| "pipe_moves (Pipe q) p Connected = (if q = p then {Connected, Waiting} else {Connected})"
| "pipe_moves (Pipe q) p Linking = (if q = p then {Linking, Waiting} else {Linking})"
| "pipe_moves t p x = {x}"

lemma pipe_moves_refl [simp]: "x \<in> pipe_moves t p x"
  by (cases t; cases x) simp_all

section \<open>Turns that leave the pipes alone\<close>

lemma receiving_Some [simp]: "receiving (Some (q, c)) \<longleftrightarrow> stream_client_ctx.running c \<noteq> 0" "\<not> receiving None"
  by (simp_all add: receiving_def)

lemma pipes_on_mapping:
  assumes "\<And>m. mappings (app s) p = Some m \<Longrightarrow> pipe_state (f m) = pipe_state m"
  shows "pipes (app (on_mapping p f s)) = pipes (app s)"
  using assms by (auto simp: pipes_def on_mapping_def fun_eq_iff split: option.split)

lemma pipe_state_update [simp]:
  "pipe_state (m\<lparr>tcpServerHandle := x0\<rparr>) = pipe_state m" "pipe_state (m\<lparr>tcpUsers := x1\<rparr>) = pipe_state m"
  "pipe_state (m\<lparr>tcpConnect := x2\<rparr>) = pipe_state m" "pipe_state (m\<lparr>pTcpUser := x3\<rparr>) = pipe_state m"
  "pipe_state (m\<lparr>wd := x4\<rparr>) = pipe_state m"
  by (simp_all add: pipe_state_def)

lemma pipes_log [simp]: "pipes (app (set_log f s)) = pipes (app s)" "pipes (app (PRINT x s)) = pipes (app s)"
  by (simp_all add: pipes_def fun_eq_iff set_log_def)

text \<open>The callbacks of the TCP side.\<close>

lemma app_send: "app (snd (streamClientSend h d n s)) = app s" "app (snd (streamServerSend u us d n s)) = app s"
proof -
  have "app (snd (sys_sendto m bs a s)) = app s" for m bs a
    by (auto simp: sys_sendto_def pop_def emit_def Let_def split: list.split reply.split)
  then show "app (snd (streamClientSend h d n s)) = app s" "app (snd (streamServerSend u us d n s)) = app s"
    by (simp_all add: streamClientSend_def streamServerSend_def sys_send_def split: option.split)
qed

lemma pipes_tcp_callbacks [simp]:
  "pipes (app (invoke nptp_app (AcptCb f a u) s)) = pipes (app s)"
  "pipes (app (invoke nptp_app (UserExitCb f a u) s)) = pipes (app s)"
  "pipes (app (invoke nptp_app (UserRecvCb f a u bs n) s)) = pipes (app s)"
  "pipes (app (invoke nptp_app (RecvCb f a bs n) s)) = pipes (app s)"
  by (auto simp: invoke_def tcpIpv4AcptFunc_def tcpIpv4ExitFunc_def tcpIpv4RecvFunc_def ipcStreamRecvFunc_def pipes_on_mapping
      comm_ipcStreamClientSend_def comm_tcpIpv4ServerSend_def app_send split: option.split)

lemma pipes_on_server:
  assumes "\<And>pc c us s'. pipes (app (snd (snd (f pc c us s)))) = pipes (app s)"
  shows "pipes (app (on_server p f s)) = pipes (app s)"
  using assms by (auto simp: on_server_def pipes_on_mapping split: option.split prod.split) (metis snd_conv)

lemma app_recv: "sys_recv n k s = (len, bs, s') \<Longrightarrow> app s' = app s"
  by (auto simp: sys_recv_def sys_recvfrom_def pop_def split: list.splits reply.splits if_splits prod.splits)

lemma pipes_create:
  assumes "streamAcceptCreate nptp_app pc c us pa n s = (r, us', s')"
  shows "pipes (app s') = pipes (app s)"
  using assms by (auto simp: streamAcceptCreate_def Let_def app_setsockopt app_calls dest!: app_malloc app_create
      split: prod.splits option.splits if_splits)

lemma pipes_accept: "pipes (app (on_server p acceptTurn s)) = pipes (app s)"
proof (rule pipes_on_server)
  fix pc c us
  have "pipes (app s') = pipes (app s)" if "streamListenBody nptp_app t pc (c, us, s) = (fl, c', us', s')" for t fl c' us' s'
    using that by (auto simp: streamListenBody_def streamAcceptClient_def app_calls dest!: app_accept pipes_create
        split: prod.splits option.splits if_splits)
  then show "pipes (app (snd (snd (acceptTurn pc c us s)))) = pipes (app s)"
    by (auto simp: acceptTurn_def split: prod.split)
qed

lemma pipes_user: "pipes (app (on_server p (userTurn u) s)) = pipes (app s)"
proof (rule pipes_on_server)
  fix pc c us
  have "pipes (app s') = pipes (app s)" if "streamServerRecvBody nptp_app t c u (x, s) = (fl, x', s')" for t x fl x' s'
    using that by (auto simp: streamServerRecvBody_def Let_def app_calls dest!: app_recv split: prod.splits if_splits)
  then show "pipes (app (snd (snd (userTurn u pc c us s)))) = pipes (app s)"
    by (auto simp: userTurn_def split: prod.split option.split)
qed

lemma pipes_leave: "pipes (app (on_server p (leaveTurn u) s)) = pipes (app s)"
proof (rule pipes_on_server)
  fix pc c us
  show "pipes (app (snd (snd (leaveTurn u pc c us s)))) = pipes (app s)"
    using app_streamDisconnectClient [of u c us s] by (auto simp: leaveTurn_def split: option.split) (metis prod.collapse)
qed

section \<open>The thread of the pipe\<close>

lemma pipes_close:
  assumes "mappings (app s) p = Some m"
  shows "app (invoke nptp_app (ExitCb p_ipcStreamExitFunc p k) s) =
    (app s)\<lparr>mappings := (mappings (app s))(p \<mapsto> m\<lparr>pipeConnect := 0\<rparr>)\<rparr>"
  using assms by (simp add: invoke_def ipcStreamExitFunc_def on_mapping_def set_app_def emit_def)

lemma pipeTurn_moves:
  assumes i: "nptp_inv H F ps s"
  shows "pipes (app (pipeTurn p s)) = pipes (app s) \<or>
    (pipes (app s) p = Some Connected \<or> pipes (app s) p = Some Linking) \<and>
      pipes (app (pipeTurn p s)) = (pipes (app s))(p \<mapsto> Waiting)"
proof (cases "\<exists>m q c. mappings (app s) p = Some m \<and> ipcStreamHandle m = Some (q, c) \<and> stream_client_ctx.running c \<noteq> 0")
  case False
  then have "pipeTurn p s = s" by (auto simp: pipeTurn_def split: option.split)
  then show ?thesis by simp
next
  case True
  then obtain m q c where m: "mappings (app s) p = Some m" "ipcStreamHandle m = Some (q, c)"
    and rn: "stream_client_ctx.running c \<noteq> 0" by blast
  have "client_set_up p c" using nptp_inv_mapping [OF i m(1)] m(2) by (simp add: mapping_ok_def fields_ok_def)
  then have su: "pClientArg c = p" "pClientExitFunc c = p_ipcStreamExitFunc" "p_ipcStreamExitFunc \<noteq> NULL"
    by (simp_all add: client_set_up_def proxy_pointers)
  obtain fl c1 s1 where 1: "streamClientRecvBody nptp_app (stream_client_ctx.thread c) (c, s) = (fl, c1, s1)" by (metis prod_cases3)
  let ?c = "if fl = Break then c1\<lparr>stream_client_ctx.running := 0\<rparr> else c1"
  have t: "pipeTurn p s = on_mapping p (\<lambda>m. m\<lparr>ipcStreamHandle := Some (q, ?c)\<rparr>) s1" using m rn 1 by (simp add: pipeTurn_def)
  have rs: "pipes (app s) p = Some (if pipeConnect m = 0 then Linking else Connected)" using m rn by (simp add: pipes_def pipe_state_def)
  obtain len bs s0 where 0: "sys_recv (stream_client_ctx.fd c) COMM_BUF_SIZE s = (len, bs, s0)" by (metis prod_cases3)
  show ?thesis
  proof (cases "fl = Break")
    case False
    have c1: "stream_client_ctx.running c1 = stream_client_ctx.running c" and a: "pipes (app s1) = pipes (app s)"
      using 1 0 False by (auto simp: streamClientRecvBody_def Let_def dest!: app_recv split: if_splits)
    have "pipe_state (n\<lparr>ipcStreamHandle := Some (q, ?c)\<rparr>) = pipe_state n" if n: "mappings (app s1) p = Some n" for n
    proof -
      have "Some (pipe_state n) = Some (if pipeConnect m = 0 then Linking else Connected)" using n a rs by (metis pipes_def option.simps(9))
      then show ?thesis using False c1 rn by (auto simp: pipe_state_def split: if_splits)
    qed
    from pipes_on_mapping [OF this] a t False show ?thesis by simp
  next
    case True
    let ?s2 = "sys_close (stream_client_ctx.fd c) s0"
    have "s1 = invoke nptp_app (ExitCb p_ipcStreamExitFunc p len) ?s2"
      using 1 0 True su by (auto simp: streamClientRecvBody_def Let_def split: if_splits)
    moreover have "mappings (app ?s2) p = Some m" "app ?s2 = app s" using m(1) app_recv [OF 0] by (simp_all add: app_calls)
    ultimately have "app s1 = (app s)\<lparr>mappings := (mappings (app s))(p \<mapsto> m\<lparr>pipeConnect := 0\<rparr>)\<rparr>" by (simp only: pipes_close)
    then have "pipes (app (pipeTurn p s)) = (pipes (app s))(p \<mapsto> Waiting)"
      using True by (simp add: t on_mapping_def pipes_def fun_eq_iff pipe_state_def)
    with rs show ?thesis by simp
  qed
qed

section \<open>Connecting\<close>

lemma clientInit_new: "streamClientInit a f g p s = (Some (q, c), s') \<Longrightarrow> stream_client_ctx.running c = 0"
  by (auto simp: streamClientInit_def streamInitClient_def streamClientNewContext_def Let_def split: prod.splits if_splits)

lemma clientConnect_running:
  assumes "streamClientConnect (Some (q, c)) a s = (e, h, s')" "stream_client_ctx.running c = 0"
  shows "receiving h \<longleftrightarrow> e = 0"
  using assms by (auto simp: streamClientConnect_def Let_def split: prod.splits if_splits)

lemma connect_moves:
  assumes m: "mappings (app s) p = Some m" and ok: "fields_ok p m" and z: "pipeConnect m = 0"
  shows "pipes (app (snd (proxy_connectIpc p s))) = (pipes (app s))(p \<mapsto> Waiting) \<or>
    pipes (app (snd (proxy_connectIpc p s))) = (pipes (app s))(p \<mapsto> Connected)"
proof -
  let ?t = "comm_ipcStreamClientUninit (ipcStreamHandle m) s"
  obtain h t1 where 1: "streamClientInit (Sockaddr_un (IPC_STREAM_FILE_PATH @ fmt_d (index m))) p_ipcStreamRecvFunc p_ipcStreamExitFunc p ?t = (h, t1)"
    by fastforce
  have a1: "app t1 = app s" using app_clientInit [of "IPC_STREAM_FILE_PATH @ fmt_d (index m)"] 1
    by (auto simp: streamClientInit_def streamInitClient_def streamClientNewContext_def Let_def app_simps
      dest!: app_malloc app_unixOpen split: prod.splits if_splits)
  note eq = proxy_connectIpc_eq [OF m ok, unfolded Let_def, simplified 1 prod.case]
  have upd: "pipes (app (on_mapping p f u)) = (pipes (app u))(p \<mapsto> pipe_state (f n))" if "mappings (app u) p = Some n" for f u n
    using that by (simp add: on_mapping_def pipes_def fun_eq_iff)
  show ?thesis
  proof (cases h)
    case None
    have "mappings (app (PRINT x t1)) p = Some m" for x using a1 m by simp
    from upd [OF this] z show ?thesis unfolding eq using None a1 by (simp add: pipe_state_def)
  next
    case (Some h')
    then obtain q c where h: "h = Some (q, c)" by (cases h') auto
    note r = clientInit_new [OF 1 [unfolded h]]
    let ?t2 = "on_mapping p (\<lambda>m. m\<lparr>ipcStreamHandle := h\<rparr>) t1"
    have m2: "mappings (app ?t2) p = Some (m\<lparr>ipcStreamHandle := h\<rparr>)" using a1 m by (simp add: on_mapping_def)
    have p2: "pipes (app ?t2) = (pipes (app s))(p \<mapsto> Waiting)"
      using upd [of t1 m "\<lambda>m. m\<lparr>ipcStreamHandle := h\<rparr>"] a1 m z r h by (simp add: pipe_state_def)
    obtain e k t3 where 3: "streamClientConnect h (Sockaddr_un (pipe_of m)) ?t2 = (e, k, t3)" by (metis prod_cases3)
    have a3: "app t3 = app ?t2" using 3 h by (auto simp: streamClientConnect_def Let_def app_simps
        dest!: app_connect app_create split: prod.splits if_splits option.splits)
    note kr = clientConnect_running [OF 3 [unfolded h] r]
    have "mappings (app (on_mapping p (\<lambda>m. m\<lparr>ipcStreamHandle := k\<rparr>) t3)) p = Some (m\<lparr>ipcStreamHandle := k\<rparr>)"
      "pipes (app (on_mapping p (\<lambda>m. m\<lparr>ipcStreamHandle := k\<rparr>) t3)) = (pipes (app s))(p \<mapsto> if e = 0 then Linking else Waiting)"
      using upd [of t3 "m\<lparr>ipcStreamHandle := h\<rparr>" "\<lambda>m. m\<lparr>ipcStreamHandle := k\<rparr>"] a3 m2 p2 z kr
      by (auto simp: pipe_state_def on_mapping_def)
    note x = this upd [of "PRINT y (on_mapping p (\<lambda>m. m\<lparr>ipcStreamHandle := k\<rparr>) t3)" for y] upd [OF this(1)]
    show ?thesis
      unfolding eq using x(3) x(1,2) x(4) Some p2 3 kr by (auto simp: pipe_state_def)
  qed
qed

section \<open>Events and commands\<close>

text \<open>A turn \<open>t\<close> makes a step of the machine for every mapping.\<close>

definition pipes_step :: "turn \<Rightarrow> nptp \<Rightarrow> nptp \<Rightarrow> bool" where
  "pipes_step t g g' \<longleftrightarrow> (\<forall>p. case pipes g p of None \<Rightarrow> pipes g' p = None
     | Some x \<Rightarrow> \<exists>y\<in>pipe_moves t p x. pipes g' p = Some y)"

lemma pipes_step_same: "pipes g' = pipes g \<Longrightarrow> pipes_step t g g'"
  by (simp add: pipes_step_def split: option.split)

lemma pipes_step_one: "pipes g' = (pipes g)(p \<mapsto> y) \<Longrightarrow> pipes g p = Some x \<Longrightarrow> y \<in> pipe_moves t p x \<Longrightarrow> pipes_step t g g'"
  by (auto simp: pipes_step_def split: option.split)

lemma event_moves_trans: "y \<in> pipe_moves Event p x \<Longrightarrow> z \<in> pipe_moves Event p y \<Longrightarrow> z \<in> pipe_moves Event p x"
  by (cases x; cases y) auto

lemma pipes_step_trans: "pipes_step Event g g' \<Longrightarrow> pipes_step Event g' g'' \<Longrightarrow> pipes_step Event g g''"
  unfolding pipes_step_def
proof (rule allI)
  fix p
  assume 1: "\<forall>p. case pipes g p of None \<Rightarrow> pipes g' p = None | Some x \<Rightarrow> \<exists>y\<in>pipe_moves Event p x. pipes g' p = Some y"
    and 2: "\<forall>p. case pipes g' p of None \<Rightarrow> pipes g'' p = None | Some x \<Rightarrow> \<exists>y\<in>pipe_moves Event p x. pipes g'' p = Some y"
  show "case pipes g p of None \<Rightarrow> pipes g'' p = None | Some x \<Rightarrow> \<exists>y\<in>pipe_moves Event p x. pipes g'' p = Some y"
    using spec [OF 1, of p] spec [OF 2, of p] event_moves_trans by (auto split: option.splits)
qed

lemma event_match_step:
  assumes i: "nptp_inv H F ps s"
  shows "pipes_step Event (app s) (app (event_match nam s))"
proof -
  let ?P = "\<lambda>p. p \<noteq> NULL \<and> (case mappings (app s) p of None \<Rightarrow> False
               | Some m \<Rightarrow> pipeConnect m = 0 \<and> c_string (pipeName m) = nam)"
  show ?thesis
  proof (cases "find ?P (g_pMapping (app s))")
    case None
    then show ?thesis by (simp add: event_match_def pipes_step_same)
  next
    case (Some p)
    then have "?P p" by (auto simp: find_Some_iff)
    then obtain m where m: "mappings (app s) p = Some m" "pipeConnect m = 0" by (auto split: option.splits)
    have ok: "fields_ok p m" using nptp_inv_mapping [OF i m(1)] by (simp add: mapping_ok_def)
    have "pipes (app s) p = Some (pipe_state m)" "pipe_state m = Waiting \<or> pipe_state m = Linking"
      using m by (simp_all add: pipes_def pipe_state_def)
    moreover have "event_match nam s = snd (proxy_connectIpc p s)" unfolding event_match_def Some by simp
    ultimately show ?thesis using connect_moves [OF m(1) ok m(2)] by (auto intro: pipes_step_one)
  qed
qed

lemma event_walk_step: "nptp_inv H F ps s \<Longrightarrow> pipes_step Event (app s) (app (event_walk buf len j s))"
proof (induction buf len j s rule: event_walk.induct)
  case (1 buf len j s)
  show ?case
  proof (cases "j < len")
    case False
    then show ?thesis by (simp add: event_walk.simps [of buf len j] pipes_step_same)
  next
    case True
    from pipes_step_trans [OF event_match_step [OF 1(2)] 1(1) [OF True kept_inv [OF event_match_kept [OF 1(2)]]]] True show ?thesis
      by (simp add: event_walk.simps [of buf len j])
  qed
qed

lemma eventBody_step:
  assumes i: "nptp_inv H F ps s"
  shows "pipes_step Event (app s) (app (snd (eventBody s)))"
proof -
  obtain len bs t where 1: "sys_read (g_inotifyFd (app s)) EVENT_BUFFER s = (len, bs, t)" by (metis prod_cases3)
  note a = app_recv [OF 1 [unfolded sys_read_def]]
  from sys_recv_rule [OF 1 [unfolded sys_read_def] nptp_inv_D(1) [OF i]]
  have "nptp_inv H F ps t" by (intro nptp_inv_frame [OF i]) (simp_all add: a quiet_def res_def)
  from event_walk_step [OF this] a 1 show ?thesis by (simp add: eventBody_def pipes_step_same)
qed

lemma pipes_fold: "(\<And>x s. pipes (app (f x s)) = pipes (app s)) \<Longrightarrow> pipes (app (fold f xs s)) = pipes (app s)"
  by (induction xs arbitrary: s) simp_all

lemma pipes_globals [simp]:
  "pipes (g\<lparr>g_ipcDgramhandle := h\<rparr>) = pipes g" "pipes (g\<lparr>g_inotifyFd := n\<rparr>) = pipes g"
  by (simp_all add: pipes_def fun_eq_iff)

lemma pipes_list: "pipes (app (serv_list s)) = pipes (app s)"
proof -
  have "pipes (app (fold (\<lambda>p s. if p \<noteq> NULL
      then (case mappings (app s) p of None \<Rightarrow> fault (Use_After_Free p) s | Some m \<Rightarrow> PRINT (serv_line m) s) else s) xs s)) =
    pipes (app s)" for xs s by (rule pipes_fold) (simp split: option.split)
  then show ?thesis by (simp add: serv_list_def Let_def)
qed

lemma pipes_event_uninit: "pipes (app (event_uninit s)) = pipes (app s)"
proof -
  have "pipes (app (fold (\<lambda>p s. if p \<noteq> NULL then unwatch_mapping p s else s) xs s)) = pipes (app s)" for xs s
    by (rule pipes_fold) (simp add: unwatch_mapping_def pipes_on_mapping app_calls split: option.split)
  then show ?thesis by (simp add: event_uninit_def Let_def app_calls)
qed

lemma pipes_command: "pipes (app (commandTurn nb s)) = pipes (app s)"
proof -
  have "pipes (app (ipcRecvFunc a bs n x s)) = pipes (app s)" for a bs n x s
    by (simp add: ipcRecvFunc_def Let_def pipes_list pipes_event_uninit)
  then have f: "pipes (app (invoke nptp_app (RecvPathCb g a bs n x) s)) = pipes (app s)" for g a bs n x s
    by (simp add: invoke_def)
  have "app s' = app s" if "sys_recvfrom n k s = (len, bs, src, s')" for n k len bs src s'
    using that by (auto simp: sys_recvfrom_def pop_def split: list.splits reply.splits if_splits)
  then have "pipes (app s') = pipes (app s)" if "ipcDgramRecvBody nptp_app t (c, nb, s) = (fl, c', nb', s')" for t c fl c' nb' s'
    using that f by (auto simp: ipcDgramRecvBody_def Let_def split: prod.splits if_splits)
  then show ?thesis by (auto simp: commandTurn_def split: option.split prod.split)
qed

text \<open>Every turn is a step.\<close>

lemma make_turn_step:
  assumes i: "nptp_inv H F ps s"
  shows "pipes_step t (app s) (app (make_turn t s))"
proof (cases t)
  case (Pipe p)
  from pipeTurn_moves [OF i, of p] show ?thesis
    by (auto simp: Pipe intro: pipes_step_same pipes_step_one)
next
  case Event
  with eventBody_step [OF i] show ?thesis by simp
qed (simp_all add: pipes_step_same pipes_accept pipes_user pipes_leave pipes_command)

lemma daemon_step: "daemon_inv H F ps s \<Longrightarrow> pipes_step t (app s) (app (make_turn t s))"
  using daemon_inner make_turn_step by metis

section \<open>The start\<close>

text \<open>The flags tell the truth: no mapping is \<open>Linking\<close> or \<open>Stuck\<close>.\<close>

definition truthful :: "nptp \<Rightarrow> bool" where
  "truthful g \<longleftrightarrow> (\<forall>p x. pipes g p = Some x \<longrightarrow> x = Waiting \<or> x = Connected)"

lemma truthful_step: "pipes_step t g g' \<Longrightarrow> truthful g \<Longrightarrow> truthful g'"
  unfolding truthful_def
proof (intro allI impI)
  fix p y assume s: "pipes_step t g g'" and h: "\<forall>p x. pipes g p = Some x \<longrightarrow> x = Waiting \<or> x = Connected" and y: "pipes g' p = Some y"
  from s y have "\<exists>x. pipes g p = Some x \<and> y \<in> pipe_moves t p x" by (auto simp: pipes_step_def split: option.splits dest!: spec [of _ p])
  then obtain x where "pipes g p = Some x" "y \<in> pipe_moves t p x" by blast
  with h show "y = Waiting \<or> y = Connected" by (cases t; cases x) (auto split: if_splits)
qed

lemma app_tcpOpen: "tcpOpen a s = (n, s') \<Longrightarrow> app s' = app s"
  by (auto simp: tcpOpen_def Let_def app_simps app_setsockopt dest!: app_socket app_bind split: prod.splits if_splits)

lemma app_streamOpen: "streamOpen a s = (n, s') \<Longrightarrow> app s' = app s"
  by (cases a) (auto dest: app_tcpOpen app_unixOpen)

lemma app_serverInit: "streamServerInit a k f1 f2 f3 x s = (h, s') \<Longrightarrow> app s' = app s"
  by (auto simp: streamServerInit_def streamInitServer_def streamUninitServer_def Let_def app_simps
      dest!: app_malloc app_create app_streamOpen split: prod.splits if_splits)

lemma pipes_launch: "pipes (app (snd (proxy_launchTcp p s))) = pipes (app s)"
  by (auto simp: proxy_launchTcp_def comm_tcpIpv4ServerInit_def pipes_on_mapping dest!: app_serverInit split: option.split prod.split)

lemma init_loop_truthful:
  "nptp_inv H F ps s \<Longrightarrow> distinct qs \<Longrightarrow> set qs \<subseteq> set ps \<Longrightarrow>
   \<forall>p\<in>set qs. \<exists>m. mappings (app s) p = Some m \<and> tcpServerHandle m = None \<Longrightarrow>
   \<forall>p\<in>set qs. pipes (app s) p = Some Waiting \<Longrightarrow> truthful (app s) \<Longrightarrow> truthful (app (snd (proxy_init_loop qs s)))"
proof (induction qs arbitrary: s)
  case Nil
  then show ?case by simp
next
  case (Cons p qs)
  obtain m where m: "mappings (app s) p = Some m" "tcpServerHandle m = None" using Cons.prems(4) by auto
  obtain e1 s1 where 1: "proxy_launchTcp p s = (e1, s1)" by fastforce
  have p1: "pipes (app s1) = pipes (app s)" using pipes_launch [of p s] 1 by simp
  have k1: "kept H F ps {p} s s1" using keeps_kept [OF proxy_launchTcp_keeps [OF Cons.prems(1) m 1]] .
  note i1 = kept_inv [OF k1]
  have "pipes (app s1) p = Some Waiting" using p1 Cons.prems(5) by simp
  then obtain m1 where m1: "mappings (app s1) p = Some m1" "pipeConnect m1 = 0"
    by (auto simp: pipes_def pipe_state_def split: if_splits)
  obtain e2 s2 where 2: "proxy_connectIpc p s1 = (e2, s2)" by fastforce
  have k2: "kept H F ps {p} s s2" using kept_trans [OF k1 keeps_kept [OF proxy_connectIpc_keeps [OF i1 m1(1) 2]]] by simp
  have "fields_ok p m1" using nptp_inv_mapping [OF i1 m1(1)] by (simp add: mapping_ok_def)
  from connect_moves [OF m1(1) this m1(2)] 2 p1 have p2: "pipes (app s2) = (pipes (app s))(p \<mapsto> Waiting) \<or>
    pipes (app s2) = (pipes (app s))(p \<mapsto> Connected)" by simp
  have t2: "truthful (app s1)" using Cons.prems(6) p1 by (simp add: truthful_def)
  have "truthful (app s2)" using p2 by (rule disjE) (use Cons.prems(6) in \<open>simp_all add: truthful_def\<close>)
  note t2 = t2 this
  have o: "\<forall>q\<in>set qs. q \<noteq> p" using Cons.prems(2) by auto
  then have "\<forall>q\<in>set qs. mappings (app s2) q = mappings (app s) q" using k2 by (simp add: kept_def)
  with Cons.prems(4) have a: "\<forall>q\<in>set qs. \<exists>m. mappings (app s2) q = Some m \<and> tcpServerHandle m = None" by simp
  have b: "\<forall>q\<in>set qs. pipes (app s2) q = Some Waiting" using p2 Cons.prems(5) o by auto
  have "truthful (app (snd (proxy_init_loop qs s2)))" using Cons.IH [OF kept_inv [OF k2] _ _ a b t2(2)] Cons.prems by simp
  moreover have "p \<noteq> NULL" using Cons.prems(3) table_loop(4) [OF Cons.prems(1)] by auto
  ultimately show ?case using t2 1 2 Cons.prems(6) by simp
qed

lemma app_add_watch: "sys_inotify_add_watch n x s = (k, s') \<Longrightarrow> app s' = app s"
  by (auto simp: sys_inotify_add_watch_def pop_def split: list.splits reply.splits if_splits)

lemma app_inotify: "sys_inotify_init s = (n, s') \<Longrightarrow> app s' = app s"
  by (auto simp: sys_inotify_init_def new_fd_def pop_def Let_def split: list.splits reply.splits if_splits prod.splits)

lemma init_truthful:
  assumes g: "fresh_process env s" and sc: "script s = replicate (config_size env) Done @ rs"
    and r: "serv_init env s = (Some 0, s')"
  shows "truthful (app s')"
proof -
  let ?s = "set_app (\<lambda>g. g\<lparr>g_pMapping := replicate MAX_MAPPING_NUM NULL, g_mappingNum := 0\<rparr>)
    (set_log (comm_setLogMask LOG_MASK_NONE) s)"
  have c: "config_ok env" and "table_ok [] ?s" "wf_world ?s" "0 \<in> fds ?s" "g_inotifyFd (app ?s) < 0"
    "script ?s = replicate (config_size env) Done @ rs" using g sc by (simp_all add: fresh_process_def table_ok_def set_log_def)
  note x0 = xml_init_inv [OF c this(2-6)]
  obtain e1 s1 where 1: "xml_init env ?s = (e1, s1)" by fastforce
  from x0 [OF 1] obtain ps k where x: "e1 = Some k" "nptp_inv (heap s) (fds s) ps s1"
    and m: "\<forall>p\<in>set ps. \<exists>m. mappings (app s1) p = Some m \<and> tcpServerHandle m = None \<and> ipcStreamHandle m = None \<and> pipeConnect m = 0"
    by (fastforce simp: set_log_def)
  have w: "pipes (app s1) p = Some Waiting" if p: "p \<in> set ps" for p
  proof -
    obtain n where "mappings (app s1) p = Some n" "ipcStreamHandle n = None" "pipeConnect n = 0" using m p by blast
    then show ?thesis by (simp add: pipes_def pipe_state_def)
  qed
  moreover have "pipes (app s1) p = None" if "p \<notin> set ps" for p
    using nptp_inv_D(1) [OF x(2)] x(2) that by (auto simp: nptp_inv_def table_ok_def pipes_def dom_def)
  ultimately have t1: "truthful (app s1)" unfolding truthful_def by (metis option.distinct(1) option.inject)
  have m': "\<forall>p\<in>set ps. \<exists>m. mappings (app s1) p = Some m \<and> tcpServerHandle m = None" using m by blast
  have "truthful (app (snd (proxy_init s1)))"
    using init_loop_truthful [OF x(2) table_loop(2) [OF x(2)] subset_refl m' _ t1] w
    by (simp add: proxy_init_def table_loop(3) [OF x(2)])
  moreover obtain e2 s2 where 2: "proxy_init s1 = (e2, s2)" by fastforce
  ultimately have t2: "truthful (app s2)" by simp
  note r' = r [unfolded serv_init_def Let_def 1 prod.case x(1) option.case 2]
  let ?l = "PRINT (''service ready'' @ newline) (serv_list s2)"
  obtain e3 s3 where 3: "event_init ?l = (e3, s3)" by fastforce
  obtain h s4 where 4: "ipcDgramInit IPC_DGRAM_FILE_PATH p_ipcRecvFunc NULL s3 = (h, s4)" by fastforce
  have "app s' = (app s4)\<lparr>g_ipcDgramhandle := h\<rparr>" using r' 3 4 by (auto split: if_splits)
  moreover have "app s4 = app s3" using ipcDgramInit_adds [OF 4]
    using 4 by (auto simp: ipcDgramInit_def ipcDgramInitSocket_def ipcDgramUninitSocket_def Let_def app_simps
      dest!: app_malloc app_create app_unixOpen split: prod.splits if_splits)
  moreover have "pipes (app s3) = pipes (app s2)"
  proof -
    have "pipes (app (fold (\<lambda>p s. if p \<noteq> NULL then watch_mapping p s else s) xs u)) = pipes (app u)" for xs u
    proof (rule pipes_fold)
      fix p u
      show "pipes (app (if p \<noteq> NULL then watch_mapping p u else u)) = pipes (app u)"
        by (auto simp: watch_mapping_def pipes_on_mapping dest!: app_readChars app_add_watch split: option.split prod.split)
    qed
    then show ?thesis using 3 by (auto simp: event_init_def Let_def pipes_list dest!: app_inotify split: prod.splits if_splits)
  qed
  ultimately show ?thesis using t2 by (simp add: truthful_def)
qed

section \<open>Properties\<close>

text \<open>
  C12. The connection to a pipe is a state machine with two states, whatever the threads and the
  kernel do, and in whatever order. Between any two turns \<open>pipeConnect\<close> is 1 exactly when the
  client's receive thread is running, so the flag by which events are matched tells the truth.
  A pipe that waits is connected by an event only, a connected one is left only by a turn of its own
  thread, and every other turn leaves it alone.
\<close>

theorem nptp_pipe_machine:
  assumes "fresh_process env s" "script s = replicate (config_size env) Done @ rs" "serv_init env s = (Some 0, s1)"
    and "s2 = run_turns ts s1" and m: "mappings (app s2) p = Some m"
  shows "(pipeConnect m = 1 \<longleftrightarrow> receiving (ipcStreamHandle m)) \<and>
    (\<exists>m'. mappings (app (make_turn t s2)) p = Some m' \<and> pipe_state m' \<in> pipe_moves t p (pipe_state m))"
proof -
  obtain ps where d1: "daemon_inv (heap s) (fds s) ps s1" using reached [OF assms(1-3), of "[]"] by (auto simp: run_turns_def)
  have "daemon_inv (heap s) (fds s) ps (run_turns ts u) \<and> truthful (app (run_turns ts u))"
    if "daemon_inv (heap s) (fds s) ps u" "truthful (app u)" for u
    using that
  proof (induction ts arbitrary: u)
    case Nil
    then show ?case by (simp add: run_turns_def)
  next
    case (Cons x ts)
    from Cons.IH [OF conjunct1 [OF make_turn_inv [OF Cons.prems(1)]] truthful_step [OF daemon_step [OF Cons.prems(1)] Cons.prems(2)]]
    show ?case by (simp add: run_turns_def)
  qed
  from this [OF d1 init_truthful [OF assms(1-3)]] assms(4)
  have d: "daemon_inv (heap s) (fds s) ps s2" and tr: "truthful (app s2)" by simp_all
  obtain H F where i: "nptp_inv H F ps s2" using daemon_inner [OF d] .
  have "flags_ok m" using nptp_inv_mapping [OF i m] by (simp add: mapping_ok_def fields_ok_def)
  moreover have x: "pipes (app s2) p = Some (pipe_state m)" using m by (simp add: pipes_def)
  then have "pipe_state m = Waiting \<or> pipe_state m = Connected" using tr by (simp add: truthful_def)
  ultimately have "pipeConnect m = 1 \<longleftrightarrow> receiving (ipcStreamHandle m)" by (auto simp: flags_ok_def pipe_state_def split: if_splits)
  moreover from spec [OF daemon_step [OF d, of t, unfolded pipes_step_def], of p] x
  have "\<exists>m'. mappings (app (make_turn t s2)) p = Some m' \<and> pipe_state m' \<in> pipe_moves t p (pipe_state m)"
    by (auto simp: pipes_def)
  ultimately show ?thesis by simp
qed

theorem nptp_pipe_machine_witness:
  "\<exists>s1 m. serv_init sample_env (boot nptp_start sample_replies) = (Some 0, s1) \<and> mappings (app s1) 1 = Some m \<and>
     (pipeConnect m = 1 \<longleftrightarrow> receiving (ipcStreamHandle m))"
proof -
  obtain s1 where s1: "serv_init sample_env (boot nptp_start sample_replies) = (Some 0, s1)" "1 \<in> dom (mappings (app s1))"
    by (rule sample_started)
  then obtain m where m: "mappings (app (run_turns [] s1)) 1 = Some m" by (auto simp: run_turns_def)
  from nptp_pipe_machine [OF sample_fresh sample_script s1(1) refl m] m s1(1) show ?thesis by (auto simp: run_turns_def)
qed

end
