(* ===== verification/Nptp_Relay.thy ===== *)
theory Nptp_Relay
  imports Nptp_Turns
begin

text \<open>
  What the service is for: the bytes that arrive from the TCP client go to the pipe, and those that
  arrive from the pipe go to the TCP client, in both directions at once.
\<close>

section \<open>A mapping with both sides connected\<close>

text \<open>User \<open>u\<close> of mapping \<open>p\<close> is on descriptor \<open>n\<close>, the pipe on \<open>j\<close>.\<close>

definition linked_mapping :: "addr \<Rightarrow> addr \<Rightarrow> int \<Rightarrow> int \<Rightarrow> tid set \<Rightarrow> tMapping \<Rightarrow> bool" where
  "linked_mapping p u n j cs m \<longleftrightarrow> pTcpUser m = u \<and> u \<noteq> NULL \<and>
     (\<exists>pc c x q k. tcpServerHandle m = Some (pc, c) \<and> server_set_up p c \<and> tcpUsers m u = Some x \<and> user_fd x = n \<and>
        user_thread x \<notin> cs \<and> ipcStreamHandle m = Some (q, k) \<and> client_set_up p k \<and> stream_client_ctx.fd k = j \<and>
        stream_client_ctx.running k \<noteq> 0 \<and> stream_client_ctx.thread k \<notin> cs)"

definition linked :: "addr \<Rightarrow> addr \<Rightarrow> int \<Rightarrow> int \<Rightarrow> nptp world \<Rightarrow> bool" where
  "linked p u n j s \<longleftrightarrow> 0 < n \<and> 0 < j \<and> n \<noteq> j \<and> n \<in> fds s \<and> j \<in> fds s \<and>
     (\<exists>m. mappings (app s) p = Some m \<and> linked_mapping p u n j (cancels s) m)"

text \<open>What the kernel takes of a message when its answer to \<^verbatim>\<open>send\<close> is \<open>r\<close>.\<close>

fun taken :: "u8 list \<Rightarrow> reply \<Rightarrow> u8 list list" where
  "taken bs (Fail e) = []"
| "taken bs (Val k) = [take (min (nat k) (length bs)) bs]"
| "taken bs _ = [bs]"

lemma sends_app [simp]: "sends n (set_app f s) = sends n s"
  by (simp add: sends_def)

lemma sys_sendto_taken:
  assumes "n \<in> fds s" "script s = r # rs" "sys_sendto n bs a s = (k, s')"
  shows "sends n s' = sends n s @ taken bs r \<and> (\<forall>j. j \<noteq> n \<longrightarrow> sends j s' = sends j s) \<and> script s' = rs \<and> fds s' = fds s \<and>
    cancels s' = cancels s \<and> app s' = app s"
  using assms by (cases r) (auto simp: sys_sendto_def pop_def sends_emit Let_def)

text \<open>The next thing the thread of the user reads.\<close>

lemma sys_recvfrom_data:
  assumes "n \<in> fds s" "script s = Data bs a # rs" "length bs \<le> COMM_BUF_SIZE"
  shows "sys_recv n COMM_BUF_SIZE s = (int (length bs), bs, s\<lparr>script := rs\<rparr>)"
  using assms by (simp add: sys_recv_def sys_recvfrom_def pop_def)

lemma sent_size: "length bs \<le> COMM_BUF_SIZE \<Longrightarrow> bs \<noteq> [] \<Longrightarrow> unat (word_of_nat (length bs) :: u16) = length bs \<and> (word_of_nat (length bs) :: u16) \<noteq> 0"
  by (simp add: COMM_BUF_SIZE_def unat_of_nat flip: unat_eq_0)

lemma receive_relays:
  assumes l: "linked p u n j s" and b: "bs \<noteq> []" "length bs \<le> COMM_BUF_SIZE" and sc: "script s = Data bs a # r # rs"
  shows "linked p u n j (make_turn (Receive p u) s) \<and> script (make_turn (Receive p u) s) = rs \<and>
    sends j (make_turn (Receive p u) s) = sends j s @ taken bs r \<and> sends n (make_turn (Receive p u) s) = sends n s"
proof -
  obtain m pc c x q k where m: "mappings (app s) p = Some m" "pTcpUser m = u" "u \<noteq> NULL" "tcpServerHandle m = Some (pc, c)"
    "server_set_up p c" "tcpUsers m u = Some x" "user_fd x = n" "user_thread x \<notin> cancels s" "ipcStreamHandle m = Some (q, k)"
    "client_set_up p k" "stream_client_ctx.fd k = j" "stream_client_ctx.running k \<noteq> 0" "stream_client_ctx.thread k \<notin> cancels s"
    and d: "0 < n" "0 < j" "n \<noteq> j" "n \<in> fds s" "j \<in> fds s" using l by (auto simp: linked_def linked_mapping_def)
  have f: "pServerArg c = p" "pServerRecvFunc c = p_tcpIpv4RecvFunc" "pServerRecvFunc c \<noteq> NULL"
    "\<not> is_unix (stream_server_ctx.localAddr c)" using m(5) by (simp_all add: server_set_up_def proxy_pointers)
  note z = sent_size [OF b(2,1)]
  let ?s1 = "s\<lparr>script := r # rs\<rparr>" and ?n = "word_of_nat (length bs) :: u16"
  note 1 = sys_recvfrom_data [OF d(4) sc b(2)]
  let ?x = "x\<lparr>user_recvMsg := fill (user_recvMsg x) bs\<rparr>" and ?s2 = "emit (ECall (UserRecvCb p_tcpIpv4RecvFunc p u bs ?n)) ?s1"
  obtain v t where t: "sys_sendto j bs None ?s2 = (v, t)" by fastforce
  have fb: "take (length bs) (fill (user_recvMsg x) bs) = bs" by (simp add: fill_def)
  have "j \<in> fds ?s2" "script ?s2 = r # rs" using d by simp_all
  note tk = sys_sendto_taken [OF this t]
  have body: "streamServerRecvBody nptp_app (user_thread x) c u (x, s) = (Next, ?x, t)"
    using m d f z b t fb
    by (simp add: streamServerRecvBody_def 1 pthread_testcancel_def recv_stops_def invoke_def tcpIpv4RecvFunc_def
        comm_ipcStreamClientSend_def streamClientSend_def sys_send_def)
  have mt: "mappings (app t) p = Some m" using tk m(1) by simp
  have s': "make_turn (Receive p u) s =
      set_app (\<lambda>g. g\<lparr>mappings := (mappings g)(p \<mapsto> m\<lparr>tcpServerHandle := Some (pc, c), tcpUsers := (tcpUsers m)(u \<mapsto> ?x)\<rparr>)\<rparr>) t"
    using m d body mt by (simp add: on_server_def userTurn_def on_mapping_def)
  have "linked p u n j (make_turn (Receive p u) s)"
    using m d tk unfolding s' by (simp add: linked_def linked_mapping_def)
  with tk d(3) show ?thesis unfolding s' by (simp add: sends_emit)
qed

lemma pipe_relays:
  assumes l: "linked p u n j s" and b: "bs \<noteq> []" "length bs \<le> COMM_BUF_SIZE" and sc: "script s = Data bs a # r # rs"
  shows "linked p u n j (make_turn (Pipe p) s) \<and> script (make_turn (Pipe p) s) = rs \<and>
    sends n (make_turn (Pipe p) s) = sends n s @ taken bs r \<and> sends j (make_turn (Pipe p) s) = sends j s"
proof -
  obtain m pc c x q k where m: "mappings (app s) p = Some m" "pTcpUser m = u" "u \<noteq> NULL" "tcpServerHandle m = Some (pc, c)"
    "server_set_up p c" "tcpUsers m u = Some x" "user_fd x = n" "user_thread x \<notin> cancels s" "ipcStreamHandle m = Some (q, k)"
    "client_set_up p k" "stream_client_ctx.fd k = j" "stream_client_ctx.running k \<noteq> 0" "stream_client_ctx.thread k \<notin> cancels s"
    and d: "0 < n" "0 < j" "n \<noteq> j" "n \<in> fds s" "j \<in> fds s" using l by (auto simp: linked_def linked_mapping_def)
  have f: "pClientArg k = p" "pClientRecvFunc k = p_ipcStreamRecvFunc" "pClientRecvFunc k \<noteq> NULL"
    using m(10) by (simp_all add: client_set_up_def proxy_pointers)
  note z = sent_size [OF b(2,1)]
  let ?s1 = "s\<lparr>script := r # rs\<rparr>" and ?n = "word_of_nat (length bs) :: u16"
  note 1 = sys_recvfrom_data [OF d(5) sc b(2)]
  let ?k = "k\<lparr>stream_client_ctx.recvMsg := fill (stream_client_ctx.recvMsg k) bs\<rparr>"
    and ?s2 = "emit (ECall (RecvCb p_ipcStreamRecvFunc p bs ?n)) ?s1"
  obtain v t where t: "sys_sendto n bs None ?s2 = (v, t)" by fastforce
  have fb: "take (length bs) (fill (stream_client_ctx.recvMsg k) bs) = bs" by (simp add: fill_def)
  have "n \<in> fds ?s2" "script ?s2 = r # rs" using d by simp_all
  note tk = sys_sendto_taken [OF this t]
  have body: "streamClientRecvBody nptp_app (stream_client_ctx.thread k) (k, s) = (Next, ?k, t)"
    using m d f z b t fb
    by (simp add: streamClientRecvBody_def 1 pthread_testcancel_def invoke_def ipcStreamRecvFunc_def
        comm_tcpIpv4ServerSend_def streamServerSend_def sys_send_def)
  have mt: "mappings (app t) p = Some m" using tk m(1) by simp
  have s': "make_turn (Pipe p) s =
      set_app (\<lambda>g. g\<lparr>mappings := (mappings g)(p \<mapsto> m\<lparr>ipcStreamHandle := Some (q, ?k)\<rparr>)\<rparr>) t"
    using m body mt by (simp add: pipeTurn_def on_mapping_def)
  have "linked p u n j (make_turn (Pipe p) s)"
    using m d tk unfolding s' by (simp add: linked_def linked_mapping_def client_set_up_def)
  with tk d(3) show ?thesis unfolding s' by (simp add: sends_emit)
qed

section \<open>A conversation\<close>

text \<open>
  A message: whether it comes from the TCP client, its bytes, and the kernel's answer when it is sent on.
\<close>

type_synonym message = "bool \<times> u8 list \<times> reply"

definition message_turn :: "addr \<Rightarrow> addr \<Rightarrow> message \<Rightarrow> turn" where
  "message_turn p u = (\<lambda>(from_tcp, bs, r). if from_tcp then Receive p u else Pipe p)"

definition message_replies :: "sockaddr \<Rightarrow> message \<Rightarrow> reply list" where
  "message_replies a = (\<lambda>(from_tcp, bs, r). [Data bs a, r])"

definition passed :: "bool \<Rightarrow> message list \<Rightarrow> u8 list list" where
  "passed d msgs = concat (map (\<lambda>(from_tcp, bs, r). if from_tcp = d then taken bs r else []) msgs)"

lemma message_relayed:
  assumes "linked p u n j s" "bs \<noteq> []" "length bs \<le> COMM_BUF_SIZE" "script s = message_replies a (d, bs, r) @ rs"
  shows "linked p u n j (make_turn (message_turn p u (d, bs, r)) s) \<and> script (make_turn (message_turn p u (d, bs, r)) s) = rs \<and>
    sends j (make_turn (message_turn p u (d, bs, r)) s) = sends j s @ passed True [(d, bs, r)] \<and>
    sends n (make_turn (message_turn p u (d, bs, r)) s) = sends n s @ passed False [(d, bs, r)]"
proof (cases d)
  case True
  with receive_relays [OF assms(1-3)] assms(4) show ?thesis by (simp add: message_turn_def message_replies_def passed_def)
next
  case False
  with pipe_relays [OF assms(1-3)] assms(4) show ?thesis by (simp add: message_turn_def message_replies_def passed_def)
qed

lemma passed_Cons: "passed d (x # xs) = passed d [x] @ passed d xs"
  by (simp add: passed_def)

lemma conversation_relayed:
  "linked p u n j s \<Longrightarrow> \<forall>(d, bs, r)\<in>set msgs. bs \<noteq> [] \<and> length bs \<le> COMM_BUF_SIZE \<Longrightarrow>
   script s = concat (map (message_replies a) msgs) @ rest \<Longrightarrow> s' = run_turns (map (message_turn p u) msgs) s \<Longrightarrow>
   sends j s' = sends j s @ passed True msgs \<and> sends n s' = sends n s @ passed False msgs \<and> script s' = rest \<and>
   linked p u n j s'"
proof (induction msgs arbitrary: s)
  case Nil
  then show ?case by (simp add: run_turns_def passed_def)
next
  case (Cons x msgs)
  obtain d bs r where x: "x = (d, bs, r)" by (metis prod_cases3)
  let ?t = "make_turn (message_turn p u x) s"
  have "bs \<noteq> []" "length bs \<le> COMM_BUF_SIZE" "script s = message_replies a (d, bs, r) @ (concat (map (message_replies a) msgs) @ rest)"
    using Cons.prems(2,3) by (simp_all add: x)
  from message_relayed [OF Cons.prems(1) this] have t: "linked p u n j ?t" "script ?t = concat (map (message_replies a) msgs) @ rest"
    "sends j ?t = sends j s @ passed True [x]" "sends n ?t = sends n s @ passed False [x]" by (simp_all add: x)
  have "s' = run_turns (map (message_turn p u) msgs) ?t" using Cons.prems(4) by (simp add: run_turns_def)
  from Cons.IH [OF t(1) _ t(2) this] Cons.prems(2) t(3,4) show ?case
    unfolding passed_Cons [of True x msgs] passed_Cons [of False x msgs] by simp
qed

text \<open>
  C2. The proxy. While a TCP client is connected to a mapping and the mapping is connected to its pipe,
  what arrives on either side is sent on the other: in both directions at once, in whatever order the two
  threads work, message by message, in order, nothing added, and of each message exactly what the kernel
  takes, all of it when it takes all. What the kernel does not take of a message is not sent again.
\<close>

theorem nptp_relays:
  assumes "linked p u n j s" "\<forall>(d, bs, r)\<in>set msgs. bs \<noteq> [] \<and> length bs \<le> COMM_BUF_SIZE"
    "script s = concat (map (message_replies a) msgs) @ rest" "s' = run_turns (map (message_turn p u) msgs) s"
  shows "sends j s' = sends j s @ passed True msgs \<and> sends n s' = sends n s @ passed False msgs \<and>
    (\<forall>d. (\<forall>(e, bs, r)\<in>set msgs. r = Done) \<longrightarrow> passed d msgs = map (\<lambda>(e, bs, r). bs) (filter (\<lambda>(e, bs, r). e = d) msgs)) \<and>
    script s' = rest \<and> linked p u n j s'"
proof -
  have "passed d msgs = map (\<lambda>(e, bs, r). bs) (filter (\<lambda>(e, bs, r). e = d) msgs)" if "\<forall>(e, bs, r)\<in>set msgs. r = Done" for d
    using that by (induction msgs) (auto simp: passed_def split: if_splits)
  with conversation_relayed [OF assms] show ?thesis by blast
qed

definition sample_link :: tMapping where
  "sample_link = zero_mapping\<lparr>
     tcpServerHandle := Some (2, (streamServerNewContext (any_addr IPv4 80) 1 p_tcpIpv4AcptFunc p_tcpIpv4ExitFunc p_tcpIpv4RecvFunc 1)
       \<lparr>stream_server_ctx.fd := 5, stream_server_ctx.running := 1, stream_server_ctx.thread := 1\<rparr>),
     tcpUsers := [3 \<mapsto> \<lparr>pServer = 2, user_addr = any_addr IPv4 0, user_fd = 6, user_thread = 2, user_recvMsg = recv_buffer\<rparr>],
     tcpConnect := 1, pTcpUser := 3, pipeConnect := 1,
     ipcStreamHandle := Some (4, (streamClientNewContext (Sockaddr_un ''x'') p_ipcStreamRecvFunc p_ipcStreamExitFunc 1)
       \<lparr>stream_client_ctx.fd := 7, stream_client_ctx.running := 1, stream_client_ctx.thread := 3\<rparr>)\<rparr>"

theorem nptp_relays_witness:
  "\<exists>s s'. s = (boot (nptp_start\<lparr>mappings := [1 \<mapsto> sample_link]\<rparr>)
        [Data [1, 2, 3] (any_addr IPv4 0), Done, Data [9] (any_addr IPv4 0), Done, Data [4, 5] (any_addr IPv4 0), Val 1])\<lparr>fds := {0, 5, 6, 7}\<rparr> \<and>
     s' = run_turns [Receive 1 3, Pipe 1, Receive 1 3] s \<and> sends 7 s' = [[1, 2, 3], [4]] \<and> sends 6 s' = [[9]]"
proof -
  let ?a = "any_addr IPv4 0" and ?msgs = "[(True, [1, 2, 3], Done), (False, [9], Done), (True, [4, 5], Val 1)]"
  let ?s = "(boot (nptp_start\<lparr>mappings := [1 \<mapsto> sample_link]\<rparr>)
        [Data [1, 2, 3] ?a, Done, Data [9] ?a, Done, Data [4, 5] ?a, Val 1])\<lparr>fds := {0, 5, 6, 7}\<rparr>"
  have l: "linked 1 3 6 7 ?s"
    by (simp add: linked_def linked_mapping_def sample_link_def boot_def server_set_up_def client_set_up_def
        streamServerNewContext_def streamClientNewContext_def USER_NUM_def SUN_PATH_def)
  have "sends 6 ?s = []" "sends 7 ?s = []" by (simp_all add: sends_def boot_def List.map_filter_def)
  with nptp_relays [OF l, of ?msgs ?a "[]" "run_turns (map (message_turn 1 3) ?msgs) ?s"] show ?thesis
    by (simp add: message_replies_def message_turn_def passed_def COMM_BUF_SIZE_def boot_def)
qed

end
