(* ===== verification/Nptp_Race.thy ===== *)
theory Nptp_Race
  imports Nptp_Pipe Nptp_Relay
begin

text \<open>
  A look inside two turns of the service, in which a callback of a thread may come between two
  statements: connecting a pipe, where the flag is set after the thread was started, and accepting
  a TCP client, where the callback for its arrival is called after its thread was started.
\<close>

section \<open>Connecting a pipe, in two halves\<close>

text \<open>
  \<^verbatim>\<open>proxy_connectIpc\<close> up to the call of \<^verbatim>\<open>comm_ipcStreamClientConnect\<close>, which starts the thread that
  receives from the pipe, and the assignment to \<^verbatim>\<open>pipeConnect\<close> after it. \<open>Inl\<close> is the result when it
  returns before, \<open>Inr\<close> the result of connecting.
\<close>

definition proxy_connectStart :: "addr \<Rightarrow> nptp world \<Rightarrow> (int + int) \<times> nptp world" where
  "proxy_connectStart p s = (case mappings (app s) p of
       None \<Rightarrow> (Inl (-1), fault (Use_After_Free p) s)
     | Some m \<Rightarrow>
         let s = (if ipcStreamHandle m \<noteq> None then comm_ipcStreamClientUninit (ipcStreamHandle m) s else s);
             (clientPath, s) = c_strcpy 256 (IPC_STREAM_FILE_PATH @ fmt_d (index m)) s;
             (handle, s) = comm_ipcStreamClientInit clientPath p_ipcStreamRecvFunc p_ipcStreamExitFunc p s in
         if handle = None
         then (Inl (-1), on_mapping p (\<lambda>m. m\<lparr>ipcStreamHandle := None\<rparr>)
                (PRINT (''ERR: comm_ipcStreamClientInit'' @ newline) s))
         else
           let s = on_mapping p (\<lambda>m. m\<lparr>ipcStreamHandle := handle\<rparr>) s;
               (path, s) = read_chars (pipePath m) s;
               (nam, s) = read_chars (pipeName m) s;
               (serverPath, s) = c_strcpy 256 (path @ ''/'' @ nam) s in
           if sys_access serverPath s = 0
           then
             let (error, handle, s) = comm_ipcStreamClientConnect handle serverPath s
             in (Inr error, on_mapping p (\<lambda>m. m\<lparr>ipcStreamHandle := handle\<rparr>) s)
           else (Inl 0, s))"

definition proxy_connectFlag :: "addr \<Rightarrow> int \<Rightarrow> nptp world \<Rightarrow> nptp world" where
  "proxy_connectFlag p error s =
     (if error \<noteq> 0
      then on_mapping p (\<lambda>m. m\<lparr>pipeConnect := 0\<rparr>) (PRINT (''WRN: comm_ipcStreamClientConnect'' @ newline) s)
      else on_mapping p (\<lambda>m. m\<lparr>pipeConnect := 1\<rparr>) s)"

lemma connect_halves:
  "proxy_connectIpc p s = (case proxy_connectStart p s of
     (Inl e, s') \<Rightarrow> (e, s') | (Inr error, s') \<Rightarrow> (0, proxy_connectFlag p error s'))"
proof (cases "mappings (app s) p")
  case None
  then show ?thesis by (simp add: proxy_connectIpc_def proxy_connectStart_def)
next
  case (Some m)
  let ?s1 = "if ipcStreamHandle m \<noteq> None then comm_ipcStreamClientUninit (ipcStreamHandle m) s else s"
  obtain x s2 where 2: "c_strcpy 256 (IPC_STREAM_FILE_PATH @ fmt_d (index m)) ?s1 = (x, s2)" by fastforce
  obtain h s3 where 3: "comm_ipcStreamClientInit x p_ipcStreamRecvFunc p_ipcStreamExitFunc p s2 = (h, s3)" by fastforce
  obtain y s4 where 4: "read_chars (pipePath m) (on_mapping p (\<lambda>m. m\<lparr>ipcStreamHandle := h\<rparr>) s3) = (y, s4)" by fastforce
  obtain z s5 where 5: "read_chars (pipeName m) s4 = (z, s5)" by fastforce
  obtain v s6 where 6: "c_strcpy 256 (y @ ''/'' @ z) s5 = (v, s6)" by fastforce
  obtain e k s7 where 7: "comm_ipcStreamClientConnect h v s6 = (e, k, s7)" by (metis prod_cases3)
  show ?thesis
    unfolding proxy_connectIpc_def proxy_connectStart_def proxy_connectFlag_def Some option.case Let_def 2 prod.case 3 4 5 6 7 by simp
qed

lemma connectStart_app:
  assumes m: "mappings (app s) p = Some m" and r: "proxy_connectStart p s = (Inr 0, s')"
  shows "\<exists>h. app s' = (app s)\<lparr>mappings := (mappings (app s))(p \<mapsto> m\<lparr>ipcStreamHandle := h\<rparr>)\<rparr> \<and> receiving h"
proof -
  let ?s1 = "if ipcStreamHandle m \<noteq> None then comm_ipcStreamClientUninit (ipcStreamHandle m) s else s"
  obtain x s2 where 2: "c_strcpy 256 (IPC_STREAM_FILE_PATH @ fmt_d (index m)) ?s1 = (x, s2)" by fastforce
  obtain h s3 where 3: "comm_ipcStreamClientInit x p_ipcStreamRecvFunc p_ipcStreamExitFunc p s2 = (h, s3)" by fastforce
  have a3: "app s3 = app s" using app_clientInit [OF 3] app_strcpy_eq [OF 2] by (simp add: app_simps split: if_splits)
  let ?t = "on_mapping p (\<lambda>m. m\<lparr>ipcStreamHandle := h\<rparr>) s3"
  obtain y s4 where 4: "read_chars (pipePath m) ?t = (y, s4)" by fastforce
  obtain z s5 where 5: "read_chars (pipeName m) s4 = (z, s5)" by fastforce
  obtain v s6 where 6: "c_strcpy 256 (y @ ''/'' @ z) s5 = (v, s6)" by fastforce
  obtain e k s7 where 7: "comm_ipcStreamClientConnect h v s6 = (e, k, s7)" by (metis prod_cases3)
  have a7: "app s7 = app ?t"
    using app_readChars [OF 4] app_readChars [OF 5] app_strcpy_eq [OF 6] app_clientConnect [OF 7] by simp
  have "h \<noteq> None \<and> e = 0 \<and> s' = on_mapping p (\<lambda>m. m\<lparr>ipcStreamHandle := k\<rparr>) s7"
    using r unfolding proxy_connectStart_def m option.case Let_def 2 prod.case 3 4 5 6 7 by (auto split: if_splits)
  moreover from this obtain q c where h: "h = Some (q, c)" by auto
  moreover have "receiving k" using clientConnect_running [of q c "Sockaddr_un v" s6 e k s7]
      clientInit_new [of "Sockaddr_un (c_strncpy 255 x)" p_ipcStreamRecvFunc p_ipcStreamExitFunc p s2 q c s3] 3 7 h calculation
    by (simp add: comm_ipcStreamClientConnect_def comm_ipcStreamClientInit_def)
  ultimately show ?thesis using a7 a3 m by (intro exI [of _ k]) (simp add: on_mapping_def)
qed

text \<open>In between everything is in order, but for the flag.\<close>

lemma connectStart_kept:
  assumes i: "nptp_inv H F ps s" and m: "mappings (app s) p = Some m" "pipeConnect m = 0"
    and r: "proxy_connectStart p s = (Inr 0, s')"
  shows "kept H F ps (set ps) s s'"
proof -
  obtain h where h: "app s' = (app s)\<lparr>mappings := (mappings (app s))(p \<mapsto> m\<lparr>ipcStreamHandle := h\<rparr>)\<rparr>"
    using connectStart_app [OF m(1) r] by blast
  let ?m = "m\<lparr>ipcStreamHandle := h\<rparr>" and ?t = "proxy_connectFlag p 0 s'"
  have t: "?t = set_app (\<lambda>g. g\<lparr>mappings := (mappings g)(p \<mapsto> ?m\<lparr>pipeConnect := 1\<rparr>)\<rparr>) s'"
    by (simp add: proxy_connectFlag_def on_mapping_def h)
  have "proxy_connectIpc p s = (0, ?t)" by (simp add: connect_halves r)
  note k = proxy_connectIpc_keeps [OF i m(1) this]
  have it: "nptp_inv H F ps ?t" and f: "faults ?t = faults s" using k by (simp_all add: keeps_def)
  have mt: "mappings (app ?t) p = Some (?m\<lparr>pipeConnect := 1\<rparr>)" by (simp add: t)
  have g: "only_mapping p ?m (app ?t) (app s')" by (simp add: t h only_mapping_def)
  have "fields_ok p (?m\<lparr>pipeConnect := 1\<rparr>)" using nptp_inv_mapping [OF it mt] by (simp add: mapping_ok_def)
  then have "fields_ok p ?m" using m(2) by (simp add: fields_ok_def flags_ok_def)
  from nptp_inv_field [OF it mt g this] nptp_inv_D(1) [OF it] have "nptp_inv H F ps s'" by (simp add: t)
  moreover have "p \<in> set ps" using nptp_inv_mapping [OF i m(1)] by simp
  ultimately show ?thesis using f h by (auto simp: kept_def t)
qed

lemma connectFlag_kept:
  assumes i: "nptp_inv H F ps s" and m: "mappings (app s) p = Some m"
  shows "kept H F ps (set ps) s (proxy_connectFlag p 0 s)"
proof -
  let ?t = "proxy_connectFlag p 0 s" and ?m = "m\<lparr>pipeConnect := 1\<rparr>"
  have t: "?t = set_app (\<lambda>g. g\<lparr>mappings := (mappings g)(p \<mapsto> ?m)\<rparr>) s" by (simp add: proxy_connectFlag_def on_mapping_def m)
  have "fields_ok p m" using nptp_inv_mapping [OF i m] by (simp add: mapping_ok_def)
  then have ok: "fields_ok p ?m" by (simp add: fields_ok_def flags_ok_def)
  have g: "only_mapping p ?m (app s) (app ?t)" by (simp add: t only_mapping_def)
  have "nptp_inv H F ps ?t" using nptp_inv_D(1) [OF i] by (intro nptp_inv_field [OF i m g ok]) (simp_all add: t)
  then show ?thesis using nptp_inv_mapping [OF i m] by (auto simp: kept_def t)
qed

lemma pipes_stay:
  assumes "daemon_inv H F ps s" "pipes (app s) p = Some x" "\<forall>t\<in>set ts. pipe_moves t p x = {x}"
  shows "pipes (app (run_turns ts s)) p = Some x"
  using assms
proof (induction ts arbitrary: s)
  case Nil
  then show ?case by (simp add: run_turns_def)
next
  case (Cons t ts)
  have "pipes (app (make_turn t s)) p = Some x"
    using spec [OF daemon_step [OF Cons.prems(1), of t, unfolded pipes_step_def], of p] Cons.prems(2,3) by simp
  from Cons.IH [OF conjunct1 [OF make_turn_inv [OF Cons.prems(1)]] this] Cons.prems(3) show ?case by (simp add: run_turns_def)
qed

text \<open>While the program's loop is busy with it, the pipe can only close.\<close>

lemma linking_turns:
  assumes "daemon_inv H F ps s" "pipes (app s) p = Some Linking" "Event \<notin> set ts"
  shows "pipes (app (run_turns ts s)) p = Some Linking \<or> pipes (app (run_turns ts s)) p = Some Waiting"
  using assms
proof (induction ts arbitrary: s)
  case Nil
  then show ?case by (simp add: run_turns_def)
next
  case (Cons t ts)
  have n: "t \<noteq> Event" "Event \<notin> set ts" using Cons.prems(3) by auto
  note d = conjunct1 [OF make_turn_inv [OF Cons.prems(1), of t]]
  have "\<exists>y\<in>pipe_moves t p Linking. pipes (app (make_turn t s)) p = Some y"
    using spec [OF daemon_step [OF Cons.prems(1), of t, unfolded pipes_step_def], of p] Cons.prems(2) by simp
  then consider "pipes (app (make_turn t s)) p = Some Linking" | "pipes (app (make_turn t s)) p = Some Waiting"
    using n(1) by (cases t) (auto split: if_splits)
  then show ?case
  proof cases
    case 1
    from Cons.IH [OF d 1 n(2)] show ?thesis by (simp add: run_turns_def)
  next
    case 2
    have "pipe_moves x p Waiting = {Waiting}" if "x \<noteq> Event" for x using that by (cases x) simp_all
    then have "\<forall>x\<in>set ts. pipe_moves x p Waiting = {Waiting}" using n(2) by metis
    with pipes_stay [OF d 2, of ts] show ?thesis by (simp add: run_turns_def)
  qed
qed

text \<open>
  C13. Between starting the thread of a pipe and setting \<open>pipeConnect\<close> the thread may already run. Whatever
  the other threads do in between, memory stays safe, and if the pipe is still open when the flag is set, the mapping is
  connected. But if the pipe has closed by then, the thread's 0 is overwritten with 1: the mapping counts as
  connected although nobody receives from the pipe, and it stays so for ever, because events are
  only matched with mappings that are not connected.
\<close>

theorem nptp_pipe_race:
  assumes g: "fresh_process env s" "script s = replicate (config_size env) Done @ rs" "serv_init env s = (Some 0, s0)"
    and m: "mappings (app (run_turns ts0 s0)) p = Some m" "pipeConnect m = 0"
    and st: "proxy_connectStart p (run_turns ts0 s0) = (Inr 0, s1)"
    and ts: "Event \<notin> set ts" and s2: "s2 = run_turns ts s1" and s3: "s3 = proxy_connectFlag p 0 s2"
  shows "faults (run_turns ts' s3) = faults s \<and>
    (if pipes (app s2) p = Some Linking then pipes (app s3) p = Some Connected
     else pipes (app s2) p = Some Waiting \<and> pipes (app (run_turns ts' s3)) p = Some Stuck)"
proof -
  let ?s = "run_turns ts0 s0"
  obtain ps where d: "daemon_inv (heap s) (fds s) ps ?s" "faults ?s = faults s" using reached [OF g, of ts0] by blast
  from daemon_inv_step [OF d(1) connectStart_kept [OF _ m st]] have d1: "daemon_inv (heap s) (fds s) ps s1" "faults s1 = faults s"
    using d(2) by simp_all
  from run_turns_inv [OF d1(1), of ts] d1(2) have d2: "daemon_inv (heap s) (fds s) ps s2" "faults s2 = faults s" by (simp_all add: s2)
  obtain h where "app s1 = (app ?s)\<lparr>mappings := (mappings (app ?s))(p \<mapsto> m\<lparr>ipcStreamHandle := h\<rparr>)\<rparr>" "receiving h"
    using connectStart_app [OF m(1) st] by blast
  then have "pipes (app s1) p = Some Linking" using m(2) by (simp add: pipes_def pipe_state_def)
  note l = linking_turns [OF d1(1) this ts, folded s2]
  then obtain m2 where m2: "mappings (app s2) p = Some m2" by (auto simp: pipes_def)
  from daemon_inv_step [OF d2(1) connectFlag_kept [OF _ m2]] have d3: "daemon_inv (heap s) (fds s) ps s3" "faults s3 = faults s"
    using d2(2) by (simp_all add: s3)
  have "pipes (app s3) p = Some (if receiving (ipcStreamHandle m2) then Connected else Stuck)"
    by (simp add: s3 proxy_connectFlag_def on_mapping_def m2 pipes_def pipe_state_def)
  moreover have "pipes (app s2) p = Some (if receiving (ipcStreamHandle m2) then Linking else Waiting)"
    using l m2 by (auto simp: pipes_def pipe_state_def split: if_splits)
  moreover have "pipe_moves t p Stuck = {Stuck}" for t by (cases t) simp_all
  ultimately show ?thesis using run_turns_inv [OF d3(1), of ts'] d3(2) pipes_stay [OF d3(1), of p Stuck ts'] by simp
qed

theorem nptp_pipe_race_witness:
  "\<exists>s0 s1 s2 s3. serv_init sample_env (boot nptp_start (sample_replies @
       [Done, Val 9, Done, Done, Done, Data [] (Sockaddr_un [])])) = (Some 0, s0) \<and>
     proxy_connectStart 1 (run_turns [Outside {''/''}] s0) = (Inr 0, s1) \<and>
     s2 = run_turns [Pipe 1] s1 \<and> s3 = proxy_connectFlag 1 0 s2 \<and>
     pipes (app s2) 1 = Some Waiting \<and> pipes (app (run_turns [Event, Pipe 1] s3)) 1 = Some Stuck"
proof -
  let ?rest = "[Done, Val 9, Done, Done, Done, Data [] (Sockaddr_un [])]"
  obtain s0 h c where s0: "serv_init sample_env (boot nptp_start (sample_replies @ ?rest)) = (Some 0, s0)"
    and m: "mappings (app s0) 1 = Some (sample_mapping\<lparr>tcpServerHandle := Some (2, h), ipcStreamHandle := Some (3, c), wd := 1\<rparr>)"
      (is "_ = Some ?m")
    and c: "stream_client_ctx.fd c = 6" "stream_client_ctx.running c = 0" "stream_client_ctx.localAddr c = Sockaddr_un (IPC_STREAM_FILE_PATH @ [char_of (48 :: nat)])"
    and k: "script s0 = ?rest" "fds s0 = {8,7,6,5,0,1,2}" "brk s0 = 5" "cancels s0 = {}"
    by (rule sample_service_run [of ?rest]) metis
  let ?s = "run_turns [Outside {''/''}] s0"
  have s: "?s = s0\<lparr>files := {''/''}\<rparr>" by (simp add: run_turns_def)
  have m': "mappings (app ?s) 1 = Some ?m" using m by (simp add: s)
  have z: "c_string (replicate n (CHR 0x00)) = []" for n using c_string_pad [of "[]" n] by simp
  have d: "fmt_d 0 = [char_of (48 :: nat)]" by (simp add: fmt_d_def fmt_u.simps)
  let ?v = "streamClose (stream_client_ctx.localAddr c) 6 ?s"
  have v: "script ?v = ?rest" "fds ?v = {8,7,5,0,1,2}" "brk ?v = 5" "cancels ?v = {}" "files ?v = {''/''}" "mappings (app ?v) 1 = Some ?m"
    using m k unfolding c(3) by (simp_all add: s unixClose_def posix_eval IPC_STREAM_FILE_PATH_def insert_Diff_if)
  obtain u where u: "comm_ipcStreamClientUninit (Some (3, c)) ?s = u" "script u = ?rest" "fds u = {8,7,5,0,1,2}" "brk u = 5"
    "cancels u = {}" "files u = {''/''}" "mappings (app u) 1 = Some ?m"
    using v c(1,2) by (simp add: comm_ipcStreamClientUninit_def streamClientUninit_def streamUninitClient_def c_free_def)
  obtain s1 c1 where s1: "proxy_connectStart 1 ?s = (Inr 0, s1)" "script s1 = [Data [] (Sockaddr_un [])]"
    "mappings (app s1) 1 = Some (?m\<lparr>ipcStreamHandle := Some (5, c1)\<rparr>)" "stream_client_ctx.running c1 = 1"
    "stream_client_ctx.fd c1 = 9" "9 \<in> fds s1" "cancels s1 = {}" "pClientExitFunc c1 = p_ipcStreamExitFunc" "pClientArg c1 = 1"
    using m' u by (simp add: proxy_connectStart_def comm_ipcStreamClientInit_def sample_mapping_def zero_mapping_def sample_eval
        comm_ipcStreamClientConnect_def streamClientConnect_def IPC_STREAM_FILE_PATH_def d z read_chars_def)
  have "p_ipcStreamExitFunc \<noteq> NULL" by (simp add: proxy_pointers)
  then have w: "pipes (app (run_turns [Pipe 1] s1)) 1 = Some Waiting"
    using s1 by (simp add: run_turns_def pipeTurn_def streamClientRecvBody_def sample_eval ipcStreamExitFunc_def pipes_def pipe_state_def)
  have p0: "pipeConnect ?m = 0" by (simp add: sample_mapping_def zero_mapping_def)
  have "Event \<notin> set [Pipe 1]" by simp
  from nptp_pipe_race [OF sample_fresh sample_script_rest s0 m' p0 s1(1) this refl refl, of "[Event, Pipe 1]"] w
  have "pipes (app (run_turns [Event, Pipe 1] (proxy_connectFlag 1 0 (run_turns [Pipe 1] s1)))) 1 = Some Stuck" by simp
  with s0 s1(1) w show ?thesis by blast
qed

section \<open>Accepting a TCP client, in two halves\<close>

text \<open>The acceptance up to the start of the client's thread, and the callback and the registration after it.\<close>

definition streamAcceptThread :: "addr \<Rightarrow> stream_server_ctx \<Rightarrow> user_store \<Rightarrow> sockaddr \<Rightarrow> int \<Rightarrow> 'a world \<Rightarrow>
    (nat \<times> addr) option \<times> user_store \<times> 'a world" where
  "streamAcceptThread pc pContext us pAddr n s =
     (if cap (table pContext) \<le> num (table pContext) then (None, us, s)
      else (case find_slot NULL (cap (table pContext)) (tbl (table pContext)) of
          None \<Rightarrow> (None, us, s)
        | Some i \<Rightarrow>
            let (p, s) = c_malloc s in
            if p = NULL then (None, us, s)
            else
              let s = (if is_unix pAddr then s else sys_setsockopt n ''TCP_NODELAY'' s);
                  (error, t, s) = pthread_create True s in
              if error \<noteq> 0 then (None, us, c_free p s)
              else (Some (i, p), us(p \<mapsto> \<lparr>pServer = pc, user_addr = pAddr, user_fd = n, user_thread = t,
                      user_recvMsg = recv_buffer\<rparr>), s)))"

definition streamAcceptNotify :: "'a application \<Rightarrow> addr \<Rightarrow> stream_server_ctx \<Rightarrow> 'a world \<Rightarrow> 'a world" where
  "streamAcceptNotify cb p pContext s =
     (if pServerAcptFunc pContext \<noteq> NULL then invoke cb (AcptCb (pServerAcptFunc pContext) (pServerArg pContext) p) s else s)"

lemma create_halves:
  "streamAcceptCreate cb pc c us pa n s = (case streamAcceptThread pc c us pa n s of
     (None, us', s') \<Rightarrow> (None, us', s') | (Some (i, p), us', s') \<Rightarrow> (Some (i, p), us', streamAcceptNotify cb p c s'))"
  by (auto simp: streamAcceptCreate_def streamAcceptThread_def streamAcceptNotify_def Let_def split: option.split prod.split)

text \<open>The halves of the turn that accepts a client to mapping \<open>p\<close>.\<close>

definition acceptBegin :: "addr \<Rightarrow> nptp world \<Rightarrow> (nat \<times> addr) option \<times> nptp world" where
  "acceptBegin p s = (case mappings (app s) p of
       None \<Rightarrow> (None, s)
     | Some m \<Rightarrow> (case tcpServerHandle m of
           None \<Rightarrow> (None, s)
         | Some (pc, c) \<Rightarrow>
             let (n, a, s) = sys_accept (stream_server_ctx.fd c) s in
             if n < 0 then (None, s)
             else
               let (pAddr, c) = accept_addr c a;
                   (r, us, s) = streamAcceptThread pc c (tcpUsers m) pAddr n s
               in (r, on_mapping p (\<lambda>m. m\<lparr>tcpServerHandle := Some (pc, c), tcpUsers := us\<rparr>)
                     (if r = None then sys_close n s else s))))"

definition acceptEnd :: "addr \<Rightarrow> nat \<Rightarrow> addr \<Rightarrow> nptp world \<Rightarrow> nptp world" where
  "acceptEnd p i u s = on_server p (\<lambda>pc c us s. (streamAcceptRegister i u c, us, streamAcceptNotify nptp_app u c s)) s"

text \<open>With nothing in between they are one turn.\<close>

lemma accept_turn_halves:
  assumes m: "mappings (app s) p = Some m" "tcpServerHandle m = Some (pc, c)" "server_set_up p c"
    and r: "stream_server_ctx.running c \<noteq> 0" "stream_server_ctx.thread c \<notin> cancels s"
    and b: "acceptBegin p s = (Some (i, u), s')"
  shows "make_turn (Accept p) s = acceptEnd p i u s'"
proof -
  obtain n a s1 where 1: "sys_accept (stream_server_ctx.fd c) s = (n, a, s1)" by (metis prod_cases3)
  obtain pa c1 where 2: "accept_addr c a = (pa, c1)" by fastforce
  then have c1: "c1 = c" using m(3) by (auto simp: accept_addr_def server_set_up_def)
  obtain r us s2 where 3: "streamAcceptThread pc c (tcpUsers m) pa n s1 = (r, us, s2)" by (metis prod_cases3)
  have n: "\<not> n < 0" and rr: "r = Some (i, u)" using b 1 2 3 m by (auto simp: acceptBegin_def c1 split: if_splits)
  have s': "s' = on_mapping p (\<lambda>m. m\<lparr>tcpServerHandle := Some (pc, c), tcpUsers := us\<rparr>) s2"
    using b 1 2 3 m n by (simp add: acceptBegin_def c1 rr)
  have a2: "app s2 = app s" using 3 app_accept [OF 1]
    by (auto simp: streamAcceptThread_def Let_def app_setsockopt app_calls dest!: app_malloc app_create split: prod.splits option.splits if_splits)
  have cc: "cancels s1 = cancels s" using 1 by (auto simp: sys_accept_def pop_def split: list.splits reply.splits if_splits)
  have u: "u \<noteq> NULL" using 3 rr by (auto simp: streamAcceptThread_def Let_def split: prod.splits option.splits if_splits)
  have f: "pServerArg c = p" "pServerAcptFunc c = p_tcpIpv4AcptFunc" "p_tcpIpv4AcptFunc \<noteq> NULL"
    using m(3) by (simp_all add: server_set_up_def proxy_pointers)
  show ?thesis
    using m r 1 2 3 n rr u c1 cc a2 f
    by (simp add: on_server_def acceptTurn_def streamListenBody_def streamAcceptClient_def create_halves pthread_testcancel_def
        acceptEnd_def s' streamAcceptNotify_def invoke_def tcpIpv4AcptFunc_def on_mapping_def set_app_def emit_def)
qed

text \<open>A mapping that is connected to its pipe and has no TCP client.\<close>

definition idle_mapping :: "addr \<Rightarrow> nptp world \<Rightarrow> tMapping \<Rightarrow> bool" where
  "idle_mapping p s m \<longleftrightarrow> mappings (app s) p = Some m \<and> tcpUsers m = Map.empty \<and>
     (\<exists>pc c. tcpServerHandle m = Some (pc, c) \<and> server_set_up p c \<and> tbl (table c) ! 0 = NULL \<and> tbl (table c) \<noteq> [] \<and>
        num (table c) = 0) \<and>
     (\<exists>q k. ipcStreamHandle m = Some (q, k) \<and> client_set_up p k \<and> stream_client_ctx.running k \<noteq> 0 \<and>
        stream_client_ctx.thread k \<notin> cancels s \<and> stream_client_ctx.fd k \<in> fds s)"

text \<open>What the first half leaves.\<close>

lemma acceptBegin_rule:
  assumes im: "idle_mapping p s m" and w: "wf_world s" "0 \<in> fds s" and b: "acceptBegin p s = (Some (i, u), s')"
  obtains x where "i = 0" "u \<noteq> NULL" "mappings (app s') p = Some (m\<lparr>tcpUsers := [u \<mapsto> x]\<rparr>)" "0 < user_fd x" "user_fd x \<in> fds s'"
    "user_fd x \<notin> fds s" "user_thread x \<notin> cancels s'" "cancels s' = cancels s" "fds s \<subseteq> fds s'" "u \<in> heap s'"
proof -
  obtain pc c where m: "mappings (app s) p = Some m" "tcpServerHandle m = Some (pc, c)" "server_set_up p c" "tbl (table c) ! 0 = NULL"
    "num (table c) = 0" "tcpUsers m = Map.empty" using im by (auto simp: idle_mapping_def)
  have cp: "cap (table c) = 1" using m(3) by (simp add: server_set_up_def)
  have fs: "find_slot NULL 1 (tbl (table c)) = Some 0" using m(4) by (simp add: find_slot_def)
  obtain n a s1 where 1: "sys_accept (stream_server_ctx.fd c) s = (n, a, s1)" by (metis prod_cases3)
  obtain pa c1 where 2: "accept_addr c a = (pa, c1)" by fastforce
  then have c1: "c1 = c" using m(3) by (auto simp: accept_addr_def server_set_up_def)
  obtain r us s2 where 3: "streamAcceptThread pc c (tcpUsers m) pa n s1 = (r, us, s2)" by (metis prod_cases3)
  have n: "0 \<le> n" and rr: "r = Some (i, u)" and s': "s' = on_mapping p (\<lambda>m. m\<lparr>tcpServerHandle := Some (pc, c), tcpUsers := us\<rparr>) s2"
    using b 1 2 3 m by (auto simp: acceptBegin_def c1 split: if_splits)
  have f1: "wf_world s1" "n \<notin> fds s" "fds s1 = insert n (fds s)" "cancels s1 = cancels s"
    using sys_accept_rule [OF 1 w(1)] n by (auto simp: quiet_def)
  have p: "0 < n" using n f1(2) w(2) order_le_less [of 0 n] by auto
  obtain v s3 where 4: "c_malloc s1 = (v, s3)" by fastforce
  note f4 = c_malloc_rule [OF 4 f1(1)]
  let ?s4 = "if is_unix pa then s3 else sys_setsockopt n ''TCP_NODELAY'' s3"
  obtain e t s5 where 5: "pthread_create True ?s4 = (e, t, s5)" by (metis prod_cases3)
  let ?x = "\<lparr>pServer = pc, user_addr = pa, user_fd = n, user_thread = t, user_recvMsg = recv_buffer\<rparr>"
  have r: "v \<noteq> NULL" "e = 0" "i = 0" "u = v" "us = [u \<mapsto> ?x]" "s2 = s5"
    using 3 rr m(5,6) fs 4 5 by (auto simp: streamAcceptThread_def cp split: if_splits)
  have w4: "wf_world ?s4" using f4 sys_setsockopt_rule [of s3 n "''TCP_NODELAY''"] by simp
  have k4: "fds ?s4 = fds s1" "cancels ?s4 = cancels s" "heap ?s4 = heap s3" "app ?s4 = app s"
    using f4 f1(4) sys_setsockopt_rule [of s3 n "''TCP_NODELAY''"] app_malloc [OF 4] app_accept [OF 1] app_setsockopt
    by (simp_all add: quiet_def)
  have f5: "t \<notin> cancels s" "fds s5 = fds s1" "cancels s5 = cancels s" "heap s5 = heap s3" "app s5 = app s"
    using pthread_create_rule [OF 5 w4] r(2) k4 app_create [OF 5] by (auto simp: quiet_def)
  have ms: "mappings (app s5) p = Some m" using f5(5) m(1) by simp
  have "m\<lparr>tcpServerHandle := Some (pc, c), tcpUsers := us\<rparr> = m\<lparr>tcpUsers := us\<rparr>" using m(2) by (cases m) simp
  then have "mappings (app s') p = Some (m\<lparr>tcpUsers := [u \<mapsto> ?x]\<rparr>)" using r(5,6) ms by (simp add: s' on_mapping_def)
  moreover have "fds s' = insert n (fds s)" "cancels s' = cancels s" "heap s' = heap s3" "u \<in> heap s3"
    using r f5 f1 f4 4 ms by (auto simp: s' on_mapping_def)
  ultimately show thesis using that [of ?x] r p f1(2) f5(1) by auto
qed

text \<open>
  C14. The service starts the thread of a TCP client before it notes the client. A client that hangs up at once
  may be gone by then: its thread clears \<open>pTcpUser\<close> and frees the user, and only then the callback
  for its arrival stores the pointer to the freed user, which is also entered in the table. From
  then on the mapping counts as connected; the next message from the pipe is sent through the freed user, a use
  after free; and because the table has one place, no other client is ever accepted. Without such an
  interruption the two halves are the one turn the other properties are about
  (\<open>accept_turn_halves\<close>).
\<close>

theorem nptp_accept_race:
  assumes im: "idle_mapping p s m" and w: "wf_world s" "0 \<in> fds s" and b: "acceptBegin p s = (Some (i, u), s1)"
    and sc: "script s1 = Data [] a # Data bs a' # rs" "bs \<noteq> []"
    and s2: "s2 = run_turns [Receive p u, Leave p u] s1" and s3: "s3 = acceptEnd p i u s2"
  shows "faults s3 = faults s1 \<and> u \<notin> heap s3 \<and>
    (\<exists>m'. mappings (app s3) p = Some m' \<and> tcpConnect m' = 1 \<and> pTcpUser m' = u \<and> tcpUsers m' = Map.empty \<and>
      Use_After_Free u \<in> set (faults (make_turn (Pipe p) s3)) \<and>
      (\<forall>t. mappings (app t) p = Some m' \<longrightarrow> fst (acceptBegin p t) = None))"
proof -
  from acceptBegin_rule [OF im w b] obtain x where u: "i = 0" "u \<noteq> NULL" "mappings (app s1) p = Some (m\<lparr>tcpUsers := [u \<mapsto> x]\<rparr>)"
    "0 < user_fd x" "user_fd x \<in> fds s1" "user_fd x \<notin> fds s" "user_thread x \<notin> cancels s1" "cancels s1 = cancels s"
    "fds s \<subseteq> fds s1" "u \<in> heap s1" .
  obtain pc c where m: "mappings (app s) p = Some m" "tcpServerHandle m = Some (pc, c)" "server_set_up p c" "tbl (table c) ! 0 = NULL"
    "tbl (table c) \<noteq> []" "num (table c) = 0" "tcpUsers m = Map.empty" using im by (auto simp: idle_mapping_def)
  obtain q k where h: "ipcStreamHandle m = Some (q, k)" "client_set_up p k" "stream_client_ctx.running k \<noteq> 0"
    "stream_client_ctx.thread k \<notin> cancels s" "stream_client_ctx.fd k \<in> fds s" using im by (auto simp: idle_mapping_def)
  have f: "pServerArg c = p" "pServerExitFunc c = p_tcpIpv4ExitFunc" "p_tcpIpv4ExitFunc \<noteq> NULL" "\<not> is_unix (stream_server_ctx.localAddr c)"
    "cap (table c) = 1" "pServerAcptFunc c = p_tcpIpv4AcptFunc" "p_tcpIpv4AcptFunc \<noteq> NULL"
    using m(3) by (simp_all add: server_set_up_def proxy_pointers)
  have g: "pClientArg k = p" "pClientRecvFunc k = p_ipcStreamRecvFunc" "p_ipcStreamRecvFunc \<noteq> NULL"
    using h(2) by (simp_all add: client_set_up_def proxy_pointers)
  let ?t0 = "emit (ECall (UserExitCb p_tcpIpv4ExitFunc p u)) (sys_close (user_fd x) (s1\<lparr>script := Data bs a' # rs\<rparr>))"
  let ?t1 = "on_mapping p (\<lambda>m. m\<lparr>tcpConnect := 0, pTcpUser := NULL\<rparr>) ?t0"
  let ?x = "x\<lparr>user_recvMsg := fill (user_recvMsg x) [], user_fd := -1\<rparr>"
  have 1: "streamServerRecvBody nptp_app (user_thread x) c u (x, s1) = (Break, ?x, ?t1)"
    using u sc f by (simp add: streamServerRecvBody_def pthread_testcancel_def sys_recv_def sys_recvfrom_def pop_def recv_stops_def
        invoke_def tcpIpv4ExitFunc_def)
  have c0: "sys_close (user_fd x) t = emit (EClose (user_fd x)) (t\<lparr>fds := fds t - {user_fd x}\<rparr>)" if "user_fd x \<in> fds t" for t :: "nptp world"
    using that by (simp add: sys_close_def)
  let ?m1 = "m\<lparr>tcpConnect := 0, pTcpUser := NULL, tcpUsers := [u \<mapsto> ?x]\<rparr>"
  obtain t where t: "make_turn (Receive p u) s1 = t" "mappings (app t) p = Some ?m1" "script t = Data bs a' # rs" "heap t = heap s1"
    "faults t = faults s1" "cancels t = cancels s" "fds t = fds s1 - {user_fd x}"
    using 1 u m by (simp add: on_server_def userTurn_def on_mapping_def c0 set_app_def emit_def)
  let ?m2 = "m\<lparr>tcpConnect := 0, pTcpUser := NULL, tcpUsers := Map.empty\<rparr>"
  have cl: "clear_slot u (table c) = table c" using m(4) u(2) f(5) by (simp add: clear_slot_def find_slot_def)
  have "streamDisconnectClient u (c, [u \<mapsto> ?x], t) = (c, Map.empty, c_free u t)"
    using u(2) cl by (simp add: streamDisconnectClient_def)
  then have 2: "mappings (app s2) p = Some ?m2" "script s2 = Data bs a' # rs" "heap s2 = heap s1 - {u}" "faults s2 = faults s1"
    "cancels s2 = cancels s" "fds s2 = fds s1 - {user_fd x}"
    using t m u(2,10) by (simp_all add: s2 run_turns_def on_server_def leaveTurn_def on_mapping_def c_free_def set_app_def)
  let ?c = "streamAcceptRegister 0 u c"
  let ?m3 = "m\<lparr>tcpConnect := 1, pTcpUser := u, tcpUsers := Map.empty, tcpServerHandle := Some (pc, ?c)\<rparr>"
  have 3: "mappings (app s3) p = Some ?m3" "script s3 = Data bs a' # rs" "heap s3 = heap s1 - {u}" "faults s3 = faults s1"
    "cancels s3 = cancels s" "fds s3 = fds s1 - {user_fd x}"
    using 2 m u(1) f by (simp_all add: s3 acceptEnd_def on_server_def streamAcceptNotify_def invoke_def tcpIpv4AcptFunc_def on_mapping_def
        set_app_def emit_def)
  have j: "stream_client_ctx.fd k \<in> fds s3" using h(5) u(6,9) 3(6) by auto
  have sv: "faults (snd (streamServerSend u Map.empty d n y)) = faults y @ [Use_After_Free u]" for d n and y :: "nptp world"
    using u(2) by (simp add: streamServerSend_def)
  let ?bs = "take COMM_BUF_SIZE bs"
  have ne: "?bs \<noteq> []" using sc(2) by (simp add: COMM_BUF_SIZE_def)
  obtain k' d n where 4: "streamClientRecvBody nptp_app (stream_client_ctx.thread k) (k, s3) =
      (Next, k', ipcStreamRecvFunc p d n (emit (ECall (RecvCb p_ipcStreamRecvFunc p d n)) (s3\<lparr>script := rs\<rparr>)))"
    using 3(1,2,5) h(4) g j ne by (simp add: streamClientRecvBody_def pthread_testcancel_def sys_recv_def sys_recvfrom_def pop_def
        invoke_def Let_def)
  let ?t3 = "emit (ECall (RecvCb p_ipcStreamRecvFunc p d n)) (s3\<lparr>script := rs\<rparr>)"
  have "Use_After_Free u \<in> set (faults (ipcStreamRecvFunc p d n ?t3))"
    using 3(1) u(2) by (simp add: ipcStreamRecvFunc_def comm_tcpIpv4ServerSend_def sv)
  then have "Use_After_Free u \<in> set (faults (make_turn (Pipe p) s3))"
    using 3(1) h(1,3) 4 by (simp add: pipeTurn_def on_mapping_def split: option.split)
  moreover have "fst (acceptBegin p y) = None" if "mappings (app y) p = Some ?m3" for y
    using that f(4,5) m(2,6) by (simp add: acceptBegin_def streamAcceptThread_def streamAcceptRegister_def accept_addr_def split: prod.split)
  ultimately show ?thesis using 3 by auto
qed


theorem nptp_accept_race_witness:
  "\<exists>s u s1 s2 s3 m'. s = (boot (nptp_start\<lparr>mappings := [1 \<mapsto> sample_link\<lparr>tcpUsers := Map.empty, tcpConnect := 0, pTcpUser := NULL\<rparr>]\<rparr>)
        [Conn 6 (any_addr IPv4 0), Done, Done, Data [] (any_addr IPv4 0), Data [1] (any_addr IPv4 0)])\<lparr>fds := {0, 5, 7}, next_tid := 4\<rparr> \<and>
     acceptBegin 1 s = (Some (0, u), s1) \<and> s2 = run_turns [Receive 1 u, Leave 1 u] s1 \<and> s3 = acceptEnd 1 0 u s2 \<and>
     mappings (app s3) 1 = Some m' \<and> tcpConnect m' = 1 \<and> u \<notin> heap s3 \<and>
     Use_After_Free u \<in> set (faults (make_turn (Pipe 1) s3))"
proof -
  let ?a = "any_addr IPv4 0" and ?m = "sample_link\<lparr>tcpUsers := Map.empty, tcpConnect := 0, pTcpUser := NULL\<rparr>"
  let ?s = "(boot (nptp_start\<lparr>mappings := [1 \<mapsto> ?m]\<rparr>)
        [Conn 6 ?a, Done, Done, Data [] ?a, Data [1] ?a])\<lparr>fds := {0, 5, 7}, next_tid := 4\<rparr>"
  have im: "idle_mapping 1 ?s ?m"
    by (simp add: idle_mapping_def sample_link_def boot_def server_set_up_def client_set_up_def
        streamServerNewContext_def streamClientNewContext_def USER_NUM_def SUN_PATH_def)
  have w: "wf_world ?s" "0 \<in> fds ?s" by (simp_all add: wf_world_def boot_def)
  obtain s1 where b: "acceptBegin 1 ?s = (Some (0, 1), s1)" and sc: "script s1 = Data [] ?a # Data [1] ?a # []"
    by (simp add: acceptBegin_def sample_link_def streamServerNewContext_def USER_NUM_def boot_def accept_addr_def
        streamAcceptThread_def find_slot_def posix_eval on_mapping_def set_app_def)
  have "[1 :: 8 word] \<noteq> []" by simp
  from nptp_accept_race [OF im w b sc this refl refl] b show ?thesis by blast
qed

end
