(* ===== verification/Spec2Isabelle.thy ===== *)
theory Spec2Isabelle
  imports Comm_Log Udp Tcp Ipc_Stream Server_Race Ipc_Dgram Raw Fifo Netlink Uart Link Nptp_Main Nptp_Watch Nptp_Race
begin

text \<open>
  libcomm is a C library of communication endpoints. Each file under \<^verbatim>\<open>source/\<close> is one transport
  with the same shape: an initialisation that allocates a context, opens a descriptor and starts
  a receive thread, an un-initialisation that gives all of it back, sending and receiving by
  hand, and a thread that waits for data and hands it to callbacks of the application. The
  transports share nothing at run time but the log, so the development is a base, which models
  what all of them use, and one theory for each transport. \<^verbatim>\<open>application/\<close> is a program on the
  library: \<^verbatim>\<open>nptp_serv\<close>, which makes named pipes (UNIX domain stream sockets) reachable over TCP, and
  \<^verbatim>\<open>nptp_ctrl\<close>, which sends it commands.

  \<^bold>\<open>The base.\<close>
  \<open>Prelude\<close> has the model of a C loop (\<open>c_while\<close>: a loop that does not end is \<open>None\<close>) and generic
  lemmas. \<open>Posix\<close> models the C library and the kernel as transformers of one record \<open>world\<close>: open
  descriptors, heap blocks, threads, pending cancellations, names of files, the events so far,
  and undefined behaviour met (\<open>faults\<close>). What the kernel answers is a \<open>script\<close> of replies, so a
  theorem about every world is one about every behaviour of the kernel. \<open>adds\<close> is the ownership
  predicate: what a piece of code has acquired since a given world. \<open>Comm_If\<close> is
  \<^verbatim>\<open>include/comm_if.h\<close>, and has the contract of a transport's life cycle (locales \<open>transport\<close>,
  \<open>endpoint\<close>) from which it follows that any number of sessions, closed in any order, leave
  nothing behind. \<open>Recv_Loop\<close> has the contract of one turn of a receive thread (locales
  \<open>recv_machine\<close>, \<open>recv_loop\<close>), from which follow the end of the loop and what it has handed over
  by then. \<open>User_Table\<close> is the servers' table of users as a bounded set (locale \<open>bounded_set\<close>).
  \<open>Unix_Socket\<close> opens and closes named sockets and reads the names of peers, \<open>Stream_Socket\<close> is
  what the stream transports share. Every locale is interpreted on the functions of the
  transports, in their theories.

  \<^bold>\<open>The components.\<close>
  \<open>Comm_Log\<close>: \<^verbatim>\<open>source/comm_log.c\<close> and \<^verbatim>\<open>comm_log.h\<close>, the masks, the log line and the dump.
  \<open>Udp\<close>: \<^verbatim>\<open>source/comm_udp.c\<close>.
  \<open>Stream_Client\<close> and \<open>Stream_Server\<close>: the stream client and server, of which the C code has
  three copies; \<open>Tcp\<close> and \<open>Ipc_Stream\<close> name the instances, which are the functions of
  \<^verbatim>\<open>comm_tcp_client.c\<close>, \<^verbatim>\<open>comm_tcp_server.c\<close> and \<^verbatim>\<open>comm_ipc_stream.c\<close>. The kind of the local address
  selects the copy. \<open>Ipc_Dgram\<close>: \<^verbatim>\<open>comm_ipc_dgram.c\<close>. \<open>Raw\<close>: \<^verbatim>\<open>comm_raw.c\<close>. \<open>Fifo\<close>:
  \<^verbatim>\<open>comm_fifo.c\<close>. \<open>Netlink\<close>: \<^verbatim>\<open>comm_netlink.c\<close>. \<open>Uart\<close>: \<^verbatim>\<open>comm_uart.c\<close>.

  The program: \<open>Nptp\<close> has its state, which is the \<open>app\<close> of the worlds the library works on:
  \<^verbatim>\<open>nptp_serv.h\<close> and the globals. \<open>Nptp_Config\<close>: \<^verbatim>\<open>nptp_xml.c\<close>, with libxml2 and \<^verbatim>\<open>getcwd\<close> as
  parameters (\<open>conf_env\<close>). \<open>Nptp_Proxy\<close>: \<^verbatim>\<open>nptp_proxy.c\<close>. \<open>Nptp_Event\<close>: \<^verbatim>\<open>nptp_event.c\<close>.
  \<open>Nptp_Serv\<close> and \<open>Nptp_Main\<close>: \<^verbatim>\<open>nptp_serv.c\<close>. \<open>Nptp_Ctrl\<close>: \<^verbatim>\<open>nptp_ctrl.c\<close>, with \<^verbatim>\<open>comm_ipcDgramSendTo\<close>, which the
  library does not have, as a parameter of which nothing is assumed. Its callbacks are given to the library as \<open>nptp_app\<close>.
  \<open>Nptp_Turns\<close> puts the program and the library's threads together (\<open>make_turn\<close>, \<open>run_turns\<close>); \<open>Nptp_Main\<close> puts the main
  thread, from \<^verbatim>\<open>main\<close> to its end, among them (\<open>event_loop\<close>, \<open>serv_main\<close>), under a schedule of turns.

  In each component the context is a record with the fields of the C structure (a handle is the
  address of the context together with the context); \<open>...InitSocket\<close>, \<open>...RecvBody\<close> (one turn of
  the thread's loop), \<open>...RecvTask\<close> (the thread function), \<open>...NewContext\<close>, \<open>...Init\<close>, \<open>...Uninit\<close>,
  \<open>...Send\<close>, \<open>...Recv\<close> follow the functions of the file in order. IPv4 and IPv6 halves are
  instances of one definition over \<open>ipv\<close> or over the address.

  \<^bold>\<open>The lemmas.\<close>
  \<open>..._adds\<close> and \<open>..._rule\<close> say what an operation acquires, releases and leaves alone, on every
  branch. The interpretations give the sessions and the threads. The server has an invariant
  (\<open>server_inv\<close>: the table, the users' blocks and descriptors, each owned once), kept by every turn
  of every thread in any order (\<open>server_step\<close>, \<open>server_reach\<close>), and it refines an abstract bounded
  set of users (\<open>member_step\<close>). \<open>Server_Race\<close> lets the threads run between the two halves of an
  acceptance and says when that is safe. \<open>Link\<close> puts two programs on the two ends of a connection or a FIFO:
  its locale \<open>byte_writer\<close> is the contract of the sends, and with the threads' rules what one end writes is what
  the other end's application is handed, for every promise of the kernel in \<open>carries\<close>. \<open>Nptp_Inv\<close> says
  what the program owns, mapping by mapping (\<open>nptp_inv\<close>: the blocks, the servers with their users, the clients, each owned once, beside what the
  rest of the process owns), and that the operations on one mapping keep it, by the invariants of
  the library's server and client; \<open>Nptp_Life\<close> lifts that to the operations on all mappings, the events
  and the commands, \<open>Nptp_Run\<close> to \<^verbatim>\<open>serv_init\<close> and \<^verbatim>\<open>serv_uninit\<close> on every path through them, \<open>Nptp_Turns\<close>
  to any sequence of turns. \<open>Nptp_Service\<close>, \<open>Nptp_Main\<close>, \<open>Nptp_Relay\<close> and \<open>Nptp_Watch\<close> have the properties: memory
  safety and restored resources, the types of the data, when the program ends, what it relays, which
  mapping an event reaches. \<open>Nptp_Pipe\<close> shows the connection to each pipe as a state machine that every
  turn refines (\<open>pipe_moves\<close>), in which \<^verbatim>\<open>pipeConnect\<close> tells the truth between turns; \<open>Nptp_Race\<close> divides
  connecting a pipe and accepting a TCP client at the start of the new thread (the halves are proved to make
  up the whole) and says what other turns in between do. \<open>Nptp_Config\<close> has the properties of reading a
  configuration. The properties follow the components; each with a hypothesis has a witness,
  a concrete run of the model.

  \<^bold>\<open>Loops and bounds.\<close>
  No fuel is used: that a thread ends is part of what is proved (\<open>... = Some ...\<close>), because each
  turn takes an answer of the kernel from the finite script. The program's own loop, run alone, is proved not to
  end while it watches (\<open>... = None\<close>); beside the other threads, under any finite schedule of turns, it
  is proved to end exactly when it has noticed the command to. The receive buffer has 8192 bytes
  and receives ask for 8191, \<^verbatim>\<open>sun_path\<close> has 108 bytes, the table of users 32 slots. Lengths passed
  to callbacks are 16 bit words, flags 32 bit words.

  \<^bold>\<open>Not modelled.\<close>
  Log output of the transports (\<open>Comm_Log\<close> models the log itself; its calls have no effect on
  the state kept here), \<^verbatim>\<open>usleep\<close>, thread attributes other than detached, results of calls the code
  does not look at, and signals (a send to a closed connection, which raises \<^verbatim>\<open>SIGPIPE\<close>, is a send that
  fails). The kernel delivers whole events, with names that end with a NUL, so \<^verbatim>\<open>event_monitor\<close> does
  not read beyond its buffer. The host is little-endian. Contexts are passed by value, so an
  operation of the application from within a callback on the same handle is not covered, and the
  threads of a server make their turns one after the other: but for the two halves of an
  acceptance (\<open>Server_Race\<close>), no other thread runs between two calls of a turn. In the program, one turn of a thread
  or of the loop is made at a time, and other processes make and remove files between turns (\<open>Outside\<close>); but
  for the two divided turns of \<open>Nptp_Race\<close> (a pipe that closes before its flag is set, a TCP client that
  leaves before the callback for its arrival) its races are not covered, nor is the thread of a client
  that is being un-initialised (\<open>stream_client_uninit_leaves_thread\<close>). Memory of the program is reckoned for a configuration
  that its arrays have room for (\<open>config_ok\<close>) and for which there is memory. Deliberately outside are
  the command line programs under \<^verbatim>\<open>test/\<close>, which only call the library.
\<close>

section \<open>Cancellation\<close>




end
